(* ===== verification/C_Lib.thy ===== *)
theory C_Lib
  imports Main "HOL-Library.Word" "HOL-Library.Monad_Syntax"
begin

text \<open>
  The prelude of the development: what the programs under \<^verbatim>\<open>src/tools\<close> and
  \<^verbatim>\<open>src/heartbeat\<close> use of the C language and its standard library, with the generic
  lemmas the components share.

  Bytes and characters are \<open>char\<close> (eight bits), a C buffer is a \<open>char list\<close> of fixed
  length, a C string is what stands before the first null byte of a buffer
  (\<open>cstr\<close>).  The decimal conversions (\<open>snprintf\<close> with \<open>%d\<close>, \<open>atoi\<close>,
  \<open>strtoul\<close>) are modelled with their saturation and truncation, \<open>getopt\<close> with
  option clusters, separate and attached arguments, the \<open>--\<close> terminator and the
  permutation of operands to the end of the argument vector.  A call of a program's function
  ends by returning, by \<open>exit\<close>, or by an access outside a buffer (\<open>Fault\<close>).
\<close>

section \<open>Outcomes of a function call\<close>

datatype 'a result = Ret 'a | Exit int | Fault

definition EXIT_SUCCESS :: int where "EXIT_SUCCESS = 0"
definition EXIT_FAILURE :: int where "EXIT_FAILURE = 1"

lemmas exit_defs = EXIT_SUCCESS_def EXIT_FAILURE_def

text \<open>The exit codes of resource agents.\<close>

definition OCF_SUCCESS :: int where "OCF_SUCCESS = 0"
definition OCF_ERR_GENERIC :: int where "OCF_ERR_GENERIC = 1"
definition OCF_ERR_ARGS :: int where "OCF_ERR_ARGS = 2"
definition OCF_ERR_UNIMPLEMENTED :: int where "OCF_ERR_UNIMPLEMENTED = 3"
definition OCF_ERR_CONFIGURED :: int where "OCF_ERR_CONFIGURED = 6"
definition OCF_NOT_RUNNING :: int where "OCF_NOT_RUNNING = 7"

lemmas ocf_defs = OCF_SUCCESS_def OCF_ERR_GENERIC_def OCF_ERR_ARGS_def OCF_ERR_UNIMPLEMENTED_def
  OCF_ERR_CONFIGURED_def OCF_NOT_RUNNING_def

text \<open>Sequential composition of two parts of a function body over a state: the second part runs when
  the first returns.\<close>

definition and_then ::
  "('s \<Rightarrow> 'a result \<times> 's) \<Rightarrow> ('a \<Rightarrow> 's \<Rightarrow> 'b result \<times> 's) \<Rightarrow> 's \<Rightarrow> 'b result \<times> 's" where
  "and_then f g s =
     (case f s of (r, s') \<Rightarrow>
        case r of Ret x \<Rightarrow> g x s' | Exit e \<Rightarrow> (Exit e, s') | Fault \<Rightarrow> (Fault, s'))"

lemma and_then_Ret:
  "and_then f g s = (Ret y, s'') \<longleftrightarrow> (\<exists>x s'. f s = (Ret x, s') \<and> g x s' = (Ret y, s''))"
  by (auto simp: and_then_def split: prod.splits result.splits)

lemma and_then_Fault:
  "fst (and_then f g s) = Fault \<longleftrightarrow>
     fst (f s) = Fault \<or> (\<exists>x s'. f s = (Ret x, s') \<and> fst (g x s') = Fault)"
  by (auto simp: and_then_def split: prod.splits result.splits)

lemma and_then_cont [simp]: "f s = (Ret x, s') \<Longrightarrow> and_then f g s = g x s'"
  by (simp add: and_then_def)

lemma and_then_stop [simp]:
  "f s = (Exit e, s') \<Longrightarrow> and_then f g s = (Exit e, s')"
  "f s = (Fault, s') \<Longrightarrow> and_then f g s = (Fault, s')"
  by (simp_all add: and_then_def)

text \<open>
  \<open>keeps I f\<close>: run in a state of the invariant \<open>I\<close>, \<open>f\<close> makes no access outside a buffer
  and ends, in whatever way, in a state of \<open>I\<close>.
\<close>

named_theorems keeps_rules

definition keeps :: "('s \<Rightarrow> bool) \<Rightarrow> ('s \<Rightarrow> 'a result \<times> 's) \<Rightarrow> bool" where
  "keeps I f \<longleftrightarrow> (\<forall>s. I s \<longrightarrow> fst (f s) \<noteq> Fault \<and> I (snd (f s)))"

lemma keepsI: "(\<And>s r s'. I s \<Longrightarrow> f s = (r, s') \<Longrightarrow> r \<noteq> Fault \<and> I s') \<Longrightarrow> keeps I f"
  by (auto simp: keeps_def) (metis prod.collapse)+

lemma keepsD: "keeps I f \<Longrightarrow> f s = (r, s') \<Longrightarrow> I s \<Longrightarrow> r \<noteq> Fault \<and> I s'"
  by (metis fst_conv keeps_def snd_conv)

lemma keeps_result [keeps_rules]: "r \<noteq> Fault \<Longrightarrow> keeps I (Pair r)"
  by (simp add: keeps_def)

lemma keeps_if [keeps_rules]: "keeps I f \<Longrightarrow> keeps I g \<Longrightarrow> keeps I (\<lambda>s. if P s then f s else g s)"
  by (simp add: keeps_def)

lemma keeps_and_then_at [keeps_rules]:
  assumes "keeps I f" and "\<And>x. keeps I (g x)" and "\<And>s. I s \<Longrightarrow> I (h s)"
  shows "keeps I (\<lambda>s. and_then f g (h s))"
  using assms by (intro keepsI) (auto simp: and_then_def split: prod.splits result.splits dest!: keepsD)

lemma keeps_and_then [keeps_rules]: "keeps I f \<Longrightarrow> (\<And>x. keeps I (g x)) \<Longrightarrow> keeps I (and_then f g)"
  using keeps_and_then_at[of I f g "\<lambda>s. s"] by simp

lemma and_then_snd:
  assumes "P s" and "\<And>s. P s \<Longrightarrow> P (snd (f s))" and "\<And>x s. P s \<Longrightarrow> P (snd (g x s))"
  shows "P (snd (and_then f g s))"
proof (cases "f s")
  case (Pair r s1)
  then have "P s1" using assms(1,2) by (metis snd_conv)
  then show ?thesis using Pair assms(3) by (cases r) (simp_all add: and_then_def)
qed

text \<open>An invariant of a step relation holds in every state reached from one that has it.\<close>

locale step_invariant =
  fixes step :: "'s \<Rightarrow> 's \<Rightarrow> bool" and inv :: "'s \<Rightarrow> bool"
  assumes step_inv: "inv s \<Longrightarrow> step s s' \<Longrightarrow> inv s'"
begin

lemma steps_inv: "step\<^sup>*\<^sup>* s s' \<Longrightarrow> inv s \<Longrightarrow> inv s'"
  by (induction rule: rtranclp_induct) (auto intro: step_inv)

end

section \<open>Buffers and strings\<close>

abbreviation NUL :: char where "NUL \<equiv> CHR 0x00"

definition cstr :: "char list \<Rightarrow> string" where
  "cstr b = takeWhile (\<lambda>c. c \<noteq> NUL) b"

text \<open>A string that can be an argument or an environment value: no null byte inside.\<close>

definition c_string :: "string \<Rightarrow> bool" where
  "c_string s \<longleftrightarrow> NUL \<notin> set s"

text \<open>Overwrite \<open>length xs\<close> bytes at an offset; \<open>None\<close> is an access outside the buffer.\<close>

definition poke :: "nat \<Rightarrow> char list \<Rightarrow> char list \<Rightarrow> char list option" where
  "poke off xs buf =
     (if off + length xs \<le> length buf
      then Some (take off buf @ xs @ drop (off + length xs) buf) else None)"

definition peek :: "nat \<Rightarrow> nat \<Rightarrow> char list \<Rightarrow> char list option" where
  "peek off n buf = (if off + n \<le> length buf then Some (take n (drop off buf)) else None)"

definition memset0 :: "nat \<Rightarrow> char list \<Rightarrow> char list option" where
  "memset0 n buf = poke 0 (replicate n NUL) buf"

text \<open>The bytes \<open>snprintf\<close> stores for a formatted text, given the size argument.\<close>

definition snprintf_bytes :: "nat \<Rightarrow> string \<Rightarrow> char list" where
  "snprintf_bytes n s = (if n = 0 then [] else take (n - 1) s @ [NUL])"

text \<open>The bytes \<open>strncpy\<close> stores: the string, null-padded (or cut) to the size argument.\<close>

definition strncpy_bytes :: "nat \<Rightarrow> char list \<Rightarrow> char list" where
  "strncpy_bytes n src = take n (cstr src @ replicate n NUL)"

text \<open>\<open>strncmp (a, b, n) = 0\<close>, on buffers that hold null-terminated strings.\<close>

fun strncmp_eq :: "nat \<Rightarrow> char list \<Rightarrow> char list \<Rightarrow> bool" where
  "strncmp_eq 0 a b = True"
| "strncmp_eq (Suc n) a b =
     (let x = (case a of [] \<Rightarrow> NUL | c # _ \<Rightarrow> c); y = (case b of [] \<Rightarrow> NUL | c # _ \<Rightarrow> c)
      in if x \<noteq> y then False else if x = NUL then True else strncmp_eq n (tl a) (tl b))"

definition strcmp_eq :: "char list \<Rightarrow> char list \<Rightarrow> bool" where
  "strcmp_eq a b \<longleftrightarrow> cstr a = cstr b"

lemma cstr_Nil [simp]: "cstr [] = []"
  by (simp add: cstr_def)

lemma cstr_Cons: "cstr (c # cs) = (if c = NUL then [] else c # cstr cs)"
  by (simp add: cstr_def)

lemma cstr_append_NUL [simp]: "c_string s \<Longrightarrow> cstr (s @ NUL # r) = s"
  by (induction s) (auto simp: cstr_Cons c_string_def)

lemma cstr_ident [simp]: "c_string s \<Longrightarrow> cstr s = s"
  by (induction s) (auto simp: cstr_Cons c_string_def)

lemma c_string_cstr [simp]: "c_string (cstr b)"
  by (auto simp: c_string_def cstr_def dest: set_takeWhileD)

lemma length_cstr_le: "length (cstr b) \<le> length b"
  by (simp add: cstr_def length_takeWhile_le)

lemma c_string_take [simp]: "c_string s \<Longrightarrow> c_string (take n s)"
  by (auto simp: c_string_def dest: in_set_takeD)

lemma cstr_append_replicate [simp]: "c_string s \<Longrightarrow> cstr (s @ replicate n NUL) = s"
  by (cases n) auto

lemma cstr_replicate [simp]: "cstr (replicate n NUL) = []"
  by (cases n) (simp_all add: cstr_Cons)

lemma cstr_snprintf [simp]: "c_string s \<Longrightarrow> 0 < n \<Longrightarrow> cstr (snprintf_bytes n s @ r) = take (n - 1) s"
  by (simp add: snprintf_bytes_def)

lemma length_snprintf: "length (snprintf_bytes n s) = (if n = 0 then 0 else min (n - 1) (length s) + 1)"
  by (simp add: snprintf_bytes_def min.commute)

lemma length_strncpy [simp]: "length (strncpy_bytes n s) = n"
  by (simp add: strncpy_bytes_def)

lemma cstr_strncpy: "cstr (strncpy_bytes n s) = take n (cstr s)"
  by (simp add: strncpy_bytes_def)

lemma length_poke: "poke off xs buf = Some b \<Longrightarrow> length b = length buf"
  by (auto simp: poke_def split: if_splits)

lemma length_memset0: "memset0 n buf = Some b \<Longrightarrow> length b = length buf"
  by (auto simp: memset0_def dest: length_poke)

lemma poke_Some: "off + length xs \<le> length buf \<Longrightarrow>
    poke off xs buf = Some (take off buf @ xs @ drop (off + length xs) buf)"
  by (simp add: poke_def)

lemma memset0_Some: "n \<le> length buf \<Longrightarrow> memset0 n buf = Some (replicate n NUL @ drop n buf)"
  by (simp add: memset0_def poke_def)

text \<open>Pokes into an image built from segments: what the field writers of a structure use.\<close>

lemma poke_at: "length a = off \<Longrightarrow> length xs \<le> length b \<Longrightarrow>
    poke off xs (a @ b) = Some (a @ xs @ drop (length xs) b)"
  by (simp add: poke_def)

lemma peek_at: "length a = off \<Longrightarrow> length b = n \<Longrightarrow> peek off n (a @ b @ c) = Some b"
  by (simp add: peek_def)

lemma strncmp_eq_iff: "strncmp_eq n a b \<longleftrightarrow> take n (cstr a) = take n (cstr b)"
proof (induction n a b rule: strncmp_eq.induct)
  case (1 a b)
  show ?case by simp
next
  case (2 n a b)
  show ?case
    using "2.IH" by (cases a; cases b) (auto simp: cstr_Cons Let_def)
qed

lemma strncmp_eq_cstr: "length (cstr a) \<le> n \<Longrightarrow> length (cstr b) \<le> n \<Longrightarrow>
    strncmp_eq n a b \<longleftrightarrow> cstr a = cstr b"
  by (simp add: strncmp_eq_iff)

text \<open>Reading a character of a C string: behind the terminating null byte there is nothing.\<close>

definition char_at :: "string \<Rightarrow> nat \<Rightarrow> char option" where
  "char_at s i = (if i < length s then Some (s ! i) else if i = length s then Some NUL else None)"

section \<open>Decimal conversion\<close>

definition digit_char :: "nat \<Rightarrow> char" where
  "digit_char d = char_of (48 + d)"

definition is_digit :: "char \<Rightarrow> bool" where
  "is_digit c \<longleftrightarrow> 48 \<le> (of_char c :: nat) \<and> (of_char c :: nat) \<le> 57"

definition digit_val :: "char \<Rightarrow> nat" where
  "digit_val c = of_char c - 48"

definition isspace :: "char \<Rightarrow> bool" where
  "isspace c \<longleftrightarrow> (let n = (of_char c :: nat) in n = 32 \<or> (9 \<le> n \<and> n \<le> 13))"

fun show_nat :: "nat \<Rightarrow> string" where
  "show_nat n = (if n < 10 then [digit_char n] else show_nat (n div 10) @ [digit_char (n mod 10)])"

declare show_nat.simps [simp del]

definition show_int :: "int \<Rightarrow> string" where
  "show_int i = (if i < 0 then CHR ''-'' # show_nat (nat (- i)) else show_nat (nat i))"

definition dec_val :: "string \<Rightarrow> nat" where
  "dec_val s = foldl (\<lambda>a c. 10 * a + digit_val c) 0 s"

definition INT_MAX :: int where "INT_MAX = 2147483647"
definition LONG_MAX :: int where "LONG_MAX = 9223372036854775807"
definition ULONG_MAX :: nat where "ULONG_MAX = 18446744073709551615"

text \<open>
  Skip white space, read an optional sign and the longest run of digits:
  (negative, digits, unread rest).
\<close>

definition scan_dec :: "string \<Rightarrow> bool \<times> string \<times> string" where
  "scan_dec s =
     (let t = dropWhile isspace s;
          neg = (case t of c # _ \<Rightarrow> c = CHR ''-'' | [] \<Rightarrow> False);
          u = (case t of c # r \<Rightarrow> if c = CHR ''-'' \<or> c = CHR ''+'' then r else t | [] \<Rightarrow> t)
      in (neg, takeWhile is_digit u, dropWhile is_digit u))"

text \<open>\<open>strtol (s, NULL, 10)\<close>: saturates at the bounds of \<open>long\<close>.\<close>

definition strtol10 :: "char list \<Rightarrow> int" where
  "strtol10 b =
     (case scan_dec (cstr b) of (neg, ds, _) \<Rightarrow>
        if neg then max (- LONG_MAX - 1) (- int (dec_val ds))
        else min LONG_MAX (int (dec_val ds)))"

text \<open>\<open>strtoul (s, NULL, 10)\<close>: a minus sign negates modulo the width; saturates.\<close>

definition strtoul10 :: "char list \<Rightarrow> nat" where
  "strtoul10 b =
     (case scan_dec (cstr b) of (neg, ds, _) \<Rightarrow>
        if dec_val ds > ULONG_MAX then ULONG_MAX
        else if neg then (ULONG_MAX + 1 - dec_val ds) mod (ULONG_MAX + 1)
        else dec_val ds)"

text \<open>\<open>atoi\<close> is \<open>strtol\<close> converted to \<open>int\<close>; \<open>atol\<close> is \<open>strtol\<close>.\<close>

definition atoi :: "char list \<Rightarrow> int" where
  "atoi b = sint (word_of_int (strtol10 b) :: 32 word)"

lemma of_char_digit_char: "d < 10 \<Longrightarrow> (of_char (digit_char d) :: nat) = 48 + d"
  by (simp add: digit_char_def)

lemma digit_char_props [simp]:
  assumes "d < 10"
  shows "is_digit (digit_char d)" and "digit_val (digit_char d) = d"
  using assms by (simp_all add: is_digit_def digit_val_def of_char_digit_char)

lemma is_digit_not_space: "is_digit c \<Longrightarrow> \<not> isspace c"
  by (auto simp: is_digit_def isspace_def Let_def)

lemma is_digit_neq [simp]:
  "is_digit c \<Longrightarrow> c \<noteq> NUL" "is_digit c \<Longrightarrow> c \<noteq> CHR ''-''" "is_digit c \<Longrightarrow> c \<noteq> CHR ''+''"
  by (auto simp: is_digit_def)

lemma show_nat_digits: "c \<in> set (show_nat n) \<Longrightarrow> is_digit c"
proof (induction n rule: show_nat.induct)
  case (1 n)
  then show ?case
    by (subst (asm) (2) show_nat.simps) (auto split: if_splits)
qed

lemma show_nat_neq_Nil [simp]: "show_nat n \<noteq> []"
  by (subst show_nat.simps) simp

lemma dec_val_snoc: "dec_val (s @ [c]) = 10 * dec_val s + digit_val c"
  by (simp add: dec_val_def)

lemma dec_val_show_nat [simp]: "dec_val (show_nat n) = n"
proof (induction n rule: show_nat.induct)
  case (1 n)
  show ?case
  proof (cases "n < 10")
    case True
    then show ?thesis by (subst show_nat.simps) (simp add: dec_val_def)
  next
    case False
    with 1 show ?thesis by (subst show_nat.simps) (simp add: dec_val_snoc)
  qed
qed

text \<open>A number below \<open>10 ^ k\<close> prints on at most \<open>k\<close> digits.\<close>

lemma length_show_nat: "n < 10 ^ k \<Longrightarrow> 0 < k \<Longrightarrow> length (show_nat n) \<le> k"
proof (induction n arbitrary: k rule: show_nat.induct)
  case (1 n)
  show ?case
  proof (cases "n < 10")
    case True
    with 1 show ?thesis by (subst show_nat.simps) simp
  next
    case False
    then obtain j where k: "k = Suc j" using "1.prems" by (cases k) auto
    with False "1.prems" have j: "0 < j" and "n div 10 < 10 ^ j"
      by (cases j; simp add: div_less_iff_less_mult mult.commute)+
    with False "1.IH" have "length (show_nat (n div 10)) \<le> j" by simp
    with False k show ?thesis by (subst show_nat.simps) simp
  qed
qed

lemma c_string_show_nat [simp]: "c_string (show_nat n)"
  by (auto simp: c_string_def dest!: show_nat_digits is_digit_neq(1))

lemma c_string_show_int [simp]: "c_string (show_int i)"
  using c_string_show_nat by (auto simp: show_int_def c_string_def)

lemma scan_digits:
  assumes "\<forall>c\<in>set ds. is_digit c" and "ds \<noteq> []"
  shows "scan_dec ds = (False, ds, [])"
proof -
  obtain d r where ds: "ds = d # r" and d: "is_digit d" using assms by (cases ds) auto
  then have "\<not> isspace d" by (simp add: is_digit_not_space)
  with ds d assms(1) show ?thesis
    by (auto simp: scan_dec_def takeWhile_eq_all_conv)
qed

lemma scan_neg_digits:
  assumes "\<forall>c\<in>set ds. is_digit c"
  shows "scan_dec (CHR ''-'' # ds) = (True, ds, [])"
  using assms by (simp add: scan_dec_def isspace_def takeWhile_eq_all_conv)

lemma strtol10_show_int:
  assumes "- LONG_MAX - 1 \<le> i" and "i \<le> LONG_MAX"
  shows "strtol10 (show_int i) = i"
proof -
  have "\<forall>c\<in>set (show_nat n). is_digit c" for n by (simp add: show_nat_digits)
  then show ?thesis
    using assms by (simp add: strtol10_def show_int_def scan_digits scan_neg_digits
        flip: show_int_def) (simp add: show_int_def scan_digits scan_neg_digits)
qed

lemma atoi_cong_cstr: "cstr a = cstr b \<Longrightarrow> atoi a = atoi b"
  by (simp add: atoi_def strtol10_def)

lemma sint32_id: "- 2147483648 \<le> i \<Longrightarrow> i \<le> INT_MAX \<Longrightarrow> sint (word_of_int i :: 32 word) = i"
  by (simp add: INT_MAX_def signed_take_bit_int_eq_self sint_sbintrunc')

text \<open>Reading back a printed \<open>int\<close>.\<close>

lemma atoi_show_int:
  assumes "- 2147483648 \<le> i" and "i \<le> INT_MAX"
  shows "atoi (show_int i) = i"
proof -
  have "strtol10 (show_int i) = i"
    using assms by (intro strtol10_show_int) (simp_all add: INT_MAX_def LONG_MAX_def)
  with assms show ?thesis by (simp add: atoi_def sint32_id)
qed

lemma atoi_bounds: "- 2147483648 \<le> atoi s \<and> atoi s \<le> INT_MAX"
  using sint_greater_eq[of "word_of_int (strtol10 s) :: 32 word"]
    sint_less[of "word_of_int (strtol10 s) :: 32 word"]
  by (simp add: atoi_def INT_MAX_def)

lemma strtoul10_show_nat [simp]: "n \<le> ULONG_MAX \<Longrightarrow> strtoul10 (show_nat n) = n"
  by (simp add: strtoul10_def scan_digits show_nat_digits)

lemma strtoul10_bound: "strtoul10 s \<le> ULONG_MAX"
  by (auto simp: strtoul10_def ULONG_MAX_def split: prod.splits)

section \<open>Machine integers\<close>

lemma unat_scast_nonneg: "0 \<le> sint (r::32 word) \<Longrightarrow> unat (scast r :: 64 word) = nat (sint r)"
proof -
  assume a: "0 \<le> sint r"
  have "sint r < 2 ^ 31" using sint_less[of r] by simp
  then have "uint (scast r :: 64 word) = sint r"
    using a by (simp only: scast_eq uint_word_of_int) simp
  then show ?thesis by (simp only: unat_eq_nat_uint)
qed

lemma sint_ucast_small: "unat (p::64 word) < 2^31 \<Longrightarrow> sint (ucast p :: 32 word) = int (unat p)"
proof -
  assume a: "unat (p::64 word) < 2^31"
  have "int (unat p) < int (2 ^ 31)" using a by (rule iffD2[OF of_nat_less_iff])
  then have "uint p < 2 ^ 31" by simp
  moreover have "- (2 ^ 31) \<le> uint p" by (rule order_trans[OF _ uint_nonnegative]) simp
  ultimately show ?thesis using signed_take_bit_int_eq_self[of 31 "uint p"] by (simp add: signed_ucast_eq)
qed

section \<open>Command line options\<close>

text \<open>
  An option string such as \<open>hi:c:\<close>: the option characters, each with a colon when it takes an
  argument.
\<close>

fun takes_arg :: "string \<Rightarrow> char \<Rightarrow> bool option" where
  "takes_arg [] c = None"
| "takes_arg (x # xs) c =
     (if x = c \<and> c \<noteq> CHR '':'' then Some (case xs of y # _ \<Rightarrow> y = CHR '':'' | [] \<Rightarrow> False)
      else takes_arg xs c)"

text \<open>
  The options of one argument vector element (after its dash), with the elements that follow it:
  the values \<open>getopt\<close> returns with \<open>optarg\<close>, and the elements left.
\<close>

fun getopt_cluster ::
  "string \<Rightarrow> string \<Rightarrow> string list \<Rightarrow> (char \<times> string) list \<times> string list" where
  "getopt_cluster os [] rest = ([], rest)"
| "getopt_cluster os (c # cs) rest =
     (case takes_arg os c of
        None \<Rightarrow> (case getopt_cluster os cs rest of (es, r) \<Rightarrow> ((CHR ''?'', []) # es, r))
      | Some False \<Rightarrow> (case getopt_cluster os cs rest of (es, r) \<Rightarrow> ((c, []) # es, r))
      | Some True \<Rightarrow>
          (if cs \<noteq> [] then ([(c, cs)], rest)
           else (case rest of [] \<Rightarrow> ([(CHR ''?'', [])], []) | a # r \<Rightarrow> ([(c, a)], r))))"

lemma getopt_cluster_le: "length (snd (getopt_cluster os cs rest)) \<le> length rest"
  by (induction os cs rest rule: getopt_cluster.induct)
    (auto split: option.splits bool.splits list.splits prod.splits)

text \<open>
  The whole scan: the values returned in order until \<open>-1\<close>, and the operands (the elements from
  \<open>optind\<close> on after the scan).
\<close>

function getopt_all :: "string \<Rightarrow> string list \<Rightarrow> (char \<times> string) list \<times> string list" where
  "getopt_all os [] = ([], [])"
| "getopt_all os (a # rest) =
     (if a = ''--'' then ([], rest)
      else if length a > 1 \<and> hd a = CHR ''-'' then
        (let p = getopt_cluster os (tl a) rest; q = getopt_all os (snd p)
         in (fst p @ fst q, snd q))
      else (let q = getopt_all os rest in (fst q, a # snd q)))"
  by pat_completeness auto
termination
  by (relation "measure (length \<circ> snd)") (auto simp: getopt_cluster_le le_imp_less_Suc)

text \<open>An argument that is no option.\<close>

definition operand :: "string \<Rightarrow> bool" where
  "operand a \<longleftrightarrow> a \<noteq> [] \<and> hd a \<noteq> CHR ''-''"

lemma getopt_operands:
  "length a > 0 \<Longrightarrow> hd a \<noteq> CHR ''-'' \<Longrightarrow> getopt_all os (a # rest) = (fst (getopt_all os rest), a # snd (getopt_all os rest))"
  by (cases a) (auto simp: Let_def)

text \<open>
  \<open>getopt_long\<close>: the long options are given by name, whether they take an argument, and value.  A
  name may be abbreviated to an unambiguous prefix; the argument follows after \<open>=\<close> or in the next
  element.  An event is the value returned, the name of the long option, and \<open>optarg\<close>.
\<close>

type_synonym long_option = "string \<times> bool \<times> char"

definition long_match :: "long_option list \<Rightarrow> string \<Rightarrow> long_option option" where
  "long_match longs name =
     (case filter (\<lambda>l. fst l = name) longs of
        l # _ \<Rightarrow> Some l
      | [] \<Rightarrow> (case filter (\<lambda>l. take (length name) (fst l) = name) longs of [l] \<Rightarrow> Some l | _ \<Rightarrow> None))"

definition getopt_long_one ::
  "long_option list \<Rightarrow> string \<Rightarrow> string list \<Rightarrow> (char \<times> string \<times> string) \<times> string list" where
  "getopt_long_one longs body rest =
     (let name = takeWhile (\<lambda>c. c \<noteq> CHR ''='') body;
          eq = (CHR ''='' \<in> set body); arg = drop (length name + 1) body
      in case long_match longs name of
           None \<Rightarrow> ((CHR ''?'', [], []), rest)
         | Some (n, has_arg, v) \<Rightarrow>
             if has_arg then
               (if eq then ((v, n, arg), rest)
                else (case rest of [] \<Rightarrow> ((CHR ''?'', [], []), []) | x # r \<Rightarrow> ((v, n, x), r)))
             else if eq then ((CHR ''?'', [], []), rest) else ((v, n, []), rest))"

lemma getopt_long_one_le: "length (snd (getopt_long_one longs body rest)) \<le> length rest"
  by (auto simp: getopt_long_one_def Let_def split: option.splits list.splits)

function getopt_long_all ::
  "string \<Rightarrow> long_option list \<Rightarrow> string list \<Rightarrow> (char \<times> string \<times> string) list \<times> string list" where
  "getopt_long_all os longs [] = ([], [])"
| "getopt_long_all os longs (a # rest) =
     (if a = ''--'' then ([], rest)
      else if take 2 a = ''--'' then
        (let p = getopt_long_one longs (drop 2 a) rest; q = getopt_long_all os longs (snd p)
         in (fst p # fst q, snd q))
      else if length a > 1 \<and> hd a = CHR ''-'' then
        (let p = getopt_cluster os (tl a) rest; q = getopt_long_all os longs (snd p)
         in (map (\<lambda>(c, x). (c, [], x)) (fst p) @ fst q, snd q))
      else (let q = getopt_long_all os longs rest in (fst q, a # snd q)))"
  by pat_completeness auto
termination
  by (relation "measure (\<lambda>(_, _, args). length args)")
    (auto simp: getopt_cluster_le getopt_long_one_le le_imp_less_Suc)

section \<open>Reading text\<close>

text \<open>The successive results of \<open>fgets (buf, n, f)\<close>.\<close>

definition fgets_len :: "nat \<Rightarrow> string \<Rightarrow> nat" where
  "fgets_len n s = min (n - 1) (length (takeWhile (\<lambda>c. c \<noteq> CHR 0x0A) s) + 1)"

function fgets_all :: "nat \<Rightarrow> string \<Rightarrow> string list" where
  "fgets_all n s =
     (if s = [] \<or> n \<le> 1 then [] else take (fgets_len n s) s # fgets_all n (drop (fgets_len n s) s))"
  by pat_completeness auto
termination
  by (relation "measure (\<lambda>(n, s). length s)") (auto simp: fgets_len_def)

declare fgets_all.simps [simp del]

text \<open>\<open>scanf ("%lx")\<close>: the value and the rest of the input.\<close>

definition hex_val :: "char \<Rightarrow> nat option" where
  "hex_val c =
     (let n = (of_char c :: nat) in
      if 48 \<le> n \<and> n \<le> 57 then Some (n - 48)
      else if 97 \<le> n \<and> n \<le> 102 then Some (n - 87)
      else if 65 \<le> n \<and> n \<le> 70 then Some (n - 55)
      else None)"

definition hex_num :: "string \<Rightarrow> nat" where
  "hex_num s = foldl (\<lambda>a c. 16 * a + the (hex_val c)) 0 s"

definition scan_lx :: "string \<Rightarrow> (64 word \<times> string) option" where
  "scan_lx s =
     (let t = dropWhile isspace s;
          neg = (case t of c # _ \<Rightarrow> c = CHR ''-'' | [] \<Rightarrow> False);
          u = (case t of c # r \<Rightarrow> if c = CHR ''-'' \<or> c = CHR ''+'' then r else t | [] \<Rightarrow> t);
          v = (if take 2 u = ''0x'' \<or> take 2 u = ''0X'' then drop 2 u else u);
          ds = takeWhile (\<lambda>c. hex_val c \<noteq> None) v;
          n = min (hex_num ds) 18446744073709551615
      in if ds = [] then (if v = u then None else Some (0, v))
         else Some (if neg then - of_nat n else of_nat n, dropWhile (\<lambda>c. hex_val c \<noteq> None) v))"

lemma fgets_line:
  assumes "CHR 0x0A \<notin> set l" and "length l + 1 < n"
  shows "fgets_all n (l @ CHR 0x0A # r) = (l @ [CHR 0x0A]) # fgets_all n r"
proof -
  have "takeWhile (\<lambda>c. c \<noteq> CHR 0x0A) (l @ CHR 0x0A # r) = l"
    using assms(1) by (simp add: takeWhile_append)
  then have "fgets_len n (l @ CHR 0x0A # r) = length l + 1" using assms(2) by (simp add: fgets_len_def)
  then show ?thesis using assms(2) by (subst fgets_all.simps) simp
qed

definition text_of :: "string list \<Rightarrow> string" where
  "text_of ls = concat (map (\<lambda>l. l @ [CHR 0x0A]) ls)"

lemma fgets_text:
  "\<forall>l\<in>set ls. CHR 0x0A \<notin> set l \<and> length l + 1 < n \<Longrightarrow> fgets_all n (text_of ls) = map (\<lambda>l. l @ [CHR 0x0A]) ls"
proof (induction ls)
  case Nil
  show ?case by (simp add: text_of_def fgets_all.simps)
next
  case (Cons l ls)
  then show ?case using fgets_line[of l n "text_of ls"] by (simp add: text_of_def)
qed

text \<open>A hexadecimal field between white space.\<close>

lemma hex_not_space: "hex_val c \<noteq> None \<Longrightarrow> \<not> isspace c \<and> c \<noteq> CHR ''-'' \<and> c \<noteq> CHR ''+'' \<and> c \<noteq> CHR ''x'' \<and> c \<noteq> CHR ''X''"
  by (auto simp: hex_val_def isspace_def Let_def split: if_splits)

lemma space_not_hex: "isspace c \<Longrightarrow> hex_val c = None \<and> c \<noteq> CHR ''x'' \<and> c \<noteq> CHR ''X''"
  by (auto simp: hex_val_def isspace_def Let_def split: if_splits)

lemma scan_lx_field:
  assumes "\<forall>c\<in>set sp. isspace c" and "ds \<noteq> []" and "\<forall>c\<in>set ds. hex_val c \<noteq> None" and "r = [] \<or> isspace (hd r)"
  shows "scan_lx (sp @ ds @ r) = Some (of_nat (min (hex_num ds) 18446744073709551615), r)"
proof -
  obtain d ds' where d: "ds = d # ds'" using assms(2) by (cases ds) auto
  have n: "\<not> isspace d" "d \<noteq> CHR ''-''" "d \<noteq> CHR ''+''" using hex_not_space[of d] assms(3) d by auto
  have t: "dropWhile isspace (sp @ ds @ r) = ds @ r" using assms(1) n d by (simp add: dropWhile_append)
  have "\<forall>c \<in> set (take 1 (ds' @ r)). c \<noteq> CHR ''x'' \<and> c \<noteq> CHR ''X''"
    using assms(3,4) d hex_not_space space_not_hex by (cases ds'; cases r) auto
  then have x: "take 2 (ds @ r) \<noteq> ''0x''" "take 2 (ds @ r) \<noteq> ''0X''"
    using d by (cases "ds' @ r"; simp add: take_Suc numeral_2_eq_2)+
  have w: "takeWhile (\<lambda>c. hex_val c \<noteq> None) (ds @ r) = ds" "dropWhile (\<lambda>c. hex_val c \<noteq> None) (ds @ r) = r"
    using assms(3,4) space_not_hex by (cases r; simp add: takeWhile_append dropWhile_append)+
  have u: "(case ds @ r of c # q \<Rightarrow> if c = CHR ''-'' \<or> c = CHR ''+'' then q else ds @ r | [] \<Rightarrow> ds @ r) = ds @ r"
    "(case ds @ r of c # q \<Rightarrow> c = CHR ''-'' | [] \<Rightarrow> False) = False"
    using n d by simp_all
  show ?thesis
    unfolding scan_lx_def Let_def t u by (simp only: x w if_False simp_thms assms(2))
qed

end
