(* ===== verification/Sfex_Device.thy ===== *)
theory Sfex_Device
  imports C_Lib
begin

text \<open>
  The shared device as \<^verbatim>\<open>src/tools/sfex_lib.c\<close> sees it: the disk contents, the file
  position of \<open>dev_fd\<close>, the aligned buffer \<open>locked_mem\<close> and \<open>sector_size\<close>.

  A program does not own the disk.  The field \<open>script\<close> lists, for the system calls still to
  come, what the environment does: the writes other nodes place on the disk before the call, and
  how the call ends.  \<open>Done\<close> is a complete transfer, \<open>Short m\<close> a transfer of at most
  \<open>m\<close> bytes, \<open>Interrupted\<close> a result of \<open>-1\<close> with \<open>EINTR\<close> or \<open>EAGAIN\<close>,
  \<open>Failed\<close> a result of \<open>-1\<close> with any other error.  After the last entry the calls
  complete and nobody else writes.  Statements quantify over the script, so they cover every finite
  pattern of failures and every interleaving of other nodes' writes.
\<close>

datatype outcome = Done | Short nat | Interrupted | Failed

type_synonym foreign_write = "nat \<times> char list"
type_synonym env_event = "foreign_write list \<times> outcome"

record sfex_io =
  disk :: "char list"
  fpos :: nat
  locked_mem :: "char list"
  sector_size :: "64 word"
  script :: "env_event list"

definition poke_or_keep :: "nat \<Rightarrow> char list \<Rightarrow> char list \<Rightarrow> char list" where
  "poke_or_keep off xs d = (case poke off xs d of Some d' \<Rightarrow> d' | None \<Rightarrow> d)"

definition foreign_writes :: "foreign_write list \<Rightarrow> char list \<Rightarrow> char list" where
  "foreign_writes ws d = fold (\<lambda>(off, xs) d. poke_or_keep off xs d) ws d"

definition next_call :: "sfex_io \<Rightarrow> outcome \<times> sfex_io" where
  "next_call io =
     (case script io of
        [] \<Rightarrow> (Done, io)
      | (ws, out) # r \<Rightarrow> (out, io\<lparr>disk := foreign_writes ws (disk io), script := r\<rparr>))"

section \<open>System calls on the device\<close>

text \<open>\<open>lseek\<close> with \<open>SEEK_SET\<close>; \<open>False\<close> is a result of \<open>-1\<close>.\<close>

definition sys_lseek :: "int \<Rightarrow> sfex_io \<Rightarrow> bool \<times> sfex_io" where
  "sys_lseek off io =
     (case next_call io of (out, io1) \<Rightarrow>
        if off < 0 \<or> out = Failed \<or> out = Interrupted then (False, io1)
        else (True, io1\<lparr>fpos := nat off\<rparr>))"

text \<open>Results of \<open>read\<close> and \<open>write\<close>; \<open>Overrun\<close> is a transfer past the end of the buffer.\<close>

datatype sysret = Bytes nat | EIntr | EFail | Overrun

text \<open>At most \<open>k\<close> of \<open>n\<close> requested bytes move between the buffer and the disk.\<close>

definition transfer_out :: "nat \<Rightarrow> nat \<Rightarrow> sfex_io \<Rightarrow> sysret \<times> sfex_io" where
  "transfer_out n k io =
     (let room = length (disk io) - fpos io; m = min (min k n) room in
      if n > length (locked_mem io) then (Overrun, io)
      else if 0 < n \<and> room = 0 then (EFail, io)
      else (Bytes m, io\<lparr>disk := take (fpos io) (disk io) @ take m (locked_mem io)
                                 @ drop (fpos io + m) (disk io),
                         fpos := fpos io + m\<rparr>))"

definition transfer_in :: "nat \<Rightarrow> nat \<Rightarrow> sfex_io \<Rightarrow> sysret \<times> sfex_io" where
  "transfer_in n k io =
     (let m = min (min k n) (length (disk io) - fpos io) in
      case poke 0 (take m (drop (fpos io) (disk io))) (locked_mem io) of
        None \<Rightarrow> (Overrun, io)
      | Some mem \<Rightarrow> (Bytes m, io\<lparr>locked_mem := mem, fpos := fpos io + m\<rparr>))"

definition sys_write :: "nat \<Rightarrow> sfex_io \<Rightarrow> sysret \<times> sfex_io" where
  "sys_write n io =
     (case next_call io of (out, io1) \<Rightarrow>
        case out of
          Interrupted \<Rightarrow> (EIntr, io1)
        | Failed \<Rightarrow> (EFail, io1)
        | Done \<Rightarrow> transfer_out n n io1
        | Short m \<Rightarrow> transfer_out n m io1)"

definition sys_read :: "nat \<Rightarrow> sfex_io \<Rightarrow> sysret \<times> sfex_io" where
  "sys_read n io =
     (case next_call io of (out, io1) \<Rightarrow>
        case out of
          Interrupted \<Rightarrow> (EIntr, io1)
        | Failed \<Rightarrow> (EFail, io1)
        | Done \<Rightarrow> transfer_in n n io1
        | Short m \<Rightarrow> transfer_in n m io1)"

lemma transfer_not_EIntr [simp]:
  "transfer_out n k io \<noteq> (EIntr, io')" "transfer_in n k io \<noteq> (EIntr, io')"
  by (auto simp: transfer_out_def transfer_in_def Let_def split: option.splits)

lemma sys_write_EIntr: "sys_write n io = (EIntr, io') \<Longrightarrow> length (script io') < length (script io)"
  by (auto simp: sys_write_def next_call_def split: list.splits outcome.splits)

lemma sys_read_EIntr: "sys_read n io = (EIntr, io') \<Longrightarrow> length (script io') < length (script io)"
  by (auto simp: sys_read_def next_call_def split: list.splits outcome.splits)

text \<open>
  The loops \<^verbatim>\<open>do { s = write (...); if (s == -1 && (errno == EINTR || errno == EAGAIN)) continue; ... }
  while (1)\<close>: an interrupted call is repeated, anything else leaves the loop.
\<close>

function write_retry :: "nat \<Rightarrow> sfex_io \<Rightarrow> sysret \<times> sfex_io" where
  "write_retry n io =
     (case sys_write n io of (r, io') \<Rightarrow> if r = EIntr then write_retry n io' else (r, io'))"
  by pat_completeness auto
termination
  by (relation "measure (length \<circ> script \<circ> snd)") (auto dest: sys_write_EIntr[OF sym])

function read_retry :: "nat \<Rightarrow> sfex_io \<Rightarrow> sysret \<times> sfex_io" where
  "read_retry n io =
     (case sys_read n io of (r, io') \<Rightarrow> if r = EIntr then read_retry n io' else (r, io'))"
  by pat_completeness auto
termination
  by (relation "measure (length \<circ> script \<circ> snd)") (auto dest: sys_read_EIntr[OF sym])

declare write_retry.simps [simp del] read_retry.simps [simp del]

section \<open>Opening the device\<close>

text \<open>
  The loop around \<open>open\<close> in \<open>prepare_lock\<close>: \<open>True\<close> when the device is open, \<open>False\<close> when
  the program exits with 3.
\<close>

fun open_retry :: "env_event list \<Rightarrow> bool \<times> env_event list" where
  "open_retry [] = (True, [])"
| "open_retry ((ws, out) # r) =
     (if out = Interrupted then open_retry r else if out = Failed then (False, r) else (True, r))"

text \<open>
  \<open>prepare_lock\<close>: the device has contents \<open>d\<close> and \<open>BLKSSZGET\<close> reports \<open>ssz\<close>; the
  script answers \<open>open\<close>, \<open>ioctl\<close> and \<open>posix_memalign\<close> in turn.
\<close>

definition prepare_lock :: "char list \<Rightarrow> 32 word \<Rightarrow> env_event list \<Rightarrow> int result \<times> sfex_io" where
  "prepare_lock d ssz scr =
     (let io0 = \<lparr>disk = d, fpos = 0, locked_mem = [], sector_size = 0, script = scr\<rparr> in
      case open_retry scr of (opened, scr1) \<Rightarrow>
        let io1 = io0\<lparr>script := scr1\<rparr> in
        if \<not> opened then (Exit 3, io1)
        else case next_call io1 of (out, io2) \<Rightarrow>
          let sec_tmp = (if out = Failed \<or> out = Interrupted then 0 else ssz);
              io3 = io2\<lparr>sector_size := scast sec_tmp\<rparr> in
          if sector_size io3 = 0 then (Exit EXIT_FAILURE, io3)
          else case next_call io3 of (out, io4) \<Rightarrow>
            if out = Failed \<or> out = Interrupted then (Exit 3, io4)
            else (Ret 0, io4\<lparr>locked_mem := replicate (unat (sector_size io4)) NUL\<rparr>))"

section \<open>Laws of the calls\<close>

lemma length_poke_or_keep [simp]: "length (poke_or_keep off xs d) = length d"
  by (auto simp: poke_or_keep_def dest: length_poke split: option.splits)

lemma length_foreign_writes [simp]: "length (foreign_writes ws d) = length d"
  unfolding foreign_writes_def by (induction ws arbitrary: d) auto

lemma next_call_frame:
  assumes "next_call io = (out, io')"
  shows "locked_mem io' = locked_mem io" "sector_size io' = sector_size io" "fpos io' = fpos io"
    "length (disk io') = length (disk io)"
  using assms by (auto simp: next_call_def split: list.splits)

text \<open>What every device operation keeps: the device size, the buffer size, the sector size.\<close>

definition same_geometry :: "sfex_io \<Rightarrow> sfex_io \<Rightarrow> bool" where
  "same_geometry io io' \<longleftrightarrow>
     length (disk io') = length (disk io) \<and> length (locked_mem io') = length (locked_mem io) \<and>
     sector_size io' = sector_size io"

lemma same_geometry_refl [simp, intro]: "same_geometry io io"
  by (simp add: same_geometry_def)

lemma same_geometry_trans [trans]:
  "same_geometry a b \<Longrightarrow> same_geometry b c \<Longrightarrow> same_geometry a c"
  by (simp add: same_geometry_def)

text \<open>
  Between two states only the environment acted on the disk: some calls of the script were made, and
  the disk changed by the writes of others that precede them.
\<close>

definition env_step :: "sfex_io \<Rightarrow> sfex_io \<Rightarrow> bool" where
  "env_step io io' \<longleftrightarrow>
     (\<exists>k. script io' = drop k (script io) \<and>
          disk io' = foreign_writes (concat (map fst (take k (script io)))) (disk io))"

lemma foreign_writes_append: "foreign_writes (ws @ ws') d = foreign_writes ws' (foreign_writes ws d)"
  by (simp add: foreign_writes_def)

lemma foreign_writes_Nil [simp]: "foreign_writes [] d = d"
  by (simp add: foreign_writes_def)

lemma env_step_same: "script io' = script io \<Longrightarrow> disk io' = disk io \<Longrightarrow> env_step io io'"
  unfolding env_step_def by (rule exI[of _ 0]) simp

lemma env_step_refl [simp, intro]: "env_step io io"
  by (simp add: env_step_same)

lemma env_step_frame [simp]:
  "env_step io (io'\<lparr>fpos := p\<rparr>) = env_step io io'"
  "env_step io (io'\<lparr>locked_mem := m\<rparr>) = env_step io io'"
  "env_step (io\<lparr>locked_mem := m\<rparr>) io' = env_step io io'"
  by (simp_all add: env_step_def)

lemma env_step_trans [trans]:
  assumes "env_step a b" and "env_step b c"
  shows "env_step a c"
proof -
  obtain j k where b: "script b = drop j (script a)"
      "disk b = foreign_writes (concat (map fst (take j (script a)))) (disk a)"
    and c: "script c = drop k (script b)"
      "disk c = foreign_writes (concat (map fst (take k (script b)))) (disk b)"
    using assms by (auto simp: env_step_def)
  have "take (j + k) (script a) = take j (script a) @ take k (script b)"
    by (simp add: b take_add)
  then show ?thesis
    unfolding env_step_def
    by (intro exI[of _ "j + k"]) (simp add: b c foreign_writes_append add.commute)
qed

lemma env_step_length: "env_step io io' \<Longrightarrow> length (disk io') = length (disk io)"
  by (auto simp: env_step_def)

lemma env_step_quiet: "env_step io io' \<Longrightarrow> script io = [] \<Longrightarrow> disk io' = disk io \<and> script io' = []"
  by (auto simp: env_step_def)

lemma next_call_env: "next_call io = (out, io') \<Longrightarrow> env_step io io'"
  by (auto simp: next_call_def env_step_def intro!: exI[of _ 1] split: list.splits)

lemma lseek_env: "sys_lseek off io = (r, io') \<Longrightarrow> env_step io io'"
  by (auto simp: sys_lseek_def split: prod.splits if_splits dest: next_call_env)

lemma transfer_in_env: "transfer_in n k io = (r, io') \<Longrightarrow> env_step io io'"
  by (auto simp: transfer_in_def Let_def split: option.splits intro: env_step_same)

lemma sys_read_env: "sys_read n io = (r, io') \<Longrightarrow> env_step io io'"
  by (auto simp: sys_read_def split: prod.splits outcome.splits
      dest: next_call_env transfer_in_env intro: env_step_trans)

lemma next_call_geometry: "next_call io = (out, io') \<Longrightarrow> same_geometry io io'"
  by (simp add: same_geometry_def next_call_frame)

lemma lseek_geometry: "sys_lseek off io = (r, io') \<Longrightarrow> same_geometry io io'"
  by (auto simp: sys_lseek_def same_geometry_def dest: next_call_frame split: prod.splits if_splits)

lemma transfer_geometry:
  "transfer_out n k io = (r, io') \<Longrightarrow> same_geometry io io'"
  "transfer_in n k io = (r, io') \<Longrightarrow> same_geometry io io'"
  by (auto simp: transfer_out_def transfer_in_def same_geometry_def Let_def
      dest: length_poke split: if_splits option.splits)

lemma sys_write_geometry: "sys_write n io = (r, io') \<Longrightarrow> same_geometry io io'"
  by (auto simp: sys_write_def split: prod.splits outcome.splits
      dest: next_call_geometry transfer_geometry intro: same_geometry_trans)

lemma sys_read_geometry: "sys_read n io = (r, io') \<Longrightarrow> same_geometry io io'"
  by (auto simp: sys_read_def split: prod.splits outcome.splits
      dest: next_call_geometry transfer_geometry intro: same_geometry_trans)

lemma write_retry_geometry: "write_retry n io = (r, io') \<Longrightarrow> same_geometry io io'"
proof (induction n io rule: write_retry.induct)
  case (1 n io)
  then show ?case
    by (subst (asm) (2) write_retry.simps)
      (auto split: prod.splits if_splits intro: same_geometry_trans dest: sys_write_geometry)
qed

lemma read_retry_env: "read_retry n io = (r, io') \<Longrightarrow> env_step io io'"
proof (induction n io rule: read_retry.induct)
  case (1 n io)
  then show ?case
    by (subst (asm) (2) read_retry.simps)
      (auto split: prod.splits if_splits intro: env_step_trans dest: sys_read_env)
qed

lemma read_retry_geometry: "read_retry n io = (r, io') \<Longrightarrow> same_geometry io io'"
proof (induction n io rule: read_retry.induct)
  case (1 n io)
  then show ?case
    by (subst (asm) (2) read_retry.simps)
      (auto split: prod.splits if_splits intro: same_geometry_trans dest: sys_read_geometry)
qed

text \<open>A retry loop ends in one transfer, from a state that differs only in the foreign writes.\<close>

lemma write_retry_transfer:
  assumes "write_retry n io = (r, io')" and "r \<noteq> EFail"
  shows "\<exists>io0 k. transfer_out n k io0 = (r, io') \<and> fpos io0 = fpos io \<and>
           locked_mem io0 = locked_mem io \<and> same_geometry io io0 \<and> env_step io io0"
  using assms
proof (induction n io rule: write_retry.induct)
  case (1 n io)
  obtain r1 io1 where w: "sys_write n io = (r1, io1)" by (cases "sys_write n io")
  show ?case
  proof (cases "r1 = EIntr")
    case True
    with w "1.prems" have "write_retry n io1 = (r, io')" by (simp add: write_retry.simps[of n io])
    moreover have "fpos io1 = fpos io" "locked_mem io1 = locked_mem io" "same_geometry io io1" "env_step io io1"
      using w True by (auto simp: sys_write_def dest: next_call_frame next_call_geometry next_call_env
          split: prod.splits outcome.splits)
    ultimately show ?thesis
      using "1.IH"[OF w[symmetric] True] "1.prems"(2)
      by (fastforce intro: same_geometry_trans env_step_trans)
  next
    case False
    with w "1.prems" have "sys_write n io = (r, io')" "r \<noteq> EIntr"
      by (simp_all add: write_retry.simps[of n io])
    then show ?thesis
      using "1.prems"(2) by (auto simp: sys_write_def dest: next_call_frame next_call_geometry next_call_env
          split: prod.splits outcome.splits)
  qed
qed

lemma read_retry_transfer:
  assumes "read_retry n io = (r, io')" and "r \<noteq> EFail"
  shows "\<exists>io0 k. transfer_in n k io0 = (r, io') \<and> fpos io0 = fpos io \<and>
           locked_mem io0 = locked_mem io \<and> same_geometry io io0 \<and> env_step io io0"
  using assms
proof (induction n io rule: read_retry.induct)
  case (1 n io)
  obtain r1 io1 where w: "sys_read n io = (r1, io1)" by (cases "sys_read n io")
  show ?case
  proof (cases "r1 = EIntr")
    case True
    with w "1.prems" have "read_retry n io1 = (r, io')" by (simp add: read_retry.simps[of n io])
    moreover have "fpos io1 = fpos io" "locked_mem io1 = locked_mem io" "same_geometry io io1" "env_step io io1"
      using w True by (auto simp: sys_read_def dest: next_call_frame next_call_geometry next_call_env
          split: prod.splits outcome.splits)
    ultimately show ?thesis
      using "1.IH"[OF w[symmetric] True] "1.prems"(2)
      by (fastforce intro: same_geometry_trans env_step_trans)
  next
    case False
    with w "1.prems" have "sys_read n io = (r, io')" "r \<noteq> EIntr"
      by (simp_all add: read_retry.simps[of n io])
    then show ?thesis
      using "1.prems"(2) by (auto simp: sys_read_def dest: next_call_frame next_call_geometry next_call_env
          split: prod.splits outcome.splits)
  qed
qed

text \<open>A region of the disk.\<close>

definition region :: "nat \<Rightarrow> nat \<Rightarrow> char list \<Rightarrow> char list" where
  "region off n d = take n (drop off d)"

definition put_region :: "nat \<Rightarrow> char list \<Rightarrow> char list \<Rightarrow> char list" where
  "put_region off xs d = take off d @ xs @ drop (off + length xs) d"

lemma length_put_region [simp]:
  "off + length xs \<le> length d \<Longrightarrow> length (put_region off xs d) = length d"
  by (simp add: put_region_def)

lemma length_region [simp]: "off + n \<le> length d \<Longrightarrow> length (region off n d) = n"
  by (simp add: region_def)

lemma region_put_same: "off + length xs \<le> length d \<Longrightarrow> region off (length xs) (put_region off xs d) = xs"
  by (simp add: region_def put_region_def)

lemma region_put_other:
  assumes "off + length xs \<le> length d" and "off' + n \<le> off \<or> off + length xs \<le> off'"
  shows "region off' n (put_region off xs d) = region off' n d"
proof (rule nth_equalityI)
  show "length (region off' n (put_region off xs d)) = length (region off' n d)"
    using assms by (simp add: region_def)
  fix i
  assume "i < length (region off' n (put_region off xs d))"
  then have "i < n" and "off' + i < length d"
    using assms by (auto simp: region_def)
  with assms show "region off' n (put_region off xs d) ! i = region off' n d ! i"
    by (auto simp: region_def put_region_def nth_append)
qed

text \<open>A complete write puts the buffer at the file position; a complete read fetches it from there.\<close>

lemma write_retry_full:
  assumes "write_retry n io = (Bytes n, io')" and "0 < n"
  shows "n \<le> length (locked_mem io) \<and> fpos io + n \<le> length (disk io) \<and>
         (\<exists>io0. env_step io io0 \<and> script io' = script io0 \<and>
              disk io' = put_region (fpos io) (take n (locked_mem io)) (disk io0))"
proof -
  obtain io0 k where t: "transfer_out n k io0 = (Bytes n, io')" and f: "fpos io0 = fpos io"
    "locked_mem io0 = locked_mem io" "same_geometry io io0" "env_step io io0"
    using write_retry_transfer[OF assms(1)] by auto
  from t have "n = min (min k n) (length (disk io0) - fpos io0)"
    and m: "n \<le> length (locked_mem io0)"
    and d: "disk io' = take (fpos io0) (disk io0) @ take n (locked_mem io0) @ drop (fpos io0 + n) (disk io0)"
      "script io' = script io0"
    by (auto simp: transfer_out_def Let_def split: if_splits)
  then have "fpos io0 + n \<le> length (disk io0)" using assms(2) by linarith
  with m d f show ?thesis
    by (auto simp: put_region_def same_geometry_def intro!: exI[of _ io0])
qed

lemma read_retry_full:
  assumes "read_retry n io = (Bytes n, io')" and "0 < n" and "n \<le> length (locked_mem io)"
  shows "fpos io + n \<le> length (disk io) \<and>
         locked_mem io' = region (fpos io) n (disk io') @ drop n (locked_mem io)"
proof -
  obtain io0 k where t: "transfer_in n k io0 = (Bytes n, io')" and f: "fpos io0 = fpos io"
    "locked_mem io0 = locked_mem io" "same_geometry io io0"
    using read_retry_transfer[OF assms(1)] by auto
  have n: "n = min (min k n) (length (disk io0) - fpos io0)"
    using t by (auto simp: transfer_in_def Let_def split: option.splits)
  then have b: "fpos io0 + n \<le> length (disk io0)" using assms(2) by linarith
  from t n have p: "poke 0 (take n (drop (fpos io0) (disk io0))) (locked_mem io0) = Some (locked_mem io')"
    and d: "disk io' = disk io0"
    by (auto simp: transfer_in_def Let_def split: option.splits)
  from p b have "locked_mem io' = take n (drop (fpos io0) (disk io0)) @ drop n (locked_mem io0)"
    by (auto simp: poke_def split: if_splits)
  with b d f show ?thesis by (auto simp: region_def same_geometry_def)
qed

lemma write_retry_not_Overrun:
  assumes "n \<le> length (locked_mem io)"
  shows "write_retry n io \<noteq> (Overrun, io')"
proof
  assume "write_retry n io = (Overrun, io')"
  from write_retry_transfer[OF this] assms show False
    by (auto simp: transfer_out_def Let_def split: if_splits)
qed

lemma read_retry_not_Overrun:
  assumes "n \<le> length (locked_mem io)"
  shows "read_retry n io \<noteq> (Overrun, io')"
proof
  assume "read_retry n io = (Overrun, io')"
  from read_retry_transfer[OF this] assms show False
    by (auto simp: transfer_in_def poke_def Let_def split: if_splits)
qed

text \<open>With an empty script every call completes.\<close>

lemma quiet_write:
  assumes "script io = []" and "n \<le> length (locked_mem io)" and "fpos io + n \<le> length (disk io)"
    and "0 < n"
  shows "write_retry n io = (Bytes n, io\<lparr>disk := put_region (fpos io) (take n (locked_mem io)) (disk io),
                                          fpos := fpos io + n\<rparr>)"
  using assms by (simp add: write_retry.simps[of n io] sys_write_def next_call_def transfer_out_def
      Let_def put_region_def min_absorb1)

lemma quiet_read:
  assumes "script io = []" and "n \<le> length (locked_mem io)" and "fpos io + n \<le> length (disk io)"
  shows "read_retry n io = (Bytes n, io\<lparr>locked_mem := region (fpos io) n (disk io) @ drop n (locked_mem io),
                                         fpos := fpos io + n\<rparr>)"
  using assms by (simp add: read_retry.simps[of n io] sys_read_def next_call_def transfer_in_def
      Let_def region_def poke_def min_absorb1)

lemma done_read:
  assumes "script io = ([], Done) # r" and "n \<le> length (locked_mem io)" and "fpos io + n \<le> length (disk io)"
  shows "read_retry n io = (Bytes n, io\<lparr>script := r, locked_mem := region (fpos io) n (disk io) @ drop n (locked_mem io),
                                         fpos := fpos io + n\<rparr>)"
  using assms by (simp add: read_retry.simps[of n io] sys_read_def next_call_def transfer_in_def
      Let_def region_def poke_def min_absorb1)

lemma quiet_lseek: "script io = [] \<Longrightarrow> 0 \<le> off \<Longrightarrow> sys_lseek off io = (True, io\<lparr>fpos := nat off\<rparr>)"
  by (simp add: sys_lseek_def next_call_def)

lemma lseek_ok:
  assumes "sys_lseek off io = (True, io')"
  shows "0 \<le> off" "fpos io' = nat off" "locked_mem io' = locked_mem io"
  using assms by (auto simp: sys_lseek_def dest: next_call_frame split: prod.splits if_splits)

lemma lseek_mem: "sys_lseek off io = (r, io') \<Longrightarrow> locked_mem io' = locked_mem io"
  by (auto simp: sys_lseek_def dest: next_call_frame split: prod.splits if_splits)

end
