(* ===== verification/Sfex_Lib.thy ===== *)
theory Sfex_Lib
  imports Sfex_Device
begin

text \<open>
  The meta-data of SF-EX: \<^verbatim>\<open>src/tools/sfex.h\<close> (structures, constants, the counter macro)
  and \<^verbatim>\<open>src/tools/sfex_lib.c\<close> (initialisation, the on-disk format, reading and writing of
  control and lock data, the index check).

  The C structures are records; the on-disk structures consist of byte arrays only, so their fields
  stand at fixed offsets (control data: magic 0, version 4, revision 8, blocksize 12, numlocks 20;
  lock data: status 0, count 1, nodename 5).  A function that fills a structure through a pointer
  takes the old structure and returns the new one, because a failed read leaves some members as they
  were.
\<close>

section \<open>Constants and structures\<close>

definition SFEX_VERSION :: int where "SFEX_VERSION = 1"
definition SFEX_REVISION :: int where "SFEX_REVISION = 3"
definition SFEX_STATUS_UNLOCK :: char where "SFEX_STATUS_UNLOCK = CHR ''u''"
definition SFEX_STATUS_LOCK :: char where "SFEX_STATUS_LOCK = CHR ''l''"
definition SFEX_MAGIC :: string where "SFEX_MAGIC = ''SFEX''"
definition SFEX_MIN_NUMLOCKS :: nat where "SFEX_MIN_NUMLOCKS = 1"
definition SFEX_MAX_NUMLOCKS :: nat where "SFEX_MAX_NUMLOCKS = 999"
definition SFEX_MAX_COUNT :: int where "SFEX_MAX_COUNT = 999"
definition SFEX_MAX_NODENAME :: nat where "SFEX_MAX_NODENAME = 255"

lemmas sfex_consts = SFEX_VERSION_def SFEX_REVISION_def SFEX_STATUS_UNLOCK_def SFEX_STATUS_LOCK_def
  SFEX_MAGIC_def SFEX_MIN_NUMLOCKS_def SFEX_MAX_NUMLOCKS_def SFEX_MAX_COUNT_def SFEX_MAX_NODENAME_def

definition SFEX_NEXT_COUNT :: "int \<Rightarrow> int" where
  "SFEX_NEXT_COUNT c = (if c \<ge> SFEX_MAX_COUNT then c - SFEX_MAX_COUNT else c + 1)"

record sfex_controldata =
  magic :: "char list"
  version :: int
  revision :: int
  blocksize :: "64 word"
  numlocks :: int

record sfex_lockdata =
  status :: char
  count :: int
  nodename :: "char list"

definition init_controldata :: "sfex_controldata \<Rightarrow> 64 word \<Rightarrow> int \<Rightarrow> sfex_controldata" where
  "init_controldata cdata bs n =
     cdata\<lparr>magic := SFEX_MAGIC, version := SFEX_VERSION, revision := SFEX_REVISION,
           blocksize := bs, numlocks := n\<rparr>"

definition init_lockdata :: "sfex_lockdata \<Rightarrow> sfex_lockdata" where
  "init_lockdata ldata =
     ldata\<lparr>status := SFEX_STATUS_UNLOCK, count := 0, nodename := (nodename ldata)[0 := NUL]\<rparr>"

section \<open>Names\<close>

definition get_progname :: "string \<Rightarrow> string" where
  "get_progname argv0 =
     (if CHR ''/'' \<in> set argv0 then rev (takeWhile (\<lambda>c. c \<noteq> CHR ''/'') (rev argv0)) else argv0)"

text \<open>\<open>uname\<close> answers with a node name or fails; \<open>strdup\<close> may fail.\<close>

definition get_nodename :: "string option \<Rightarrow> bool \<Rightarrow> string result" where
  "get_nodename uname_result strdup_ok =
     (case uname_result of
        None \<Rightarrow> Exit 3
      | Some n \<Rightarrow> if length n > SFEX_MAX_NODENAME then Exit 3
                  else if \<not> strdup_ok then Exit 3 else Ret n)"

section \<open>Control data\<close>

definition fill_controldata :: "sfex_controldata \<Rightarrow> char list \<Rightarrow> char list option" where
  "fill_controldata cdata mem = do {
     m \<leftarrow> memset0 (unat (blocksize cdata)) mem;
     m \<leftarrow> poke 0 (take 4 (magic cdata)) m;
     m \<leftarrow> poke 4 (snprintf_bytes 4 (show_int (version cdata))) m;
     m \<leftarrow> poke 8 (snprintf_bytes 4 (show_int (revision cdata))) m;
     m \<leftarrow> poke 12 (snprintf_bytes 8 (show_nat (unat (ucast (blocksize cdata) :: 32 word)))) m;
     poke 20 (snprintf_bytes 4 (show_int (numlocks cdata))) m }"

definition write_controldata :: "sfex_controldata \<Rightarrow> sfex_io \<Rightarrow> unit result \<times> sfex_io" where
  "write_controldata cdata io =
     (case fill_controldata cdata (locked_mem io) of
        None \<Rightarrow> (Fault, io)
      | Some m \<Rightarrow>
          case sys_lseek 0 (io\<lparr>locked_mem := m\<rparr>) of (seek_ok, io1) \<Rightarrow>
            if \<not> seek_ok then (Exit 3, io1)
            else case write_retry (unat (blocksize cdata)) io1 of (r, io2) \<Rightarrow>
              case r of
                Overrun \<Rightarrow> (Fault, io2)
              | EFail \<Rightarrow> (Exit 3, io2)
              | _ \<Rightarrow> (Ret (), io2))"

definition parse_controldata :: "char list \<Rightarrow> sfex_controldata \<Rightarrow> (int \<times> sfex_controldata) option" where
  "parse_controldata m cdata = do {
     mg \<leftarrow> peek 0 4 m;
     v \<leftarrow> peek 4 4 m;
     r \<leftarrow> peek 8 4 m;
     b \<leftarrow> peek 12 8 m;
     n \<leftarrow> peek 20 4 m;
     let cd1 = cdata\<lparr>magic := mg\<rparr>;
     let cd2 = cd1\<lparr>version := atoi v\<rparr>;
     Some (if mg \<noteq> SFEX_MAGIC then (- 1, cd1)
           else if v ! 3 \<noteq> NUL \<or> r ! 3 \<noteq> NUL \<or> b ! 7 \<noteq> NUL \<or> n ! 3 \<noteq> NUL then (- 1, cd1)
           else if version cd2 \<noteq> SFEX_VERSION then (- 1, cd2)
           else (0, cd2\<lparr>revision := atoi r, blocksize := word_of_int (atoi b), numlocks := atoi n\<rparr>)) }"

definition read_controldata ::
  "sfex_controldata \<Rightarrow> sfex_io \<Rightarrow> int result \<times> sfex_controldata \<times> sfex_io" where
  "read_controldata cdata io =
     (case sys_lseek 0 io of (seek_ok, io1) \<Rightarrow>
        if \<not> seek_ok then (Ret (- 1), cdata, io1)
        else case read_retry (unat (sector_size io1)) io1 of (r, io2) \<Rightarrow>
          case r of
            Overrun \<Rightarrow> (Fault, cdata, io2)
          | EFail \<Rightarrow> (Ret (- 1), cdata, io2)
          | _ \<Rightarrow>
              case parse_controldata (locked_mem io2) cdata of
                None \<Rightarrow> (Fault, cdata, io2)
              | Some (rc, cdata') \<Rightarrow> (Ret rc, cdata', io2))"

section \<open>Lock data\<close>

definition fill_lockdata :: "64 word \<Rightarrow> sfex_lockdata \<Rightarrow> char list \<Rightarrow> char list option" where
  "fill_lockdata bs ldata mem = do {
     m \<leftarrow> memset0 (unat bs) mem;
     m \<leftarrow> poke 0 [status ldata] m;
     m \<leftarrow> poke 1 (snprintf_bytes 4 (show_int (count ldata))) m;
     poke 5 (snprintf_bytes 256 (cstr (nodename ldata))) m }"

text \<open>The file position of a lock: \<open>blocksize * index\<close>, computed in \<open>size_t\<close>, read as \<open>off_t\<close>.\<close>

definition lock_offset :: "sfex_controldata \<Rightarrow> int \<Rightarrow> int" where
  "lock_offset cdata index = sint (blocksize cdata * word_of_int index)"

definition write_lockdata ::
  "sfex_controldata \<Rightarrow> sfex_lockdata \<Rightarrow> int \<Rightarrow> sfex_io \<Rightarrow> int result \<times> sfex_io" where
  "write_lockdata cdata ldata index io =
     (case fill_lockdata (blocksize cdata) ldata (locked_mem io) of
        None \<Rightarrow> (Fault, io)
      | Some m \<Rightarrow>
          case sys_lseek (lock_offset cdata index) (io\<lparr>locked_mem := m\<rparr>) of (seek_ok, io1) \<Rightarrow>
            if \<not> seek_ok then (Ret (- 1), io1)
            else case write_retry (unat (blocksize cdata)) io1 of (r, io2) \<Rightarrow>
              case r of
                Overrun \<Rightarrow> (Fault, io2)
              | Bytes s \<Rightarrow> if s \<noteq> unat (blocksize cdata) then (Ret (- 1), io2) else (Ret 0, io2)
              | _ \<Rightarrow> (Ret (- 1), io2))"

definition parse_lockdata :: "char list \<Rightarrow> sfex_lockdata \<Rightarrow> (int \<times> sfex_lockdata) option" where
  "parse_lockdata m ldata = do {
     st \<leftarrow> peek 0 1 m;
     c \<leftarrow> peek 1 4 m;
     nn \<leftarrow> peek 5 256 m;
     let ld1 = ldata\<lparr>status := hd st\<rparr>;
     Some (if c ! 3 \<noteq> NUL \<or> nn ! 255 \<noteq> NUL then (- 1, ldata)
           else if status ld1 \<noteq> SFEX_STATUS_UNLOCK \<and> status ld1 \<noteq> SFEX_STATUS_LOCK then (- 1, ld1)
           else (0, ld1\<lparr>count := atoi c, nodename := strncpy_bytes 256 nn\<rparr>)) }"

definition read_lockdata ::
  "sfex_controldata \<Rightarrow> sfex_lockdata \<Rightarrow> int \<Rightarrow> sfex_io \<Rightarrow>
   int result \<times> sfex_lockdata \<times> sfex_io" where
  "read_lockdata cdata ldata index io =
     (case sys_lseek (lock_offset cdata index) io of (seek_ok, io1) \<Rightarrow>
        if \<not> seek_ok then (Ret (- 1), ldata, io1)
        else case read_retry (unat (blocksize cdata)) io1 of (r, io2) \<Rightarrow>
          case r of
            Overrun \<Rightarrow> (Fault, ldata, io2)
          | Bytes s \<Rightarrow>
              if s \<noteq> unat (blocksize cdata) then (Ret (- 1), ldata, io2)
              else (case parse_lockdata (locked_mem io2) ldata of
                      None \<Rightarrow> (Fault, ldata, io2)
                    | Some (rc, ldata') \<Rightarrow> (Ret rc, ldata', io2))
          | _ \<Rightarrow> (Ret (- 1), ldata, io2))"

section \<open>The index check\<close>

definition lock_index_check ::
  "sfex_controldata \<Rightarrow> int \<Rightarrow> sfex_io \<Rightarrow> int result \<times> sfex_controldata \<times> sfex_io" where
  "lock_index_check cdata index io =
     (case read_controldata cdata io of (r, cdata', io') \<Rightarrow>
        case r of
          Ret rc \<Rightarrow>
            if rc = - 1 then (Ret (- 1), cdata', io')
            else if index > numlocks cdata' then (Ret (- 1), cdata', io')
            else if blocksize cdata' \<noteq> sector_size io' then (Ret (- 1), cdata', io')
            else (Ret 0, cdata', io')
        | Exit e \<Rightarrow> (Exit e, cdata', io')
        | Fault \<Rightarrow> (Fault, cdata', io'))"

section \<open>Fixed-width fields\<close>

text \<open>
  The interface of an on-disk field: an encoder whose output is null-terminated and fits the width,
  and a decoder that reads the zero-padded field back.
\<close>

locale field_codec =
  fixes width :: nat and enc :: "'a \<Rightarrow> char list" and dec :: "char list \<Rightarrow> 'b"
    and val :: "'a \<Rightarrow> 'b" and ok :: "'a \<Rightarrow> bool"
  assumes enc_fits: "length (enc x) \<le> width"
    and enc_last: "enc x \<noteq> [] \<and> last (enc x) = NUL"
    and dec_enc: "ok x \<Longrightarrow> dec (enc x @ replicate (width - length (enc x)) NUL) = val x"
begin

definition field :: "'a \<Rightarrow> char list" where
  "field x = enc x @ replicate (width - length (enc x)) NUL"

lemma length_field: "length (field x) = width"
  using enc_fits by (simp add: field_def)

lemma field_last: "field x ! (width - 1) = NUL"
proof (cases "width - length (enc x)")
  case 0
  then have "width - 1 = length (enc x) - 1" and "field x = enc x"
    using enc_fits[of x] unfolding field_def by simp_all
  then show ?thesis using enc_last[of x] by (auto simp: last_conv_nth)
next
  case (Suc k)
  then have "width - 1 = length (enc x) + k" and "field x = enc x @ replicate (Suc k) NUL"
    unfolding field_def by simp_all
  then show ?thesis by (simp del: replicate_Suc)
qed

lemma dec_field: "ok x \<Longrightarrow> dec (field x) = val x"
  by (simp add: field_def dec_enc)

lemma poke_field:
  assumes "length a = off"
  shows "poke off (enc x) (a @ replicate width NUL @ b) = Some (a @ field x @ b)"
  using assms enc_fits[of x] by (simp add: poke_at field_def)

end

lemma atoi_snprintf:
  assumes "length (show_int i) < w" and "- 2147483648 \<le> i" and "i \<le> INT_MAX"
  shows "atoi (snprintf_bytes w (show_int i) @ r) = i"
proof -
  have "cstr (snprintf_bytes w (show_int i) @ r) = cstr (show_int i)"
    using assms by simp
  then show ?thesis using assms atoi_cong_cstr atoi_show_int by metis
qed

lemma snprintf_last: "0 < w \<Longrightarrow> snprintf_bytes w s \<noteq> [] \<and> last (snprintf_bytes w s) = NUL"
  by (simp add: snprintf_bytes_def)

lemma length_show_int3: "- 99 \<le> i \<Longrightarrow> i \<le> 999 \<Longrightarrow> length (show_int i) < 4"
  using length_show_nat[of "nat i" 3] length_show_nat[of "nat (- i)" 2]
  by (cases "i < 0") (simp_all add: show_int_def nat_less_iff)

lemma show_nat_int: "show_nat n = show_int (int n)"
  by (simp add: show_int_def)

interpretation num4: field_codec 4 "\<lambda>i. snprintf_bytes 4 (show_int i)" atoi "\<lambda>i. i"
  "\<lambda>i. - 99 \<le> i \<and> i \<le> 999"
  by unfold_locales
    (auto simp: length_snprintf snprintf_last atoi_snprintf length_show_int3 INT_MAX_def)

interpretation num8: field_codec 8 "\<lambda>n. snprintf_bytes 8 (show_nat n)" atoi int
  "\<lambda>n. n \<le> 9999999"
proof unfold_locales
  fix n :: nat
  assume "n \<le> 9999999"
  moreover from this have "length (show_int (int n)) < 8"
    using length_show_nat[of n 7] by (simp add: show_nat_int)
  ultimately show "atoi (snprintf_bytes 8 (show_nat n) @
      replicate (8 - length (snprintf_bytes 8 (show_nat n))) NUL) = int n"
    by (simp add: show_nat_int atoi_snprintf INT_MAX_def)
qed (auto simp: length_snprintf snprintf_last)

text \<open>A node name buffer as the readers leave it: 256 bytes, the name null-padded, at most 255 long.\<close>

definition wf_name :: "char list \<Rightarrow> bool" where
  "wf_name b \<longleftrightarrow> b = strncpy_bytes 256 b \<and> length (cstr b) \<le> 255"

lemma wf_name_length: "wf_name b \<Longrightarrow> length b = 256"
  unfolding wf_name_def by (metis length_strncpy)

lemma wf_name_eq: "wf_name b \<Longrightarrow> b = cstr b @ replicate (256 - length (cstr b)) NUL"
  by (auto simp: wf_name_def strncpy_bytes_def)

lemma wf_name_strncpy: "length (cstr s) \<le> 255 \<Longrightarrow> wf_name (strncpy_bytes 256 s)"
  by (simp add: wf_name_def strncpy_bytes_def)

lemma wf_name_inj: "wf_name a \<Longrightarrow> wf_name b \<Longrightarrow> cstr a = cstr b \<longleftrightarrow> a = b"
  using wf_name_eq by metis

interpretation name256: field_codec 256 "\<lambda>b. snprintf_bytes 256 (cstr b)" "strncpy_bytes 256"
  "\<lambda>b. b" wf_name
proof unfold_locales
  fix b
  assume b: "wf_name b"
  then have l: "length (cstr b) \<le> 255" by (simp add: wf_name_def)
  have "strncpy_bytes 256 (snprintf_bytes 256 (cstr b) @
      replicate (256 - length (snprintf_bytes 256 (cstr b))) NUL)
    = take 256 (cstr b @ replicate 256 NUL)"
    using l by (simp add: strncpy_bytes_def)
  also have "\<dots> = b"
    using wf_name_eq[OF b] l by simp
  finally show "strncpy_bytes 256 (snprintf_bytes 256 (cstr b) @
      replicate (256 - length (snprintf_bytes 256 (cstr b))) NUL) = b" .
qed (auto simp: length_snprintf snprintf_last)

section \<open>The on-disk images\<close>

definition lock_block :: "nat \<Rightarrow> sfex_lockdata \<Rightarrow> char list" where
  "lock_block n ldata = [status ldata] @ num4.field (count ldata) @ name256.field (nodename ldata)
     @ replicate (n - 261) NUL"

definition control_block :: "nat \<Rightarrow> sfex_controldata \<Rightarrow> char list" where
  "control_block n cdata = magic cdata @ num4.field (version cdata) @ num4.field (revision cdata)
     @ num8.field (unat (ucast (blocksize cdata) :: 32 word)) @ num4.field (numlocks cdata)
     @ replicate (n - 24) NUL"

definition wf_lockdata :: "sfex_lockdata \<Rightarrow> bool" where
  "wf_lockdata ldata \<longleftrightarrow>
     (status ldata = SFEX_STATUS_UNLOCK \<or> status ldata = SFEX_STATUS_LOCK) \<and>
     0 \<le> count ldata \<and> count ldata \<le> SFEX_MAX_COUNT \<and> wf_name (nodename ldata)"

definition wf_controldata :: "sfex_controldata \<Rightarrow> bool" where
  "wf_controldata cdata \<longleftrightarrow>
     magic cdata = SFEX_MAGIC \<and> version cdata = SFEX_VERSION \<and>
     0 \<le> revision cdata \<and> revision cdata \<le> 999 \<and> unat (blocksize cdata) \<le> 9999999 \<and>
     1 \<le> numlocks cdata \<and> numlocks cdata \<le> 999"

lemma length_lock_block: "261 \<le> n \<Longrightarrow> length (lock_block n ldata) = n"
  by (simp add: lock_block_def num4.length_field name256.length_field)

lemma length_control_block: "24 \<le> n \<Longrightarrow> length (magic cdata) = 4 \<Longrightarrow> length (control_block n cdata) = n"
  by (simp add: control_block_def num4.length_field num8.length_field)

lemma replicate_split: "a \<le> n \<Longrightarrow> replicate n x = replicate a x @ replicate (n - a) x"
  by (simp flip: replicate_add)

lemma fill_lockdata_image:
  assumes "261 \<le> unat bs" and "unat bs \<le> length mem"
  shows "fill_lockdata bs ldata mem = Some (lock_block (unat bs) ldata @ drop (unat bs) mem)"
proof -
  let ?r = "replicate (unat bs - 261) NUL @ drop (unat bs) mem"
  have z: "replicate (unat bs) NUL =
      replicate 1 NUL @ replicate 4 NUL @ replicate 256 NUL @ replicate (unat bs - 261) NUL"
    using assms(1) by (simp flip: replicate_add replicate_Suc)
  have 1: "memset0 (unat bs) mem = Some ([NUL] @ replicate 4 NUL @ replicate 256 NUL @ ?r)"
    using assms(2) z by (simp add: memset0_Some)
  have 2: "poke 0 [status ldata] ([NUL] @ replicate 4 NUL @ replicate 256 NUL @ ?r)
      = Some ([status ldata] @ replicate 4 NUL @ (replicate 256 NUL @ ?r))"
    by (simp add: poke_def)
  have 3: "poke 1 (snprintf_bytes 4 (show_int (count ldata)))
        ([status ldata] @ replicate 4 NUL @ (replicate 256 NUL @ ?r))
      = Some (([status ldata] @ num4.field (count ldata)) @ replicate 256 NUL @ ?r)"
    using num4.poke_field[of "[status ldata]" 1] by simp
  have 4: "poke 5 (snprintf_bytes 256 (cstr (nodename ldata)))
        (([status ldata] @ num4.field (count ldata)) @ replicate 256 NUL @ ?r)
      = Some (([status ldata] @ num4.field (count ldata)) @ name256.field (nodename ldata) @ ?r)"
    by (rule name256.poke_field) (simp add: num4.length_field)
  show ?thesis
    unfolding fill_lockdata_def 1 by (simp only: bind.bind_lunit 2 3 4) (simp add: lock_block_def)
qed

lemma parse_lock_block:
  assumes "wf_lockdata ldata"
  shows "parse_lockdata (lock_block n ldata @ r) ldata0 = Some (0, ldata)"
proof -
  let ?st = "[status ldata]" and ?c = "num4.field (count ldata)"
    and ?n = "name256.field (nodename ldata)" and ?r = "replicate (n - 261) NUL @ r"
  have 1: "peek 0 1 (lock_block n ldata @ r) = Some ?st"
    by (simp add: peek_def lock_block_def)
  have 2: "peek 1 4 (lock_block n ldata @ r) = Some ?c"
    using peek_at[of ?st 1 ?c 4 "?n @ ?r"] by (simp add: lock_block_def num4.length_field)
  have 3: "peek 5 256 (lock_block n ldata @ r) = Some ?n"
    using peek_at[of "?st @ ?c" 5 ?n 256 "?r"]
    by (simp add: lock_block_def num4.length_field name256.length_field)
  show ?thesis
    using assms num4.field_last[of "count ldata"] name256.field_last[of "nodename ldata"]
    unfolding parse_lockdata_def 1 2 3
    by (auto simp: num4.dec_field name256.dec_field wf_lockdata_def SFEX_MAX_COUNT_def)
qed

lemma fill_controldata_image:
  assumes "24 \<le> unat (blocksize cdata)" and "unat (blocksize cdata) \<le> length mem"
    and "length (magic cdata) = 4"
  shows "fill_controldata cdata mem =
    Some (control_block (unat (blocksize cdata)) cdata @ drop (unat (blocksize cdata)) mem)"
proof -
  let ?n = "unat (blocksize cdata)" and ?z = "\<lambda>k. replicate k NUL"
  let ?r = "?z (?n - 24) @ drop ?n mem"
  let ?m = "magic cdata" and ?v = "num4.field (version cdata)" and ?rv = "num4.field (revision cdata)"
    and ?b = "num8.field (unat (ucast (blocksize cdata) :: 32 word))"
    and ?l = "num4.field (numlocks cdata)"
  note len = num4.length_field num8.length_field assms(3)
  have z: "?z ?n = ?z 4 @ ?z 4 @ ?z 4 @ ?z 8 @ ?z 4 @ ?z (?n - 24)"
    using assms(1) by (simp flip: replicate_add)
  have 0: "memset0 ?n mem = Some (?z 4 @ ?z 4 @ (?z 4 @ ?z 8 @ ?z 4 @ ?r))"
    using assms(2) z by (simp add: memset0_Some)
  have 1: "poke 0 (take 4 ?m) (?z 4 @ ?z 4 @ (?z 4 @ ?z 8 @ ?z 4 @ ?r))
      = Some (?m @ ?z 4 @ (?z 4 @ ?z 8 @ ?z 4 @ ?r))"
    using assms(3) by (simp add: poke_def)
  have 2: "poke 4 (snprintf_bytes 4 (show_int (version cdata))) (?m @ ?z 4 @ (?z 4 @ ?z 8 @ ?z 4 @ ?r))
      = Some (?m @ ?v @ (?z 4 @ ?z 8 @ ?z 4 @ ?r))"
    by (rule num4.poke_field) (simp add: len)
  have 3: "poke 8 (snprintf_bytes 4 (show_int (revision cdata))) ((?m @ ?v) @ ?z 4 @ (?z 8 @ ?z 4 @ ?r))
      = Some ((?m @ ?v) @ ?rv @ (?z 8 @ ?z 4 @ ?r))"
    by (rule num4.poke_field) (simp add: len)
  have 4: "poke 12 (snprintf_bytes 8 (show_nat (unat (ucast (blocksize cdata) :: 32 word))))
        ((?m @ ?v @ ?rv) @ ?z 8 @ (?z 4 @ ?r))
      = Some ((?m @ ?v @ ?rv) @ ?b @ (?z 4 @ ?r))"
    by (rule num8.poke_field) (simp add: len)
  have 5: "poke 20 (snprintf_bytes 4 (show_int (numlocks cdata))) ((?m @ ?v @ ?rv @ ?b) @ ?z 4 @ ?r)
      = Some ((?m @ ?v @ ?rv @ ?b) @ ?l @ ?r)"
    by (rule num4.poke_field) (simp add: len)
  show ?thesis
    using 3 4 5 unfolding fill_controldata_def 0
    by (simp only: bind.bind_lunit 1 2 append_assoc) (simp add: control_block_def)
qed

lemma parse_control_block:
  assumes "wf_controldata cdata"
  shows "parse_controldata (control_block n cdata @ r) cdata0 = Some (0, cdata)"
proof -
  let ?m = "magic cdata" and ?v = "num4.field (version cdata)" and ?rv = "num4.field (revision cdata)"
    and ?b = "num8.field (unat (ucast (blocksize cdata) :: 32 word))"
    and ?l = "num4.field (numlocks cdata)" and ?r = "replicate (n - 24) NUL @ r"
  let ?all = "control_block n cdata @ r"
  have w: "magic cdata = SFEX_MAGIC" "version cdata = SFEX_VERSION"
    using assms by (auto simp: wf_controldata_def)
  note len = num4.length_field num8.length_field SFEX_MAGIC_def
  have 0: "peek 0 4 ?all = Some ?m"
    by (simp add: control_block_def peek_def w len)
  have 1: "peek 4 4 ?all = Some ?v"
    using peek_at[of ?m 4 ?v 4 "?rv @ ?b @ ?l @ ?r"] by (simp add: control_block_def len w)
  have 2: "peek 8 4 ?all = Some ?rv"
    using peek_at[of "?m @ ?v" 8 ?rv 4 "?b @ ?l @ ?r"] by (simp add: control_block_def len w)
  have 3: "peek 12 8 ?all = Some ?b"
    using peek_at[of "?m @ ?v @ ?rv" 12 ?b 8 "?l @ ?r"] by (simp add: control_block_def len w)
  have 4: "peek 20 4 ?all = Some ?l"
    using peek_at[of "?m @ ?v @ ?rv @ ?b" 20 ?l 4 "?r"] by (simp add: control_block_def len w)
  have u: "unat (ucast (blocksize cdata) :: 32 word) = unat (blocksize cdata)"
    using assms by (simp add: wf_controldata_def unsigned_ucast_eq take_bit_nat_eq_self)
  have b: "(word_of_int (atoi ?b) :: 64 word) = blocksize cdata"
    using assms by (simp add: num8.dec_field u wf_controldata_def)
  show ?thesis
    using assms num4.field_last[of "version cdata"] num4.field_last[of "revision cdata"]
      num4.field_last[of "numlocks cdata"] num8.field_last[of "unat (ucast (blocksize cdata) :: 32 word)"]
    unfolding parse_controldata_def 0 1 2 3 4
    by (simp add: num4.dec_field b wf_controldata_def SFEX_VERSION_def)
qed

section \<open>Laws of the operations\<close>

text \<open>
  The state in which the daemon and the tools work after \<open>prepare_lock\<close> and \<open>lock_index_check\<close>:
  the block size is the sector size, the buffer holds one sector, and a lock record fits in it.
\<close>

definition sfex_ready :: "sfex_controldata \<Rightarrow> sfex_io \<Rightarrow> bool" where
  "sfex_ready cdata io \<longleftrightarrow>
     blocksize cdata = sector_size io \<and> unat (sector_size io) = length (locked_mem io) \<and>
     261 \<le> unat (sector_size io)"

abbreviation bsize :: "sfex_controldata \<Rightarrow> nat" where "bsize cdata \<equiv> unat (blocksize cdata)"

definition lock_pos :: "sfex_controldata \<Rightarrow> int \<Rightarrow> nat" where
  "lock_pos cdata index = nat (lock_offset cdata index)"

definition lock_in_range :: "sfex_controldata \<Rightarrow> int \<Rightarrow> sfex_io \<Rightarrow> bool" where
  "lock_in_range cdata index io \<longleftrightarrow>
     0 \<le> lock_offset cdata index \<and> lock_pos cdata index + bsize cdata \<le> length (disk io)"

text \<open>The lock record a disk holds for an index.\<close>

definition lock_on_disk :: "sfex_controldata \<Rightarrow> int \<Rightarrow> char list \<Rightarrow> char list" where
  "lock_on_disk cdata index d = region (lock_pos cdata index) (bsize cdata) d"

lemma ready_geometry: "sfex_ready cdata io \<Longrightarrow> same_geometry io io' \<Longrightarrow> sfex_ready cdata io'"
  by (simp add: sfex_ready_def same_geometry_def)

lemma range_geometry: "lock_in_range cdata i io \<Longrightarrow> same_geometry io io' \<Longrightarrow> lock_in_range cdata i io'"
  by (simp add: lock_in_range_def same_geometry_def)

lemma sint64_id: "0 \<le> i \<Longrightarrow> i < 9223372036854775808 \<Longrightarrow> sint (word_of_int i :: 64 word) = i"
  by (simp add: signed_take_bit_int_eq_self sint_sbintrunc')

text \<open>No wrap-around in the offset computation for the indices the programs accept.\<close>

lemma lock_offset_eq:
  assumes "0 \<le> index" and "index \<le> 999" and "bsize cdata \<le> 9999999"
  shows "lock_offset cdata index = int (bsize cdata) * index"
proof -
  have "blocksize cdata * word_of_int index = (word_of_int (int (bsize cdata) * index) :: 64 word)"
    by simp
  moreover have "int (bsize cdata) * index \<le> 9999999 * 999"
  proof (rule mult_mono)
    show "int (bsize cdata) \<le> 9999999" using assms(3) by linarith
  qed (use assms in auto)
  ultimately show ?thesis
    using assms by (simp only: lock_offset_def) (intro sint64_id, auto)
qed

lemma parse_lockdata_total:
  assumes "261 \<le> length m"
  shows "\<exists>rc ldata. parse_lockdata m ldata0 = Some (rc, ldata) \<and> (rc = 0 \<or> rc = - 1)"
  using assms by (simp add: parse_lockdata_def peek_def Let_def)

lemma parse_controldata_total:
  assumes "24 \<le> length m"
  shows "\<exists>rc cdata. parse_controldata m cdata0 = Some (rc, cdata) \<and> (rc = 0 \<or> rc = - 1)"
  using assms by (simp add: parse_controldata_def peek_def Let_def)

lemma write_lockdata_geometry:
  assumes "write_lockdata cdata ldata index io = (r, io')"
  shows "same_geometry io io'"
proof (cases "fill_lockdata (blocksize cdata) ldata (locked_mem io)")
  case None
  with assms show ?thesis by (simp add: write_lockdata_def)
next
  case (Some m)
  then have "same_geometry io (io\<lparr>locked_mem := m\<rparr>)"
    by (auto simp: fill_lockdata_def same_geometry_def bind_eq_Some_conv dest!: length_poke length_memset0)
  with assms Some show ?thesis
    by (auto simp: write_lockdata_def split: prod.splits if_splits sysret.splits
        dest!: lseek_geometry write_retry_geometry intro: same_geometry_trans)
qed

lemma read_lockdata_geometry:
  assumes "read_lockdata cdata ldata index io = (r, ldata', io')"
  shows "same_geometry io io'"
  using assms
  by (auto simp: read_lockdata_def split: prod.splits if_splits sysret.splits option.splits
      dest!: lseek_geometry read_retry_geometry intro: same_geometry_trans)

lemma read_controldata_geometry:
  assumes "read_controldata cdata io = (r, cdata', io')"
  shows "same_geometry io io'"
  using assms
  by (auto simp: read_controldata_def split: prod.splits if_splits sysret.splits option.splits
      dest!: lseek_geometry read_retry_geometry intro: same_geometry_trans)

text \<open>What a successful write leaves on the disk, whatever else happens on the disk meanwhile.\<close>

lemma write_lockdata_ok:
  assumes "write_lockdata cdata ldata index io = (Ret 0, io')" and "sfex_ready cdata io"
  shows "lock_in_range cdata index io \<and>
    (\<exists>io0. env_step io io0 \<and> script io' = script io0 \<and>
         disk io' = put_region (lock_pos cdata index) (lock_block (bsize cdata) ldata) (disk io0))"
proof -
  let ?m = "lock_block (bsize cdata) ldata"
  have fill: "fill_lockdata (blocksize cdata) ldata (locked_mem io) = Some ?m"
    using assms(2) by (simp add: sfex_ready_def fill_lockdata_image)
  obtain io1 where seek: "sys_lseek (lock_offset cdata index) (io\<lparr>locked_mem := ?m\<rparr>) = (True, io1)"
    and wr: "write_retry (bsize cdata) io1 = (Bytes (bsize cdata), io')"
    using assms(1) fill
    by (auto simp: write_lockdata_def split: prod.splits if_splits sysret.splits)
  have l: "length ?m = bsize cdata" and p: "0 < bsize cdata"
    using assms(2) by (auto simp: sfex_ready_def length_lock_block)
  have g: "length (disk io1) = length (disk io)"
    using lseek_geometry[OF seek] by (simp add: same_geometry_def)
  have e: "env_step io io1"
    using lseek_env[OF seek] by (auto simp: env_step_def)
  show ?thesis
    using write_retry_full[OF wr p] lseek_ok[OF seek] l g env_step_trans[OF e]
    by (auto simp: lock_in_range_def lock_pos_def)
qed

lemma read_lockdata_env: "read_lockdata cdata ldata0 index io = (r, ldata, io') \<Longrightarrow> env_step io io'"
  by (auto simp: read_lockdata_def split: prod.splits if_splits sysret.splits option.splits
      dest!: lseek_env read_retry_env intro: env_step_trans)

lemma read_lockdata_ok:
  assumes "read_lockdata cdata ldata0 index io = (Ret rc, ldata, io')" and "sfex_ready cdata io"
    and "rc \<noteq> - 1"
  shows "lock_in_range cdata index io \<and>
         parse_lockdata (lock_on_disk cdata index (disk io')) ldata0 = Some (rc, ldata)"
proof -
  obtain io1 where seek: "sys_lseek (lock_offset cdata index) io = (True, io1)"
    and rd: "read_retry (bsize cdata) io1 = (Bytes (bsize cdata), io')"
    and pa: "parse_lockdata (locked_mem io') ldata0 = Some (rc, ldata)"
    using assms(1,3) by (auto simp: read_lockdata_def split: prod.splits if_splits sysret.splits option.splits)
  have p: "0 < bsize cdata" and l: "bsize cdata = length (locked_mem io1)"
    using assms(2) lseek_ok[OF seek] by (auto simp: sfex_ready_def)
  have g: "length (disk io1) = length (disk io)"
    using lseek_geometry[OF seek] by (simp add: same_geometry_def)
  have "lock_in_range cdata index io"
    and "locked_mem io' = region (fpos io1) (bsize cdata) (disk io')"
    using read_retry_full[OF rd p] lseek_ok[OF seek] l g
    by (auto simp: lock_in_range_def lock_pos_def)
  with pa lseek_ok[OF seek] show ?thesis
    by (simp add: lock_on_disk_def lock_pos_def)
qed

text \<open>With nobody else on the disk and no failing call, the operations are these functions.\<close>

lemma quiet_write_lockdata:
  assumes "script io = []" and "sfex_ready cdata io" and "lock_in_range cdata index io"
  shows "write_lockdata cdata ldata index io =
    (Ret 0, io\<lparr>disk := put_region (lock_pos cdata index) (lock_block (bsize cdata) ldata) (disk io),
               fpos := lock_pos cdata index + bsize cdata,
               locked_mem := lock_block (bsize cdata) ldata\<rparr>)"
proof -
  let ?m = "lock_block (bsize cdata) ldata"
  have fill: "fill_lockdata (blocksize cdata) ldata (locked_mem io) = Some ?m"
    and l: "length ?m = bsize cdata" and p: "0 < bsize cdata"
    using assms(2) by (auto simp: sfex_ready_def fill_lockdata_image length_lock_block)
  let ?io1 = "io\<lparr>locked_mem := ?m, fpos := lock_pos cdata index\<rparr>"
  have seek: "sys_lseek (lock_offset cdata index) (io\<lparr>locked_mem := ?m\<rparr>) = (True, ?io1)"
    using assms(1,3) quiet_lseek[of "io\<lparr>locked_mem := ?m\<rparr>" "lock_offset cdata index"]
    by (simp add: lock_in_range_def lock_pos_def)
  have wr: "write_retry (bsize cdata) ?io1 =
      (Bytes (bsize cdata), ?io1\<lparr>disk := put_region (lock_pos cdata index) ?m (disk io),
                                  fpos := lock_pos cdata index + bsize cdata\<rparr>)"
    using assms(1,3) l p quiet_write[of ?io1 "bsize cdata"] by (simp add: lock_in_range_def)
  show ?thesis
    by (simp add: write_lockdata_def fill seek wr)
qed

lemma quiet_read_lockdata:
  assumes "script io = []" and "sfex_ready cdata io" and "lock_in_range cdata index io"
    and "parse_lockdata (lock_on_disk cdata index (disk io)) ldata0 = Some (rc, ldata)"
  shows "read_lockdata cdata ldata0 index io =
    (Ret rc, ldata, io\<lparr>locked_mem := lock_on_disk cdata index (disk io),
                       fpos := lock_pos cdata index + bsize cdata\<rparr>)"
proof -
  let ?io1 = "io\<lparr>fpos := lock_pos cdata index\<rparr>"
  have seek: "sys_lseek (lock_offset cdata index) io = (True, ?io1)"
    using assms(1,3) quiet_lseek[of io "lock_offset cdata index"]
    by (simp add: lock_in_range_def lock_pos_def)
  have rd: "read_retry (bsize cdata) ?io1 =
      (Bytes (bsize cdata), ?io1\<lparr>locked_mem := lock_on_disk cdata index (disk io),
                                  fpos := lock_pos cdata index + bsize cdata\<rparr>)"
    using assms(1-3) quiet_read[of ?io1 "bsize cdata"]
    by (simp add: lock_in_range_def sfex_ready_def lock_on_disk_def)
  show ?thesis
    by (simp add: read_lockdata_def seek rd assms(4))
qed

text \<open>The blocks of a device: the interface the readers and writers of meta-data rely on.\<close>

locale block_array =
  fixes get :: "nat \<Rightarrow> 'd \<Rightarrow> 'b" and put :: "nat \<Rightarrow> 'b \<Rightarrow> 'd \<Rightarrow> 'd"
    and invar :: "'d \<Rightarrow> bool" and fits :: "'b \<Rightarrow> bool" and n :: nat
  assumes get_put_same: "invar d \<Longrightarrow> fits b \<Longrightarrow> i < n \<Longrightarrow> get i (put i b d) = b"
    and get_put_other: "invar d \<Longrightarrow> fits b \<Longrightarrow> i < n \<Longrightarrow> i \<noteq> j \<Longrightarrow> get j (put i b d) = get j d"
    and invar_put: "invar d \<Longrightarrow> fits b \<Longrightarrow> i < n \<Longrightarrow> invar (put i b d)"
begin

lemma invar_puts: "invar d \<Longrightarrow> fits b \<Longrightarrow> \<forall>i\<in>set is. i < n \<Longrightarrow> invar (fold (\<lambda>i. put i b) is d)"
  by (induction "is" arbitrary: d) (auto simp: invar_put)

lemma get_puts:
  assumes "invar d" and "fits b" and "\<forall>i\<in>set is. i < n"
  shows "get j (fold (\<lambda>i. put i b) is d) = (if j \<in> set is then b else get j d)"
  using assms
proof (induction "is" arbitrary: d)
  case Nil
  then show ?case by simp
next
  case (Cons i "is")
  then show ?case
    using get_put_same[of d b i] get_put_other[of d b i j] invar_put[of d b i] by auto
qed

end

interpretation disk_blocks: block_array "\<lambda>i d. region (bs * i) bs d" "\<lambda>i b d. put_region (bs * i) b d"
  "\<lambda>d. bs * n \<le> length d" "\<lambda>b. length b = bs" n for bs n :: nat
proof unfold_locales
  have fit: "bs * i + bs \<le> length d" if "bs * n \<le> length d" "i < n" for i and d :: "char list"
  proof -
    have "bs * Suc i \<le> bs * n" using that(2) by (intro mult_le_mono2) simp
    then show ?thesis using that(1) by simp
  qed
  fix d b :: "char list" and i j
  assume d: "bs * n \<le> length d" and b: "length b = bs" and i: "i < n"
  show "region (bs * i) bs (put_region (bs * i) b d) = b"
    using fit[OF d i] b region_put_same[of "bs * i" b d] by simp
  show "bs * n \<le> length (put_region (bs * i) b d)"
    using fit[OF d i] b d by simp
  assume "i \<noteq> j"
  then have "bs * j + bs \<le> bs * i \<or> bs * i + bs \<le> bs * j"
    using mult_le_mono2[of "Suc j" i bs] mult_le_mono2[of "Suc i" j bs] by (cases "i < j") auto
  then show "region (bs * j) bs (put_region (bs * i) b d) = region (bs * j) bs d"
    using fit[OF d i] b by (intro region_put_other) auto
qed

lemma lock_pos_eq:
  assumes "0 \<le> index" and "index \<le> 999" and "bsize cdata \<le> 9999999"
  shows "lock_pos cdata index = bsize cdata * nat index"
proof -
  have "lock_offset cdata index = int (bsize cdata * nat index)"
    using assms by (simp add: lock_offset_eq)
  then show ?thesis by (simp only: lock_pos_def nat_int)
qed

text \<open>Neither operation leaves the buffer, and both end with 0 or -1.\<close>

lemma write_lockdata_result:
  assumes "sfex_ready cdata io"
  shows "fst (write_lockdata cdata ldata index io) \<in> {Ret 0, Ret (- 1)}"
proof -
  let ?m = "lock_block (bsize cdata) ldata"
  have fill: "fill_lockdata (blocksize cdata) ldata (locked_mem io) = Some ?m"
    and l: "length ?m = bsize cdata"
    using assms by (auto simp: sfex_ready_def fill_lockdata_image length_lock_block)
  obtain ok io1 where seek: "sys_lseek (lock_offset cdata index) (io\<lparr>locked_mem := ?m\<rparr>) = (ok, io1)"
    by (cases "sys_lseek (lock_offset cdata index) (io\<lparr>locked_mem := ?m\<rparr>)")
  have "write_retry (bsize cdata) io1 \<noteq> (Overrun, io2)" for io2
    using lseek_mem[OF seek] l by (intro write_retry_not_Overrun) simp
  then show ?thesis
    by (auto simp: write_lockdata_def fill seek split: prod.splits sysret.splits)
qed

lemma read_lockdata_result:
  assumes "sfex_ready cdata io"
  shows "fst (read_lockdata cdata ldata index io) \<in> {Ret 0, Ret (- 1)}"
proof -
  obtain ok io1 where seek: "sys_lseek (lock_offset cdata index) io = (ok, io1)"
    by (cases "sys_lseek (lock_offset cdata index) io")
  obtain r io2 where rd: "read_retry (bsize cdata) io1 = (r, io2)"
    by (cases "read_retry (bsize cdata) io1")
  have "r \<noteq> Overrun"
    using rd read_retry_not_Overrun[of "bsize cdata" io1 io2] lseek_mem[OF seek] assms
    by (auto simp: sfex_ready_def)
  moreover have "\<exists>rc ld. parse_lockdata (locked_mem io2) ldata = Some (rc, ld) \<and> (rc = 0 \<or> rc = - 1)"
    using read_retry_geometry[OF rd] lseek_mem[OF seek] assms
    by (intro parse_lockdata_total) (simp add: same_geometry_def sfex_ready_def)
  ultimately show ?thesis
    by (auto simp: read_lockdata_def seek rd split: sysret.splits)
qed

lemma read_controldata_result:
  assumes "unat (sector_size io) = length (locked_mem io)" and "24 \<le> unat (sector_size io)"
  shows "fst (read_controldata cdata io) \<in> {Ret 0, Ret (- 1)}"
proof -
  obtain ok io1 where seek: "sys_lseek 0 io = (ok, io1)"
    by (cases "sys_lseek 0 io")
  have g1: "same_geometry io io1" using lseek_geometry[OF seek] .
  obtain r io2 where rd: "read_retry (unat (sector_size io1)) io1 = (r, io2)"
    by (cases "read_retry (unat (sector_size io1)) io1")
  have "r \<noteq> Overrun"
    using rd read_retry_not_Overrun[of "unat (sector_size io1)" io1 io2] g1 assms
    by (auto simp: same_geometry_def)
  moreover have "\<exists>rc cd. parse_controldata (locked_mem io2) cdata = Some (rc, cd) \<and> (rc = 0 \<or> rc = - 1)"
    using read_retry_geometry[OF rd] g1 assms
    by (intro parse_controldata_total) (simp add: same_geometry_def)
  ultimately show ?thesis
    by (auto simp: read_controldata_def seek rd split: sysret.splits)
qed

text \<open>The counter is an addition modulo 1000.\<close>

lemma SFEX_NEXT_COUNT_mod: "0 \<le> c \<Longrightarrow> c \<le> SFEX_MAX_COUNT \<Longrightarrow> SFEX_NEXT_COUNT c = (c + 1) mod 1000"
  by (auto simp: SFEX_NEXT_COUNT_def SFEX_MAX_COUNT_def)

lemma SFEX_NEXT_COUNT_range:
  "0 \<le> c \<Longrightarrow> c \<le> SFEX_MAX_COUNT \<Longrightarrow> 0 \<le> SFEX_NEXT_COUNT c \<and> SFEX_NEXT_COUNT c \<le> SFEX_MAX_COUNT"
  by (auto simp: SFEX_NEXT_COUNT_def SFEX_MAX_COUNT_def)

lemma next_count_power:
  assumes "0 \<le> c" and "c \<le> SFEX_MAX_COUNT"
  shows "(SFEX_NEXT_COUNT ^^ k) c = (c + int k) mod 1000"
proof (induction k)
  case 0
  then show ?case using assms by (simp add: SFEX_MAX_COUNT_def)
next
  case (Suc k)
  have "(SFEX_NEXT_COUNT ^^ Suc k) c = ((c + int k) mod 1000 + 1) mod 1000"
    using Suc by (simp add: SFEX_NEXT_COUNT_mod SFEX_MAX_COUNT_def)
  also have "\<dots> = (c + int (Suc k)) mod 1000"
    by (simp add: mod_simps ac_simps)
  finally show ?case .
qed

lemma quiet_write_controldata:
  assumes "script io = []" and "sfex_ready cdata io" and "bsize cdata \<le> length (disk io)"
    and "length (magic cdata) = 4"
  shows "write_controldata cdata io =
    (Ret (), io\<lparr>disk := put_region 0 (control_block (bsize cdata) cdata) (disk io),
                fpos := bsize cdata, locked_mem := control_block (bsize cdata) cdata\<rparr>)"
proof -
  let ?m = "control_block (bsize cdata) cdata"
  have fill: "fill_controldata cdata (locked_mem io) = Some ?m"
    and l: "length ?m = bsize cdata" and p: "0 < bsize cdata"
    using assms(2,4) by (auto simp: sfex_ready_def fill_controldata_image length_control_block)
  have seek: "sys_lseek 0 (io\<lparr>locked_mem := ?m\<rparr>) = (True, io\<lparr>locked_mem := ?m, fpos := 0\<rparr>)"
    using assms(1) quiet_lseek[of "io\<lparr>locked_mem := ?m\<rparr>" 0] by simp
  have wr: "write_retry (bsize cdata) (io\<lparr>locked_mem := ?m, fpos := 0\<rparr>) =
      (Bytes (bsize cdata), io\<lparr>locked_mem := ?m, disk := put_region 0 ?m (disk io), fpos := bsize cdata\<rparr>)"
    using assms(1,3) l p quiet_write[of "io\<lparr>locked_mem := ?m, fpos := 0\<rparr>" "bsize cdata"] by simp
  show ?thesis
    by (simp add: write_controldata_def fill seek wr)
qed

lemma quiet_read_controldata:
  assumes "script io = []" and "unat (sector_size io) = length (locked_mem io)"
    and "unat (sector_size io) \<le> length (disk io)"
    and "parse_controldata (region 0 (unat (sector_size io)) (disk io)) cdata0 = Some (rc, cdata)"
  shows "read_controldata cdata0 io =
    (Ret rc, cdata, io\<lparr>locked_mem := region 0 (unat (sector_size io)) (disk io),
                       fpos := unat (sector_size io)\<rparr>)"
proof -
  have seek: "sys_lseek 0 io = (True, io\<lparr>fpos := 0\<rparr>)"
    using assms(1) quiet_lseek[of io 0] by simp
  have rd: "read_retry (unat (sector_size io)) (io\<lparr>fpos := 0\<rparr>) =
      (Bytes (unat (sector_size io)), io\<lparr>locked_mem := region 0 (unat (sector_size io)) (disk io),
                                          fpos := unat (sector_size io)\<rparr>)"
    using assms(1-3) quiet_read[of "io\<lparr>fpos := 0\<rparr>" "unat (sector_size io)"] by simp
  show ?thesis
    by (simp add: read_controldata_def seek rd assms(4))
qed

text \<open>The text \<open>blocksize\<close> and \<open>numlocks\<close> checks of \<open>lock_index_check\<close>, when it succeeds.\<close>

lemma lock_index_check_ok:
  assumes "lock_index_check cdata0 index io = (Ret 0, cdata, io')"
  shows "index \<le> numlocks cdata \<and> blocksize cdata = sector_size io' \<and> same_geometry io io'"
  using assms
  by (auto simp: lock_index_check_def split: prod.splits result.splits if_splits
      dest: read_controldata_geometry)

section \<open>Properties\<close>

text \<open>A device with one control block and two lock blocks of 512 bytes, for the examples.\<close>

definition demo_io :: sfex_io where
  "demo_io = \<lparr>disk = replicate 1536 NUL, fpos = 0, locked_mem = replicate 512 NUL,
              sector_size = 512, script = []\<rparr>"

definition demo_cdata :: sfex_controldata where
  "demo_cdata = \<lparr>magic = SFEX_MAGIC, version = 1, revision = 3, blocksize = 512, numlocks = 2\<rparr>"

definition demo_ldata :: sfex_lockdata where
  "demo_ldata = \<lparr>status = SFEX_STATUS_LOCK, count = 7, nodename = strncpy_bytes 256 ''node1''\<rparr>"

lemma demo_facts:
  "sfex_ready demo_cdata demo_io" "script demo_io = []" "wf_lockdata demo_ldata"
  "wf_controldata demo_cdata" "bsize demo_cdata = 512" "length (disk demo_io) = 1536"
  by (simp_all add: sfex_ready_def demo_cdata_def demo_io_def wf_lockdata_def demo_ldata_def
      wf_name_strncpy cstr_Cons SFEX_MAX_COUNT_def wf_controldata_def SFEX_VERSION_def)

lemma demo_range: "0 \<le> i \<Longrightarrow> i \<le> 2 \<Longrightarrow> lock_in_range demo_cdata i demo_io"
  using lock_offset_eq[of i demo_cdata] lock_pos_eq[of i demo_cdata] demo_facts(5,6)
  by (simp add: lock_in_range_def)

text \<open>
  C4. A lock record that was written successfully is read back unchanged: when \<open>write_lockdata\<close>
  returns 0 for a well-formed record, whatever calls failed and whatever other nodes wrote before,
  and nobody writes afterwards, \<open>read_lockdata\<close> of the same index returns 0 and yields exactly
  that status, counter and node name.
\<close>

theorem lockdata_roundtrip:
  assumes "sfex_ready cdata io" and "wf_lockdata ldata"
    and "write_lockdata cdata ldata index io = (Ret 0, io')" and "script io' = []"
  shows "\<exists>io''. read_lockdata cdata ldata0 index io' = (Ret 0, ldata, io'')"
proof -
  have range: "lock_in_range cdata index io"
    and "lock_on_disk cdata index (disk io') = lock_block (bsize cdata) ldata"
    using write_lockdata_ok[OF assms(3,1)] assms(1)
      region_put_same[of "lock_pos cdata index" "lock_block (bsize cdata) ldata"]
    by (auto simp: lock_on_disk_def lock_in_range_def sfex_ready_def length_lock_block
        dest: env_step_length)
  then have "parse_lockdata (lock_on_disk cdata index (disk io')) ldata0 = Some (0, ldata)"
    using parse_lock_block[OF assms(2), of "bsize cdata" "[]"] by simp
  then show ?thesis
    using quiet_read_lockdata assms(4) write_lockdata_geometry[OF assms(3)]
      ready_geometry[OF assms(1)] range_geometry[OF range] by blast
qed

theorem lockdata_roundtrip_witness:
  "\<exists>io' io''. write_lockdata demo_cdata demo_ldata 2 demo_io = (Ret 0, io') \<and>
     read_lockdata demo_cdata demo_ldata 2 io' = (Ret 0, demo_ldata, io'')"
proof -
  obtain io' where w: "write_lockdata demo_cdata demo_ldata 2 demo_io = (Ret 0, io')"
    and s: "script io' = []"
    using quiet_write_lockdata[OF demo_facts(2,1) demo_range[of 2], of demo_ldata] demo_facts(2) by auto
  then show ?thesis
    using lockdata_roundtrip[OF demo_facts(1,3) w s, of demo_ldata] by blast
qed

text \<open>
  C6. Writing one lock touches no other: after a successful \<open>write_lockdata\<close> of index \<open>i\<close>,
  the block of every other index \<open>j\<close>, the control block (\<open>j = 0\<close>) included, holds what it
  held before up to the writes other nodes made in the meantime.
\<close>

theorem lockdata_isolation:
  assumes "sfex_ready cdata io" and "bsize cdata \<le> 9999999"
    and "write_lockdata cdata ldata i io = (Ret 0, io')"
    and "0 \<le> i" "i \<le> 999" "0 \<le> j" "j \<le> 999" "i \<noteq> j"
  shows "\<exists>io0. env_step io io0 \<and> script io' = script io0 \<and>
           lock_on_disk cdata j (disk io') = lock_on_disk cdata j (disk io0)"
proof -
  let ?b = "bsize cdata" and ?n = "Suc (nat i)"
  obtain io0 where e: "env_step io io0" "script io' = script io0"
    and d: "disk io' = put_region (?b * nat i) (lock_block ?b ldata) (disk io0)"
    and "?b * nat i + ?b \<le> length (disk io)"
    using write_lockdata_ok[OF assms(3,1)] lock_pos_eq[OF assms(4,5,2)]
    by (auto simp: lock_in_range_def)
  then have r: "?b * ?n \<le> length (disk io0)" using env_step_length[OF e(1)] by simp
  have "nat i \<noteq> nat j" using assms(4,6,8) by simp
  then have "region (?b * nat j) ?b (disk io') = region (?b * nat j) ?b (disk io0)"
    unfolding d using r assms(1)
    by (intro disk_blocks.get_put_other[of ?b ?n]) (auto simp: sfex_ready_def length_lock_block)
  with e show ?thesis
    using lock_pos_eq[OF assms(6,7,2)] by (auto simp: lock_on_disk_def)
qed

theorem lockdata_isolation_witness:
  "\<exists>io' io0. write_lockdata demo_cdata demo_ldata 2 demo_io = (Ret 0, io') \<and> env_step demo_io io0 \<and>
     lock_on_disk demo_cdata 1 (disk io') = lock_on_disk demo_cdata 1 (disk io0)"
proof -
  obtain io' where w: "write_lockdata demo_cdata demo_ldata 2 demo_io = (Ret 0, io')"
    using quiet_write_lockdata[OF demo_facts(2,1) demo_range[of 2], of demo_ldata] by auto
  then show ?thesis
    using lockdata_isolation[OF demo_facts(1) _ w, of 1] demo_facts(5) by auto
qed

text \<open>
  C24. Control data round trip: on a quiet device that holds at least one block, \<open>write_controldata\<close>
  followed by \<open>read_controldata\<close> gives back every member (magic, version, revision, block size,
  number of locks) of a well-formed control record, so the documented value ranges fit their
  fields.
\<close>

theorem controldata_roundtrip:
  assumes "script io = []" and "sfex_ready cdata io" and "wf_controldata cdata"
    and "bsize cdata \<le> length (disk io)"
  shows "\<exists>io' io''. write_controldata cdata io = (Ret (), io') \<and>
           read_controldata cdata0 io' = (Ret 0, cdata, io'')"
proof -
  let ?b = "control_block (bsize cdata) cdata"
  have m: "length (magic cdata) = 4" and l: "length ?b = bsize cdata"
    using assms(2,3) by (auto simp: wf_controldata_def SFEX_MAGIC_def sfex_ready_def length_control_block)
  let ?io = "io\<lparr>disk := put_region 0 ?b (disk io), fpos := bsize cdata, locked_mem := ?b\<rparr>"
  have "write_controldata cdata io = (Ret (), ?io)"
    by (rule quiet_write_controldata[OF assms(1,2,4) m])
  moreover have r: "region 0 (bsize cdata) (disk ?io) = ?b"
    using region_put_same[of 0 ?b "disk io"] l assms(4) by simp
  then have "parse_controldata (region 0 (unat (sector_size ?io)) (disk ?io)) cdata0 = Some (0, cdata)"
    using parse_control_block[OF assms(3), of "bsize cdata" "[]" cdata0] assms(2)
    by (simp add: sfex_ready_def)
  then have "\<exists>io''. read_controldata cdata0 ?io = (Ret 0, cdata, io'')"
    using quiet_read_controldata[of ?io cdata0 0 cdata] assms l by (auto simp: sfex_ready_def)
  ultimately show ?thesis by blast
qed

theorem controldata_roundtrip_witness:
  "\<exists>io' io''. write_controldata demo_cdata demo_io = (Ret (), io') \<and>
     read_controldata (demo_cdata\<lparr>numlocks := 0\<rparr>) io' = (Ret 0, demo_cdata, io'')"
  using controldata_roundtrip[OF demo_facts(2,1,4)] demo_facts(5,6) by simp

text \<open>
  Memory safety of the meta-data operations under every environment: when the block size is
  the sector size and a sector holds at least the 261 bytes of a lock record, \<open>write_lockdata\<close>,
  \<open>read_lockdata\<close> and \<open>read_controldata\<close> end with 0 or -1 for any record, any index and
  any sequence of failing, short and interrupted calls; no access leaves \<open>locked_mem\<close>.
\<close>

theorem metadata_io_safe:
  assumes "sfex_ready cdata io"
  shows "fst (write_lockdata cdata ldata index io) \<in> {Ret 0, Ret (- 1)} \<and>
         fst (read_lockdata cdata ldata index io) \<in> {Ret 0, Ret (- 1)} \<and>
         fst (read_controldata cdata' io) \<in> {Ret 0, Ret (- 1)}"
  using write_lockdata_result[OF assms] read_lockdata_result[OF assms]
    read_controldata_result[of io cdata'] assms by (auto simp: sfex_ready_def)

theorem metadata_io_safe_witness:
  "fst (write_lockdata demo_cdata demo_ldata 1 demo_io) \<in> {Ret 0, Ret (- 1)} \<and>
   fst (read_lockdata demo_cdata demo_ldata 1 demo_io) \<in> {Ret 0, Ret (- 1)} \<and>
   fst (read_controldata demo_cdata demo_io) \<in> {Ret 0, Ret (- 1)}"
  by (rule metadata_io_safe) (rule demo_facts(1))

text \<open>
  The increment counter: repeated \<open>SFEX_NEXT_COUNT\<close> walks the values 0 to 999 in order and
  wraps to 0, so two readings of the counter are equal exactly when the number of updates between
  them is a multiple of 1000.
\<close>

theorem counter_period:
  assumes "0 \<le> c" and "c \<le> SFEX_MAX_COUNT"
  shows "(SFEX_NEXT_COUNT ^^ k) c = (c + int k) mod 1000 \<and>
         ((SFEX_NEXT_COUNT ^^ k) c = c \<longleftrightarrow> 1000 dvd k)"
proof -
  have "c = c mod 1000"
    using assms by (simp add: SFEX_MAX_COUNT_def)
  then have "(c + int k) mod 1000 = c \<longleftrightarrow> (c + int k) mod 1000 = c mod 1000"
    by simp
  also have "\<dots> \<longleftrightarrow> int 1000 dvd int k"
    by (simp add: mod_eq_dvd_iff)
  also have "\<dots> \<longleftrightarrow> 1000 dvd k"
    by (simp only: int_dvd_int_iff)
  finally have "(c + int k) mod 1000 = c \<longleftrightarrow> 1000 dvd k" .
  then show ?thesis using next_count_power[OF assms] by simp
qed

theorem counter_period_witness:
  "(SFEX_NEXT_COUNT ^^ 1000) 42 = 42 \<and> (SFEX_NEXT_COUNT ^^ 3) 998 = 1"
  using counter_period[of 42 1000] counter_period[of 998 3] by (simp add: SFEX_MAX_COUNT_def)

text \<open>
  A short write is noticed for lock data and not for control data: when \<open>write\<close> moves fewer
  bytes than the block size, \<open>write_lockdata\<close> returns -1, while \<open>write_controldata\<close> returns
  normally although only a part of the block reached the disk.
\<close>

theorem short_write_detection:
  assumes "sfex_ready cdata io" and "lock_in_range cdata index io" and "length (magic cdata) = 4"
    and "script io = [([], Done), ([], Short m)]" and "m < bsize cdata"
  shows "fst (write_lockdata cdata ldata index io) = Ret (- 1) \<and>
         fst (write_controldata cdata io) = Ret () \<and>
         disk (snd (write_controldata cdata io)) =
           put_region 0 (take m (control_block (bsize cdata) cdata)) (disk io)"
proof -
  let ?l = "lock_block (bsize cdata) ldata" and ?c = "control_block (bsize cdata) cdata"
  have f: "fill_lockdata (blocksize cdata) ldata (locked_mem io) = Some ?l"
    "fill_controldata cdata (locked_mem io) = Some ?c"
    and l: "length ?l = bsize cdata" "length ?c = bsize cdata"
    using assms(1,3) by (auto simp: sfex_ready_def fill_lockdata_image fill_controldata_image
        length_lock_block length_control_block)
  have r: "bsize cdata \<le> length (disk io) - lock_pos cdata index" "bsize cdata \<le> length (disk io)"
    "0 \<le> lock_offset cdata index" "0 < length (disk io) - lock_pos cdata index" "0 < length (disk io)"
    using assms(2,5) by (auto simp: lock_in_range_def)
  have "fst (write_lockdata cdata ldata index io) = Ret (- 1)"
    using r l assms(4,5)
    by (simp add: write_lockdata_def f sys_lseek_def next_call_def write_retry.simps sys_write_def
        transfer_out_def lock_pos_def)
  moreover have "fst (write_controldata cdata io) = Ret () \<and>
      disk (snd (write_controldata cdata io)) = put_region 0 (take m ?c) (disk io)"
    using r l assms(4,5)
    by (simp add: write_controldata_def f sys_lseek_def next_call_def write_retry.simps sys_write_def
        transfer_out_def put_region_def)
  ultimately show ?thesis by simp
qed

theorem short_write_detection_witness:
  "fst (write_lockdata demo_cdata demo_ldata 1 (demo_io\<lparr>script := [([], Done), ([], Short 100)]\<rparr>)) = Ret (- 1) \<and>
   fst (write_controldata demo_cdata (demo_io\<lparr>script := [([], Done), ([], Short 100)]\<rparr>)) = Ret ()"
proof -
  let ?io = "demo_io\<lparr>script := [([], Done), ([], Short 100)]\<rparr>"
  have "sfex_ready demo_cdata ?io" "lock_in_range demo_cdata 1 ?io"
    using demo_facts(1) demo_range[of 1] by (simp_all add: sfex_ready_def lock_in_range_def)
  then show ?thesis
    using short_write_detection[of demo_cdata ?io 1 100 demo_ldata] demo_facts(5)
    by (simp add: demo_cdata_def SFEX_MAGIC_def)
qed

end
