(* ===== verification/Sfex_Daemon.thy ===== *)
theory Sfex_Daemon
  imports Sfex_Lib
begin

text \<open>
  The lock daemon \<^verbatim>\<open>src/tools/sfex_daemon.c\<close>: its static variables as one record, and one
  definition per function.  \<open>acquire_lock\<close> is the composition of its four blocks (check of the
  current holder, reservation, collision detection, extension).  Sleeping advances \<open>clock\<close>; what
  other nodes write during a sleep is in the device script, ahead of the next system call.  The
  commands \<open>error_todo\<close> starts and the bytes \<open>failure_todo\<close> writes to
  \<^verbatim>\<open>/proc/sysrq-trigger\<close> are logged in \<open>spawned\<close> and \<open>sysrq\<close>.
\<close>

record sfex_daemon =
  lock_index :: int
  collision_timeout :: nat
  lock_timeout :: nat
  monitor_interval :: nat
  cdata :: sfex_controldata
  ldata :: sfex_lockdata
  ldata_new :: sfex_lockdata
  own_name :: string
  rsc_id :: string
  io :: sfex_io
  clock :: nat
  fork_ok :: bool
  spawned :: "string list list"
  sysrq_ok :: bool
  sysrq :: string

text \<open>The calls of the library with the static variables as arguments.\<close>

definition read_ldata :: "sfex_daemon \<Rightarrow> int result \<times> sfex_daemon" where
  "read_ldata st =
     (case read_lockdata (cdata st) (ldata st) (lock_index st) (io st) of (r, l, d) \<Rightarrow>
        (r, st\<lparr>ldata := l, io := d\<rparr>))"

definition read_ldata_new :: "sfex_daemon \<Rightarrow> int result \<times> sfex_daemon" where
  "read_ldata_new st =
     (case read_lockdata (cdata st) (ldata_new st) (lock_index st) (io st) of (r, l, d) \<Rightarrow>
        (r, st\<lparr>ldata_new := l, io := d\<rparr>))"

definition write_ldata :: "sfex_daemon \<Rightarrow> int result \<times> sfex_daemon" where
  "write_ldata st =
     (case write_lockdata (cdata st) (ldata st) (lock_index st) (io st) of (r, d) \<Rightarrow>
        (r, st\<lparr>io := d\<rparr>))"

definition sleep_for :: "nat \<Rightarrow> sfex_daemon \<Rightarrow> sfex_daemon" where
  "sleep_for t st = st\<lparr>clock := clock st + t\<rparr>"

definition bump_count :: "sfex_daemon \<Rightarrow> sfex_daemon" where
  "bump_count st = st\<lparr>ldata := (ldata st)\<lparr>count := SFEX_NEXT_COUNT (count (ldata st))\<rparr>\<rparr>"

section \<open>Acquiring the lock\<close>

definition held_by_other :: "sfex_daemon \<Rightarrow> bool" where
  "held_by_other st \<longleftrightarrow>
     status (ldata st) = SFEX_STATUS_LOCK \<and> \<not> strncmp_eq 256 (own_name st) (nodename (ldata st))"

definition acquire_check :: "sfex_daemon \<Rightarrow> unit result \<times> sfex_daemon" where
  "acquire_check = and_then read_ldata (\<lambda>rc st.
     if rc = - 1 then (Exit EXIT_FAILURE, st)
     else if held_by_other st then
       and_then read_ldata_new (\<lambda>_ st.
         if count (ldata st) \<noteq> count (ldata_new st) then (Exit 2, st) else (Ret (), st))
         (sleep_for (lock_timeout st) st)
     else (Ret (), st))"

definition acquire_reserve :: "sfex_daemon \<Rightarrow> unit result \<times> sfex_daemon" where
  "acquire_reserve st =
     (let l = ldata st;
          st1 = st\<lparr>ldata := l\<lparr>status := SFEX_STATUS_LOCK, count := SFEX_NEXT_COUNT (count l),
                             nodename := strncpy_bytes 255 (own_name st) @ drop 255 (nodename l)\<rparr>\<rparr>
      in and_then write_ldata (\<lambda>rc st. if rc = - 1 then (Exit EXIT_FAILURE, st) else (Ret (), st)) st1)"

definition acquire_detect :: "sfex_daemon \<Rightarrow> unit result \<times> sfex_daemon" where
  "acquire_detect st =
     and_then read_ldata_new (\<lambda>_ st.
       if \<not> strncmp_eq 256 (nodename (ldata st)) (nodename (ldata_new st)) then (Exit 2, st)
       else (Ret (), st))
     (sleep_for (collision_timeout st) st)"

definition acquire_extend :: "sfex_daemon \<Rightarrow> unit result \<times> sfex_daemon" where
  "acquire_extend st =
     and_then write_ldata (\<lambda>rc st. if rc = - 1 then (Exit EXIT_FAILURE, st) else (Ret (), st))
       (bump_count st)"

definition acquire_lock :: "sfex_daemon \<Rightarrow> unit result \<times> sfex_daemon" where
  "acquire_lock =
     and_then (and_then (and_then acquire_check (\<lambda>_. acquire_reserve)) (\<lambda>_. acquire_detect))
       (\<lambda>_. acquire_extend)"

section \<open>Error handling\<close>

text \<open>
  In \<open>error_todo\<close> the parent always exits; when \<open>fork\<close> succeeds the child runs
  \<^verbatim>\<open>crm_resource\<close>.
\<close>

definition error_todo :: "sfex_daemon \<Rightarrow> unit result \<times> sfex_daemon" where
  "error_todo st =
     (Exit EXIT_FAILURE,
      if fork_ok st
      then st\<lparr>spawned := spawned st @ [[''crm_resource'', ''-F'', ''-r'', rsc_id st, ''--node'', own_name st]]\<rparr>
      else st)"

definition failure_todo :: "sfex_daemon \<Rightarrow> unit result \<times> sfex_daemon" where
  "failure_todo st =
     (Exit EXIT_FAILURE, if sysrq_ok st then st\<lparr>sysrq := sysrq st @ [CHR ''b'', CHR 0x0A]\<rparr> else st)"

section \<open>Updating and releasing the lock\<close>

definition not_own_lock :: "sfex_daemon \<Rightarrow> bool" where
  "not_own_lock st \<longleftrightarrow>
     status (ldata st) \<noteq> SFEX_STATUS_LOCK \<or> \<not> strncmp_eq 256 (nodename (ldata st)) (own_name st)"

definition update_lock :: "sfex_daemon \<Rightarrow> unit result \<times> sfex_daemon" where
  "update_lock = and_then read_ldata (\<lambda>rc st.
     if rc = - 1 then error_todo st
     else if not_own_lock st then failure_todo st
     else and_then write_ldata (\<lambda>rc st. if rc = - 1 then error_todo st else (Ret (), st))
            (bump_count st))"

definition release_lock :: "sfex_daemon \<Rightarrow> unit result \<times> sfex_daemon" where
  "release_lock = and_then read_ldata (\<lambda>rc st.
     if rc = - 1 then (Exit EXIT_FAILURE, st)
     else if not_own_lock st then (Exit EXIT_FAILURE, st)
     else and_then write_ldata
            (\<lambda>rc st. if rc = - 1 then (Exit EXIT_FAILURE, st) else (Ret (), st))
            (st\<lparr>ldata := (ldata st)\<lparr>status := SFEX_STATUS_UNLOCK\<rparr>\<rparr>))"

definition quit_handler :: "sfex_daemon \<Rightarrow> unit result \<times> sfex_daemon" where
  "quit_handler = and_then release_lock (\<lambda>_ st. (Exit EXIT_SUCCESS, st))"

text \<open>The endless loop of \<open>main\<close>, for a number of rounds.\<close>

fun monitor_loop :: "nat \<Rightarrow> sfex_daemon \<Rightarrow> unit result \<times> sfex_daemon" where
  "monitor_loop 0 st = (Ret (), st)"
| "monitor_loop (Suc n) st =
     and_then update_lock (\<lambda>_. monitor_loop n) (sleep_for (monitor_interval st) st)"

section \<open>The main program\<close>

text \<open>The environment of a start: what the system answers besides the device.\<close>

record sfex_env =
  uname_node :: "string option"
  strdup_ok :: bool
  dev_contents :: "char list"
  dev_sector :: "32 word"
  dev_script :: "env_event list"
  sysrq_opens :: bool
  sigaction_ok :: bool
  daemonizes :: bool
  env_fork_ok :: bool
  env_sysrq_ok :: bool

definition zero_controldata :: sfex_controldata where
  "zero_controldata = \<lparr>magic = replicate 4 NUL, version = 0, revision = 0, blocksize = 0, numlocks = 0\<rparr>"

definition zero_lockdata :: sfex_lockdata where
  "zero_lockdata = \<lparr>status = NUL, count = 0, nodename = replicate 256 NUL\<rparr>"

definition initial_daemon :: "sfex_env \<Rightarrow> string \<Rightarrow> sfex_daemon" where
  "initial_daemon env name =
     \<lparr>lock_index = 1, collision_timeout = 1, lock_timeout = 60, monitor_interval = 10,
      cdata = zero_controldata, ldata = zero_lockdata, ldata_new = zero_lockdata,
      own_name = name, rsc_id = ''sfex'',
      io = \<lparr>disk = dev_contents env, fpos = 0, locked_mem = [], sector_size = 0,
            script = dev_script env\<rparr>,
      clock = 0, fork_ok = env_fork_ok env, spawned = [], sysrq_ok = env_sysrq_ok env, sysrq = []\<rparr>"

text \<open>One value returned by \<open>getopt (argc, argv, "hi:c:t:m:n:r:")\<close>.\<close>

definition daemon_option :: "char \<times> string \<Rightarrow> sfex_daemon \<Rightarrow> unit result \<times> sfex_daemon" where
  "daemon_option p st =
     (let c = fst p; optarg = snd p; l = strtoul10 optarg; bad = (l < 1 \<or> l > nat INT_MAX) in
      if c = CHR ''h'' then (Exit EXIT_SUCCESS, st)
      else if c = CHR ''i'' then
        (if l < SFEX_MIN_NUMLOCKS \<or> l > SFEX_MAX_NUMLOCKS then (Exit 4, st)
         else (Ret (), st\<lparr>lock_index := int l\<rparr>))
      else if c = CHR ''c'' then
        (if bad then (Exit 4, st) else (Ret (), st\<lparr>collision_timeout := l\<rparr>))
      else if c = CHR ''m'' then
        (if bad then (Exit 4, st) else (Ret (), st\<lparr>monitor_interval := l\<rparr>))
      else if c = CHR ''t'' then
        (if bad then (Exit 4, st) else (Ret (), st\<lparr>lock_timeout := l\<rparr>))
      else if c = CHR ''n'' then
        (if length optarg > SFEX_MAX_NODENAME then (Exit EXIT_FAILURE, st)
         else (Ret (), st\<lparr>own_name := optarg\<rparr>))
      else if c = CHR ''r'' then (Ret (), st\<lparr>rsc_id := optarg\<rparr>)
      else if c = CHR ''?'' then (Exit 4, st)
      else (Ret (), st))"

fun daemon_options :: "(char \<times> string) list \<Rightarrow> sfex_daemon \<Rightarrow> unit result \<times> sfex_daemon" where
  "daemon_options [] st = (Ret (), st)"
| "daemon_options (p # ps) st = and_then (daemon_option p) (\<lambda>_. daemon_options ps) st"

text \<open>From the options to the acquired lock.\<close>

definition daemon_start :: "sfex_env \<Rightarrow> string list \<Rightarrow> sfex_daemon \<Rightarrow> unit result \<times> sfex_daemon" where
  "daemon_start env operands st =
     (if operands = [] then (Exit EXIT_FAILURE, st)
      else if length operands > 1 then (Exit EXIT_FAILURE, st)
      else
        case prepare_lock (dev_contents env) (dev_sector env) (dev_script env) of (r, d) \<Rightarrow>
          let st1 = st\<lparr>io := d\<rparr> in
          case r of
            Exit e \<Rightarrow> (Exit e, st1)
          | Fault \<Rightarrow> (Fault, st1)
          | Ret _ \<Rightarrow>
              if \<not> sysrq_opens env then (Exit EXIT_FAILURE, st1)
              else case lock_index_check (cdata st1) (lock_index st1) (io st1) of (r2, cd, d2) \<Rightarrow>
                let st2 = st1\<lparr>cdata := cd, io := d2\<rparr> in
                case r2 of
                  Exit e \<Rightarrow> (Exit e, st2)
                | Fault \<Rightarrow> (Fault, st2)
                | Ret ret \<Rightarrow>
                    if ret = - 1 then (Exit EXIT_FAILURE, st2)
                    else if \<not> sigaction_ok env then (Exit EXIT_FAILURE, st2)
                    else and_then acquire_lock (\<lambda>_ st3.
                           if \<not> daemonizes env
                           then and_then release_lock (\<lambda>_ st4. (Exit EXIT_FAILURE, st4)) st3
                           else (Ret (), st3)) st2)"

definition sfex_daemon_main ::
  "sfex_env \<Rightarrow> string list \<Rightarrow> nat \<Rightarrow> unit result \<times> sfex_daemon" where
  "sfex_daemon_main env args rounds =
     (case get_nodename (uname_node env) (strdup_ok env) of
        Exit e \<Rightarrow> (Exit e, initial_daemon env [])
      | Fault \<Rightarrow> (Fault, initial_daemon env [])
      | Ret name \<Rightarrow>
          (case getopt_all ''hi:c:t:m:n:r:'' args of (opts, operands) \<Rightarrow>
             and_then (and_then (daemon_options opts) (\<lambda>_. daemon_start env operands))
               (\<lambda>_. monitor_loop rounds) (initial_daemon env name)))"

section \<open>The daemon on a quiet device\<close>

abbreviation lock_area :: "sfex_daemon \<Rightarrow> char list" where
  "lock_area st \<equiv> lock_on_disk (cdata st) (lock_index st) (disk (io st))"

abbreviation ready :: "sfex_daemon \<Rightarrow> bool" where
  "ready st \<equiv> sfex_ready (cdata st) (io st)"

text \<open>
  Nobody else uses the disk, no call fails, and the lock record on the disk is \<open>l\<close>.
\<close>

definition quiet_with :: "sfex_lockdata \<Rightarrow> sfex_daemon \<Rightarrow> bool" where
  "quiet_with l st \<longleftrightarrow>
     script (io st) = [] \<and> ready st \<and> lock_in_range (cdata st) (lock_index st) (io st) \<and>
     lock_area st = lock_block (bsize (cdata st)) l"

definition valid_name :: "string \<Rightarrow> bool" where
  "valid_name s \<longleftrightarrow> c_string s \<and> length s \<le> SFEX_MAX_NODENAME"

lemma quiet_frame:
  "quiet_with l (st\<lparr>ldata := x\<rparr>) = quiet_with l st" "quiet_with l (sleep_for t st) = quiet_with l st"
  "quiet_with l (bump_count st) = quiet_with l st" "quiet_with l (st\<lparr>ldata_new := x\<rparr>) = quiet_with l st"
  by (simp_all add: quiet_with_def sleep_for_def bump_count_def)

lemma quiet_read_lock:
  assumes "quiet_with l st" and "wf_lockdata l"
  shows "\<exists>d. read_lockdata (cdata st) x (lock_index st) (io st) = (Ret 0, l, d) \<and>
           quiet_with l (st\<lparr>io := d\<rparr>)"
proof -
  have q: "script (io st) = []" "ready st" "lock_in_range (cdata st) (lock_index st) (io st)"
    and b: "lock_area st = lock_block (bsize (cdata st)) l"
    using assms(1) by (auto simp: quiet_with_def)
  have "parse_lockdata (lock_area st) x = Some (0, l)"
    using parse_lock_block[OF assms(2), of _ "[]"] by (simp add: b)
  note r = quiet_read_lockdata[OF q this]
  have "length (lock_area st) = length (locked_mem (io st))"
    using q(2) by (simp add: b length_lock_block sfex_ready_def)
  then have "quiet_with l (st\<lparr>io := (io st)\<lparr>locked_mem := lock_area st,
      fpos := lock_pos (cdata st) (lock_index st) + bsize (cdata st)\<rparr>\<rparr>)"
    using q b by (simp add: quiet_with_def sfex_ready_def lock_in_range_def)
  then show ?thesis using r by blast
qed

lemma quiet_read_ldata:
  assumes "quiet_with l st" and "wf_lockdata l"
  shows "\<exists>d. read_ldata st = (Ret 0, st\<lparr>ldata := l, io := d\<rparr>) \<and> quiet_with l (st\<lparr>ldata := l, io := d\<rparr>)"
  using quiet_read_lock[OF assms, of "ldata st"] by (auto simp: read_ldata_def quiet_with_def)

lemma quiet_read_ldata_new:
  assumes "quiet_with l st" and "wf_lockdata l"
  shows "\<exists>d. read_ldata_new st = (Ret 0, st\<lparr>ldata_new := l, io := d\<rparr>) \<and>
           quiet_with l (st\<lparr>ldata_new := l, io := d\<rparr>)"
  using quiet_read_lock[OF assms, of "ldata_new st"] by (auto simp: read_ldata_new_def quiet_with_def)

lemma quiet_write_ldata:
  assumes "quiet_with l st"
  shows "\<exists>d. write_ldata st = (Ret 0, st\<lparr>io := d\<rparr>) \<and> quiet_with (ldata st) (st\<lparr>io := d\<rparr>)"
proof -
  have q: "script (io st) = []" "ready st" "lock_in_range (cdata st) (lock_index st) (io st)"
    using assms by (auto simp: quiet_with_def)
  let ?b = "lock_block (bsize (cdata st)) (ldata st)" and ?p = "lock_pos (cdata st) (lock_index st)"
  have l: "length ?b = bsize (cdata st)" using q(2) by (simp add: length_lock_block sfex_ready_def)
  have fit: "?p + length ?b \<le> length (disk (io st))" using q(3) l by (simp add: lock_in_range_def)
  have "region ?p (bsize (cdata st)) (put_region ?p ?b (disk (io st))) = ?b"
    using region_put_same[OF fit] l by simp
  then have "quiet_with (ldata st) (st\<lparr>io := (io st)\<lparr>disk := put_region ?p ?b (disk (io st)),
      fpos := ?p + bsize (cdata st), locked_mem := ?b\<rparr>\<rparr>)"
    using q fit l by (simp add: quiet_with_def lock_on_disk_def sfex_ready_def lock_in_range_def)
  then show ?thesis
    using quiet_write_lockdata[OF q, of "ldata st"] by (auto simp: write_ldata_def)
qed

lemma wf_lockdata_bump:
  "wf_lockdata l \<Longrightarrow> wf_lockdata (l\<lparr>count := SFEX_NEXT_COUNT (count l)\<rparr>)"
  using SFEX_NEXT_COUNT_range by (simp add: wf_lockdata_def)

lemma wf_lockdata_status:
  "wf_lockdata l \<Longrightarrow> s = SFEX_STATUS_LOCK \<or> s = SFEX_STATUS_UNLOCK \<Longrightarrow> wf_lockdata (l\<lparr>status := s\<rparr>)"
  by (auto simp: wf_lockdata_def)

lemma wf_lockdata_name: "wf_lockdata l \<Longrightarrow> wf_name (nodename l)"
  by (simp add: wf_lockdata_def)

text \<open>The node name \<open>acquire_lock\<close> stores is the own name, null-padded.\<close>

lemma own_name_stored:
  assumes "valid_name n" and "wf_name b"
  shows "strncpy_bytes 255 n @ drop 255 b = strncpy_bytes 256 n"
proof -
  have "256 - length (cstr b) = Suc (255 - length (cstr b))" and l: "length (cstr b) \<le> 255"
    using assms(2) by (auto simp: wf_name_def)
  then have "b = (cstr b @ replicate (255 - length (cstr b)) NUL) @ [NUL]"
    using wf_name_eq[OF assms(2)] by (simp add: replicate_append_same)
  then have "drop 255 b = drop 255 ((cstr b @ replicate (255 - length (cstr b)) NUL) @ [NUL])"
    by simp
  also have "\<dots> = [NUL]"
    using l by simp
  finally have d: "drop 255 b = [NUL]" .
  have n: "cstr n = n" "length n \<le> 255"
    using assms(1) by (simp_all add: valid_name_def SFEX_MAX_NODENAME_def)
  then have "256 - length n = Suc (255 - length n)" by simp
  then show ?thesis
    using n d by (simp add: strncpy_bytes_def replicate_append_same)
qed

text \<open>What comparing the stored names decides.\<close>

lemma name_compare:
  assumes "valid_name n" and "wf_name b"
  shows "strncmp_eq 256 n b \<longleftrightarrow> cstr b = n" and "strncmp_eq 256 b n \<longleftrightarrow> cstr b = n"
proof -
  have "length (cstr n) \<le> 256" "length (cstr b) \<le> 256" "cstr n = n"
    using assms by (auto simp: valid_name_def wf_name_def SFEX_MAX_NODENAME_def)
  then show "strncmp_eq 256 n b \<longleftrightarrow> cstr b = n" and "strncmp_eq 256 b n \<longleftrightarrow> cstr b = n"
    by (auto simp: strncmp_eq_cstr)
qed

definition taken_by :: "string \<Rightarrow> sfex_lockdata \<Rightarrow> sfex_lockdata" where
  "taken_by n l = l\<lparr>status := SFEX_STATUS_LOCK, count := SFEX_NEXT_COUNT (count l),
                    nodename := strncpy_bytes 256 n\<rparr>"

lemma wf_taken_by: "wf_lockdata l \<Longrightarrow> valid_name n \<Longrightarrow> wf_lockdata (taken_by n l)"
  using SFEX_NEXT_COUNT_range
  by (simp add: wf_lockdata_def taken_by_def valid_name_def SFEX_MAX_NODENAME_def wf_name_strncpy)

definition other_holds :: "string \<Rightarrow> sfex_lockdata \<Rightarrow> bool" where
  "other_holds n l \<longleftrightarrow> status l = SFEX_STATUS_LOCK \<and> cstr (nodename l) \<noteq> n"

text \<open>The configuration and the logs, which acquiring a lock leaves alone.\<close>

definition same_config :: "sfex_daemon \<Rightarrow> sfex_daemon \<Rightarrow> bool" where
  "same_config st st' \<longleftrightarrow>
     lock_index st' = lock_index st \<and> collision_timeout st' = collision_timeout st \<and>
     lock_timeout st' = lock_timeout st \<and> monitor_interval st' = monitor_interval st \<and>
     cdata st' = cdata st \<and> own_name st' = own_name st \<and> rsc_id st' = rsc_id st \<and>
     fork_ok st' = fork_ok st \<and> spawned st' = spawned st \<and>
     sysrq_ok st' = sysrq_ok st \<and> sysrq st' = sysrq st"

lemma same_config_trans [trans]: "same_config a b \<Longrightarrow> same_config b c \<Longrightarrow> same_config a c"
  by (simp add: same_config_def)

lemma same_config_frame [simp]:
  "same_config st (st\<lparr>ldata := x\<rparr>)" "same_config st (st\<lparr>ldata := x, io := d\<rparr>)"
  "same_config st (st\<lparr>ldata_new := x, io := d\<rparr>)" "same_config st (st\<lparr>io := d\<rparr>)"
  "same_config st (sleep_for t st)" "same_config st (bump_count st)"
  by (simp_all add: same_config_def sleep_for_def bump_count_def)

lemma quiet_acquire_check:
  assumes "quiet_with l st" and "wf_lockdata l" and "valid_name (own_name st)"
  shows "\<exists>st'. acquire_check st = (Ret (), st') \<and> quiet_with l st' \<and> ldata st' = l \<and>
    same_config st st' \<and>
    clock st' = clock st + (if other_holds (own_name st) l then lock_timeout st else 0)"
proof -
  obtain d where r: "read_ldata st = (Ret 0, st\<lparr>ldata := l, io := d\<rparr>)"
    and q: "quiet_with l (st\<lparr>ldata := l, io := d\<rparr>)"
    using quiet_read_ldata[OF assms(1,2)] by blast
  let ?st = "st\<lparr>ldata := l, io := d\<rparr>" and ?sl = "sleep_for (lock_timeout st) (st\<lparr>ldata := l, io := d\<rparr>)"
  have h: "held_by_other ?st \<longleftrightarrow> other_holds (own_name st) l"
    using name_compare[OF assms(3) wf_lockdata_name[OF assms(2)]]
    by (simp add: held_by_other_def other_holds_def)
  show ?thesis
  proof (cases "held_by_other ?st")
    case False
    then have "acquire_check st = (Ret (), ?st)" using r by (simp add: acquire_check_def)
    with False h q show ?thesis by (intro exI[of _ ?st]) simp
  next
    case True
    have "quiet_with l ?sl" using q by (simp add: quiet_frame)
    from quiet_read_ldata_new[OF this assms(2)]
    obtain d2 where r2: "read_ldata_new ?sl = (Ret 0, ?sl\<lparr>ldata_new := l, io := d2\<rparr>)"
      and q2: "quiet_with l (?sl\<lparr>ldata_new := l, io := d2\<rparr>)"
      by blast
    have "acquire_check st = (Ret (), ?sl\<lparr>ldata_new := l, io := d2\<rparr>)"
      using r True r2 by (simp add: acquire_check_def sleep_for_def)
    with True h q2 show ?thesis
      by (intro exI[of _ "?sl\<lparr>ldata_new := l, io := d2\<rparr>"]) (simp add: sleep_for_def same_config_def)
  qed
qed

lemma quiet_acquire_reserve:
  assumes "quiet_with l st" and "wf_lockdata (ldata st)" and "valid_name (own_name st)"
  shows "\<exists>st'. acquire_reserve st = (Ret (), st') \<and> ldata st' = taken_by (own_name st) (ldata st) \<and>
    quiet_with (ldata st') st' \<and> same_config st st' \<and> clock st' = clock st"
proof -
  let ?st = "st\<lparr>ldata := taken_by (own_name st) (ldata st)\<rparr>"
  have "quiet_with l ?st" using assms(1) by (simp add: quiet_frame)
  then obtain d where w: "write_ldata ?st = (Ret 0, ?st\<lparr>io := d\<rparr>)"
    and q: "quiet_with (ldata ?st) (?st\<lparr>io := d\<rparr>)"
    using quiet_write_ldata by blast
  have "acquire_reserve st = (Ret (), ?st\<lparr>io := d\<rparr>)"
    using w own_name_stored[OF assms(3) wf_lockdata_name[OF assms(2)]]
    by (simp add: acquire_reserve_def taken_by_def Let_def)
  with q show ?thesis by (intro exI[of _ "?st\<lparr>io := d\<rparr>"]) simp
qed

lemma quiet_acquire_detect:
  assumes "quiet_with (ldata st) st" and "wf_lockdata (ldata st)"
  shows "\<exists>st'. acquire_detect st = (Ret (), st') \<and> ldata st' = ldata st \<and> quiet_with (ldata st') st' \<and>
    same_config st st' \<and> clock st' = clock st + collision_timeout st"
proof -
  let ?l = "ldata st" and ?st = "sleep_for (collision_timeout st) st"
  have "quiet_with ?l ?st" using assms(1) by (simp add: quiet_frame)
  then obtain d where r: "read_ldata_new ?st = (Ret 0, ?st\<lparr>ldata_new := ?l, io := d\<rparr>)"
    and q: "quiet_with ?l (?st\<lparr>ldata_new := ?l, io := d\<rparr>)"
    using quiet_read_ldata_new assms(2) by blast
  have "acquire_detect st = (Ret (), ?st\<lparr>ldata_new := ?l, io := d\<rparr>)"
    using r by (simp add: acquire_detect_def strncmp_eq_iff sleep_for_def)
  with q show ?thesis
    by (intro exI[of _ "?st\<lparr>ldata_new := ?l, io := d\<rparr>"]) (simp add: sleep_for_def same_config_def)
qed

lemma quiet_bump_write:
  assumes "quiet_with l st"
  shows "\<exists>st'. write_ldata (bump_count st) = (Ret 0, st') \<and>
    ldata st' = (ldata st)\<lparr>count := SFEX_NEXT_COUNT (count (ldata st))\<rparr> \<and>
    quiet_with (ldata st') st' \<and> same_config st st' \<and> clock st' = clock st"
proof -
  have "quiet_with l (bump_count st)" using assms by (simp add: quiet_frame)
  from quiet_write_ldata[OF this] show ?thesis
    by (auto simp: bump_count_def same_config_def)
qed

lemma quiet_acquire_lock:
  assumes "quiet_with l st" and "wf_lockdata l" and "valid_name (own_name st)"
  shows "\<exists>st'. acquire_lock st = (Ret (), st') \<and>
    ldata st' = (taken_by (own_name st) l)\<lparr>count := SFEX_NEXT_COUNT (SFEX_NEXT_COUNT (count l))\<rparr> \<and>
    quiet_with (ldata st') st' \<and> same_config st st' \<and>
    clock st' = clock st + (if other_holds (own_name st) l then lock_timeout st else 0)
                + collision_timeout st"
proof -
  let ?t = "taken_by (own_name st) l"
  obtain st1 where c1: "acquire_check st = (Ret (), st1)" and f1: "quiet_with l st1" "ldata st1 = l"
    "same_config st st1"
    "clock st1 = clock st + (if other_holds (own_name st) l then lock_timeout st else 0)"
    using quiet_acquire_check[OF assms] by blast
  have o1: "own_name st1 = own_name st" "collision_timeout st1 = collision_timeout st"
    using f1(3) by (simp_all add: same_config_def)
  obtain st2 where c2: "acquire_reserve st1 = (Ret (), st2)" and f2: "ldata st2 = ?t"
    "quiet_with (ldata st2) st2" "same_config st1 st2" "clock st2 = clock st1"
    using quiet_acquire_reserve[OF f1(1)] f1(2) o1 assms(2,3) by auto
  obtain st3 where c3: "acquire_detect st2 = (Ret (), st3)" and f3: "ldata st3 = ?t"
    "quiet_with (ldata st3) st3" "same_config st2 st3" "clock st3 = clock st2 + collision_timeout st2"
    using quiet_acquire_detect[OF f2(2)] f2(1) wf_taken_by[OF assms(2,3)] by auto
  obtain st4 where w: "write_ldata (bump_count st3) = (Ret 0, st4)"
    and f4: "ldata st4 = ?t\<lparr>count := SFEX_NEXT_COUNT (count ?t)\<rparr>"
      "quiet_with (ldata st4) st4" "same_config st3 st4" "clock st4 = clock st3"
    using quiet_bump_write[OF f3(2)] f3(1) by auto
  have "acquire_lock st = (Ret (), st4)"
    using c1 c2 c3 w by (simp add: acquire_lock_def acquire_extend_def)
  moreover have "collision_timeout st2 = collision_timeout st"
    using f2(3) o1 by (simp add: same_config_def)
  moreover have "same_config st st4"
    using f1(3) f2(3) f3(3) f4(3) by (blast intro: same_config_trans)
  ultimately show ?thesis
    using f1 f2 f3 f4 by (intro exI[of _ st4]) (simp add: taken_by_def)
qed

lemma quiet_update_own:
  assumes "quiet_with l st" and "wf_lockdata l" and "valid_name (own_name st)"
    and "status l = SFEX_STATUS_LOCK" and "cstr (nodename l) = own_name st"
  shows "\<exists>st'. update_lock st = (Ret (), st') \<and>
    ldata st' = l\<lparr>count := SFEX_NEXT_COUNT (count l)\<rparr> \<and> quiet_with (ldata st') st' \<and>
    same_config st st' \<and> clock st' = clock st"
proof -
  obtain d where r: "read_ldata st = (Ret 0, st\<lparr>ldata := l, io := d\<rparr>)"
    and q: "quiet_with l (st\<lparr>ldata := l, io := d\<rparr>)"
    using quiet_read_ldata[OF assms(1,2)] by blast
  have "\<not> not_own_lock (st\<lparr>ldata := l, io := d\<rparr>)"
    using name_compare[OF assms(3) wf_lockdata_name[OF assms(2)]] assms(4,5)
    by (simp add: not_own_lock_def)
  moreover obtain st' where w: "write_ldata (bump_count (st\<lparr>ldata := l, io := d\<rparr>)) = (Ret 0, st')"
    and f: "ldata st' = l\<lparr>count := SFEX_NEXT_COUNT (count l)\<rparr>" "quiet_with (ldata st') st'"
      "same_config (st\<lparr>ldata := l, io := d\<rparr>) st'" "clock st' = clock st"
    using quiet_bump_write[OF q] by auto
  ultimately have "update_lock st = (Ret (), st')"
    using r by (simp add: update_lock_def)
  moreover have "same_config st st'" using f(3) same_config_trans same_config_frame(2) by blast
  ultimately show ?thesis using f by auto
qed

lemma quiet_monitor_loop:
  assumes "quiet_with l st" and "wf_lockdata l" and "valid_name (own_name st)"
    and "status l = SFEX_STATUS_LOCK" and "cstr (nodename l) = own_name st"
  shows "\<exists>st'. monitor_loop n st = (Ret (), st') \<and>
    quiet_with (l\<lparr>count := (SFEX_NEXT_COUNT ^^ n) (count l)\<rparr>) st' \<and>
    same_config st st' \<and> clock st' = clock st + n * monitor_interval st"
  using assms
proof (induction n arbitrary: st l)
  case 0
  then show ?case by (simp add: same_config_def)
next
  case (Suc n)
  let ?st = "sleep_for (monitor_interval st) st" and ?l = "l\<lparr>count := SFEX_NEXT_COUNT (count l)\<rparr>"
  have "quiet_with l ?st" using Suc.prems(1) by (simp add: quiet_frame)
  moreover have "own_name ?st = own_name st" by (simp add: sleep_for_def)
  ultimately obtain st1 where u: "update_lock ?st = (Ret (), st1)" and f1: "quiet_with ?l st1"
    "same_config ?st st1" "clock st1 = clock ?st"
    using quiet_update_own[of l ?st] Suc.prems by auto
  have c1: "same_config st st1" using f1(2) same_config_trans same_config_frame(5) by blast
  then have "own_name st1 = own_name st" "monitor_interval st1 = monitor_interval st"
    by (simp_all add: same_config_def)
  then obtain st' where m: "monitor_loop n st1 = (Ret (), st')"
    and f: "quiet_with (?l\<lparr>count := (SFEX_NEXT_COUNT ^^ n) (count ?l)\<rparr>) st'" "same_config st1 st'"
      "clock st' = clock st1 + n * monitor_interval st"
    using Suc.IH[OF f1(1) wf_lockdata_bump[OF Suc.prems(2)]] Suc.prems(3-5) by auto
  have "monitor_loop (Suc n) st = (Ret (), st')" using u m by simp
  moreover have "(SFEX_NEXT_COUNT ^^ n) (SFEX_NEXT_COUNT (count l)) = (SFEX_NEXT_COUNT ^^ Suc n) (count l)"
    by (simp add: funpow_swap1)
  ultimately show ?case
    using f f1(3) same_config_trans[OF c1 f(2)] by (auto simp: sleep_for_def)
qed

section \<open>The daemon in any environment\<close>

lemma read_ldata_cases:
  assumes "read_ldata st = (r, st')"
  shows "env_step (io st) (io st')" "same_geometry (io st) (io st')" "same_config st st'"
    "clock st' = clock st" "ldata_new st' = ldata_new st"
  using assms
  by (auto simp: read_ldata_def dest: read_lockdata_env read_lockdata_geometry split: prod.splits)

lemma read_ldata_new_cases:
  assumes "read_ldata_new st = (r, st')"
  shows "env_step (io st) (io st')" "same_geometry (io st) (io st')" "same_config st st'"
    "clock st' = clock st" "ldata st' = ldata st"
  using assms
  by (auto simp: read_ldata_new_def dest: read_lockdata_env read_lockdata_geometry split: prod.splits)

lemma write_ldata_cases:
  assumes "write_ldata st = (r, st')"
  shows "same_geometry (io st) (io st')" "same_config st st'" "clock st' = clock st"
    "ldata st' = ldata st" "ldata_new st' = ldata_new st"
  using assms by (auto simp: write_ldata_def dest: write_lockdata_geometry split: prod.splits)

text \<open>A successful write leaves the record on the disk.\<close>

lemma write_ldata_ok:
  assumes "write_ldata st = (Ret 0, st')" and "ready st"
  shows "lock_area st' = lock_block (bsize (cdata st')) (ldata st')"
proof -
  have w: "write_lockdata (cdata st) (ldata st) (lock_index st) (io st) = (Ret 0, io st')"
    and f: "cdata st' = cdata st" "lock_index st' = lock_index st" "ldata st' = ldata st"
    using assms(1) by (auto simp: write_ldata_def split: prod.splits)
  let ?b = "lock_block (bsize (cdata st)) (ldata st)"
  have "length ?b = bsize (cdata st)"
    using assms(2) by (simp add: sfex_ready_def length_lock_block)
  then show ?thesis
    using write_lockdata_ok[OF w assms(2)] f region_put_same[of "lock_pos (cdata st) (lock_index st)" ?b]
    by (auto simp: lock_on_disk_def lock_in_range_def dest: env_step_length)
qed

text \<open>On a ready device reading and writing end with 0 or -1.\<close>

lemma ldata_result:
  assumes "ready st"
  shows "fst (read_ldata st) \<in> {Ret 0, Ret (- 1)}" "fst (read_ldata_new st) \<in> {Ret 0, Ret (- 1)}"
    "fst (write_ldata st) \<in> {Ret 0, Ret (- 1)}"
  using read_lockdata_result[OF assms, of "ldata st" "lock_index st"]
    read_lockdata_result[OF assms, of "ldata_new st" "lock_index st"]
    write_lockdata_result[OF assms, of "ldata st" "lock_index st"]
  by (auto simp: read_ldata_def read_ldata_new_def write_ldata_def split: prod.splits)

lemma ready_frame:
  "ready (sleep_for t st) = ready st" "ready (bump_count st) = ready st"
  "ready (st\<lparr>ldata := x\<rparr>) = ready st"
  by (simp_all add: sleep_for_def bump_count_def)

lemma ready_config: "ready st \<Longrightarrow> same_config st st' \<Longrightarrow> same_geometry (io st) (io st') \<Longrightarrow> ready st'"
  by (simp add: same_config_def ready_geometry)

text \<open>What a successful reading says of the record: the name is terminated and null-padded.\<close>

lemma parse_lockdata_name:
  assumes "parse_lockdata m l0 = Some (rc, l)" and "rc \<noteq> - 1"
  shows "wf_name (nodename l) \<and> (status l = SFEX_STATUS_LOCK \<or> status l = SFEX_STATUS_UNLOCK)"
proof -
  obtain nn where nn: "peek 5 256 m = Some nn" and l: "nn ! 255 = NUL" "nodename l = strncpy_bytes 256 nn"
    and s: "status l = SFEX_STATUS_LOCK \<or> status l = SFEX_STATUS_UNLOCK"
    using assms by (auto simp: parse_lockdata_def Let_def split: Option.bind_splits if_splits)
  have n: "length nn = 256" using nn by (auto simp: peek_def split: if_splits)
  have "NUL \<in> set nn" using l(1) n nth_mem[of 255 nn] by simp
  then have "cstr nn \<noteq> nn" by (auto simp: cstr_def takeWhile_eq_all_conv)
  then have "length (cstr nn) \<noteq> length nn"
    using takeWhile_eq_take[of "\<lambda>c. c \<noteq> NUL" nn] by (auto simp: cstr_def)
  then have "length (cstr nn) \<le> 255"
    using n length_takeWhile_le[of "\<lambda>c. c \<noteq> NUL" nn] by (simp add: cstr_def)
  with l(2) s show ?thesis by (simp add: wf_name_strncpy)
qed

lemma read_ldata_parsed:
  assumes "read_ldata st = (Ret rc, st')" and "ready st" and "rc \<noteq> - 1"
  shows "parse_lockdata (lock_area st') (ldata st) = Some (rc, ldata st')" "wf_name (nodename (ldata st'))"
proof -
  have r: "read_lockdata (cdata st) (ldata st) (lock_index st) (io st) = (Ret rc, ldata st', io st')"
    and c: "cdata st' = cdata st" "lock_index st' = lock_index st"
    using assms(1) by (auto simp: read_ldata_def split: prod.splits)
  show "parse_lockdata (lock_area st') (ldata st) = Some (rc, ldata st')"
    using read_lockdata_ok[OF r assms(2,3)] c by simp
  then show "wf_name (nodename (ldata st'))" using parse_lockdata_name assms(3) by blast
qed

text \<open>The check of the current holder writes nothing.\<close>

lemma acquire_check_env:
  assumes "acquire_check st = (r, st')"
  shows "env_step (io st) (io st')" "same_geometry (io st) (io st')" "same_config st st'"
    "clock st \<le> clock st'"
proof -
  obtain q st1 where r1: "read_ldata st = (q, st1)" by (cases "read_ldata st")
  note f1 = read_ldata_cases[OF r1]
  obtain q2 st2 where r2: "read_ldata_new (sleep_for (lock_timeout st1) st1) = (q2, st2)"
    by (cases "read_ldata_new (sleep_for (lock_timeout st1) st1)")
  note f2 = read_ldata_new_cases[OF r2]
  have "same_config st1 st2" "env_step (io st) (io st2)" "same_geometry (io st) (io st2)"
    "clock st1 \<le> clock st2"
    using f1 f2 same_config_trans[OF same_config_frame(5) f2(3)]
    by (auto simp: sleep_for_def intro: env_step_trans same_geometry_trans)
  moreover have "st' = st1 \<or> st' = st2"
    using assms r1 r2
    by (auto simp: acquire_check_def and_then_def split: result.splits if_splits)
  ultimately show "env_step (io st) (io st')" "same_geometry (io st) (io st')" "same_config st st'"
    "clock st \<le> clock st'"
    using f1 by (auto intro: same_config_trans)
qed

lemma acquire_check_name:
  assumes "acquire_check st = (Ret (), st')" and "ready st"
  shows "wf_name (nodename (ldata st'))"
proof -
  obtain rc st1 where r1: "read_ldata st = (Ret rc, st1)" and "rc \<noteq> - 1"
    and s: "st' = st1 \<or> (\<exists>q. read_ldata_new (sleep_for (lock_timeout st1) st1) = (q, st'))"
    using assms(1) by (auto simp: acquire_check_def and_then_Ret split: if_splits)
  then have "wf_name (nodename (ldata st1))" using read_ldata_parsed(2) assms(2) by blast
  with s show ?thesis by (auto dest!: read_ldata_new_cases(5) simp: sleep_for_def)
qed

lemma write_step_ok:
  assumes "and_then write_ldata (\<lambda>rc st. if rc = - 1 then stop st else (Ret (), st)) st = (Ret (), st')"
    and "\<And>s. fst (stop s) \<noteq> Ret ()" and "ready st"
  shows "write_ldata st = (Ret 0, st')"
proof -
  obtain rc s1 where w: "write_ldata st = (Ret rc, s1)"
    and r: "(if rc = - 1 then stop s1 else (Ret (), s1)) = (Ret (), st')"
    using assms(1) unfolding and_then_Ret by blast
  have "rc \<noteq> - 1"
    using r assms(2)[of s1] by (auto split: if_splits)
  moreover have "fst (write_ldata st) \<in> {Ret 0, Ret (- 1)}" by (rule ldata_result[OF assms(3)])
  ultimately show ?thesis using w r by auto
qed

text \<open>What the writing and detecting blocks of \<open>acquire_lock\<close> achieve when they return.\<close>

lemma acquire_reserve_ok:
  assumes "acquire_reserve st = (Ret (), st')" and "ready st"
  shows "ready st'" "same_config st st'"
    "ldata st' = (ldata st)\<lparr>status := SFEX_STATUS_LOCK, count := SFEX_NEXT_COUNT (count (ldata st)),
                   nodename := strncpy_bytes 255 (own_name st) @ drop 255 (nodename (ldata st))\<rparr>"
    "clock st' = clock st" "lock_area st' = lock_block (bsize (cdata st')) (ldata st')"
proof -
  let ?st = "st\<lparr>ldata := (ldata st)\<lparr>status := SFEX_STATUS_LOCK, count := SFEX_NEXT_COUNT (count (ldata st)),
      nodename := strncpy_bytes 255 (own_name st) @ drop 255 (nodename (ldata st))\<rparr>\<rparr>"
  have w: "write_ldata ?st = (Ret 0, st')"
    using assms by (intro write_step_ok[where stop = "Pair (Exit EXIT_FAILURE)"])
      (auto simp: acquire_reserve_def Let_def)
  note f = write_ldata_cases[OF this]
  show "lock_area st' = lock_block (bsize (cdata st')) (ldata st')" using write_ldata_ok[OF w] assms(2) by simp
  show c: "same_config st st'" using same_config_trans[OF same_config_frame(1) f(2)] .
  show "ready st'" using f(1) ready_config[OF assms(2) c] by simp
  show "clock st' = clock st" "ldata st' = (ldata st)\<lparr>status := SFEX_STATUS_LOCK,
      count := SFEX_NEXT_COUNT (count (ldata st)),
      nodename := strncpy_bytes 255 (own_name st) @ drop 255 (nodename (ldata st))\<rparr>"
    using f by simp_all
qed

lemma acquire_detect_ok:
  assumes "acquire_detect st = (Ret (), st')" and "ready st"
  shows "ready st'" "same_config st st'" "ldata st' = ldata st"
    "clock st' = clock st + collision_timeout st"
    "strncmp_eq 256 (nodename (ldata st')) (nodename (ldata_new st'))"
proof -
  obtain q where "read_ldata_new (sleep_for (collision_timeout st) st) = (q, st')"
    and nm: "strncmp_eq 256 (nodename (ldata st')) (nodename (ldata_new st'))"
    using assms(1) by (auto simp: acquire_detect_def and_then_Ret split: if_splits)
  note f = read_ldata_new_cases[OF this(1)]
  show c: "same_config st st'" using same_config_trans[OF same_config_frame(5) f(3)] .
  show "ready st'" using f(2) ready_config[OF assms(2) c] by (simp add: sleep_for_def)
  show "ldata st' = ldata st" "clock st' = clock st + collision_timeout st"
    using f by (simp_all add: sleep_for_def)
  show "strncmp_eq 256 (nodename (ldata st')) (nodename (ldata_new st'))" by (rule nm)
qed

text \<open>The accesses behind the blocks.\<close>

lemma acquire_reserved_ok:
  assumes "and_then acquire_check (\<lambda>_. acquire_reserve) st = (Ret (), s)" and "ready st"
  shows "ready s" "same_config st s" "lock_area s = lock_block (bsize (cdata s)) (ldata s)" "clock st \<le> clock s"
proof -
  obtain s1 where c: "acquire_check st = (Ret (), s1)" and r: "acquire_reserve s1 = (Ret (), s)"
    using assms(1) by (auto simp: and_then_Ret)
  note f = acquire_check_env[OF c]
  note g = acquire_reserve_ok[OF r ready_config[OF assms(2) f(3,2)]]
  show "ready s" "same_config st s" "lock_area s = lock_block (bsize (cdata s)) (ldata s)" "clock st \<le> clock s"
    using g f(3,4) by (auto intro: same_config_trans)
qed

lemma acquire_detect_reads:
  assumes "acquire_detect st = (Ret (), st')" and "ready st"
  shows "\<exists>rc. read_lockdata (cdata st) (ldata_new st) (lock_index st) (io st) = (Ret rc, ldata_new st', io st') \<and>
    (rc \<noteq> - 1 \<longrightarrow> parse_lockdata (lock_on_disk (cdata st) (lock_index st) (disk (io st'))) (ldata_new st) = Some (rc, ldata_new st') \<and>
       wf_name (nodename (ldata_new st')))"
proof -
  obtain rc where "read_ldata_new (sleep_for (collision_timeout st) st) = (Ret rc, st')"
    using assms(1) by (auto simp: acquire_detect_def and_then_Ret split: if_splits)
  then have r: "read_lockdata (cdata st) (ldata_new st) (lock_index st) (io st) = (Ret rc, ldata_new st', io st')"
    by (auto simp: read_ldata_new_def sleep_for_def split: prod.splits)
  then show ?thesis using read_lockdata_ok[OF r assms(2)] parse_lockdata_name by blast
qed

lemma bump_write_ok:
  assumes "write_ldata (bump_count st) = (Ret 0, st')" and "ready st"
  shows "lock_area st' = lock_block (bsize (cdata st')) (ldata st')" "same_config st st'"
    "ldata st' = (ldata st)\<lparr>count := SFEX_NEXT_COUNT (count (ldata st))\<rparr>"
    "clock st' = clock st" "ldata_new st' = ldata_new st"
  using write_ldata_ok[OF assms(1)] write_ldata_cases[OF assms(1)] assms(2)
    same_config_trans[OF same_config_frame(6)] by (auto simp: ready_frame bump_count_def)

lemma acquire_extend_ok:
  assumes "acquire_extend st = (Ret (), st')" and "ready st"
  shows "lock_area st' = lock_block (bsize (cdata st')) (ldata st')" "same_config st st'"
    "ldata st' = (ldata st)\<lparr>count := SFEX_NEXT_COUNT (count (ldata st))\<rparr>"
    "clock st' = clock st" "ldata_new st' = ldata_new st"
proof -
  have "write_ldata (bump_count st) = (Ret 0, st')"
    using assms by (intro write_step_ok[where stop = "Pair (Exit EXIT_FAILURE)"])
      (auto simp: acquire_extend_def ready_frame)
  then show "lock_area st' = lock_block (bsize (cdata st')) (ldata st')" "same_config st st'"
    "ldata st' = (ldata st)\<lparr>count := SFEX_NEXT_COUNT (count (ldata st))\<rparr>"
    "clock st' = clock st" "ldata_new st' = ldata_new st"
    using bump_write_ok assms(2) by blast+
qed

lemma acquire_extend_writes:
  assumes "acquire_extend st = (Ret (), st')" and "ready st"
  shows "write_lockdata (cdata st) (ldata st') (lock_index st) (io st) = (Ret 0, io st')"
proof -
  have "write_ldata (bump_count st) = (Ret 0, st')"
    using assms by (intro write_step_ok[where stop = "Pair (Exit EXIT_FAILURE)"])
      (auto simp: acquire_extend_def ready_frame)
  then show ?thesis by (auto simp: write_ldata_def bump_count_def split: prod.splits)
qed

lemma acquire_lock_ok:
  assumes "acquire_lock st = (Ret (), st')" and "ready st"
  shows "same_config st st'" "lock_area st' = lock_block (bsize (cdata st')) (ldata st')"
    "strncmp_eq 256 (nodename (ldata st')) (nodename (ldata_new st'))"
    "clock st + collision_timeout st \<le> clock st'" "status (ldata st') = SFEX_STATUS_LOCK"
    "\<exists>b. wf_name b \<and> nodename (ldata st') = strncpy_bytes 255 (own_name st) @ drop 255 b"
proof -
  obtain s1 s2 s3 where c: "acquire_check st = (Ret (), s1)" and r: "acquire_reserve s1 = (Ret (), s2)"
    and d: "acquire_detect s2 = (Ret (), s3)" and e: "acquire_extend s3 = (Ret (), st')"
    using assms(1) by (auto simp: acquire_lock_def and_then_Ret)
  note f1 = acquire_check_env[OF c]
  have "ready s1" using ready_config[OF assms(2) f1(3,2)] .
  note f2 = acquire_reserve_ok[OF r this]
  note f3 = acquire_detect_ok[OF d f2(1)]
  note f4 = acquire_extend_ok[OF e f3(1)]
  show "same_config st st'" using f1(3) f2(2) f3(2) f4(2) by (blast intro: same_config_trans)
  show "lock_area st' = lock_block (bsize (cdata st')) (ldata st')" by (rule f4(1))
  show "strncmp_eq 256 (nodename (ldata st')) (nodename (ldata_new st'))" using f3(5) f4(3,5) by simp
  show "clock st + collision_timeout st \<le> clock st'" "status (ldata st') = SFEX_STATUS_LOCK"
    using f1(3,4) f2(2-4) f3(3,4) f4(3,4) by (simp_all add: same_config_def)
  have "nodename (ldata st') = strncpy_bytes 255 (own_name st) @ drop 255 (nodename (ldata s1))"
    using f1(3) f2(3) f3(3) f4(3) by (simp add: same_config_def)
  then show "\<exists>b. wf_name b \<and> nodename (ldata st') = strncpy_bytes 255 (own_name st) @ drop 255 b"
    using acquire_check_name[OF c assms(2)] by blast
qed

text \<open>A first reading that completes, with more events of the script to come.\<close>

lemma done_read_ldata:
  assumes "script (io st) = ([], Done) # ([], Done) # r" and "quiet_with l (st\<lparr>io := (io st)\<lparr>script := []\<rparr>\<rparr>)"
    and "wf_lockdata l"
  shows "\<exists>d. read_ldata st = (Ret 0, st\<lparr>ldata := l, io := d\<lparr>script := r\<rparr>\<rparr>) \<and>
           disk d = disk (io st) \<and> quiet_with l (st\<lparr>io := d\<rparr>)"
proof -
  let ?st = "st\<lparr>io := (io st)\<lparr>script := []\<rparr>\<rparr>" and ?a = "lock_area st"
  have q: "ready st" "lock_in_range (cdata st) (lock_index st) (io st)" "?a = lock_block (bsize (cdata st)) l"
    using assms(2) by (auto simp: quiet_with_def sfex_ready_def lock_in_range_def)
  have p: "parse_lockdata ?a (ldata st) = Some (0, l)"
    using parse_lock_block[OF assms(3), of _ "[]"] by (simp add: q)
  let ?d = "(io st)\<lparr>script := [], locked_mem := ?a, fpos := lock_pos (cdata st) (lock_index st) + bsize (cdata st)\<rparr>"
  let ?io1 = "(io st)\<lparr>script := ([], Done) # r, fpos := lock_pos (cdata st) (lock_index st)\<rparr>"
  have "sys_lseek (lock_offset (cdata st) (lock_index st)) (io st) = (True, ?io1)"
    using q(2) assms(1) by (simp add: sys_lseek_def next_call_def lock_in_range_def lock_pos_def)
  moreover have "read_retry (bsize (cdata st)) ?io1 = (Bytes (bsize (cdata st)), ?d\<lparr>script := r\<rparr>)"
    using q(1,2) done_read[of ?io1 r "bsize (cdata st)"]
    by (simp add: lock_in_range_def sfex_ready_def lock_on_disk_def)
  ultimately have "read_lockdata (cdata st) (ldata st) (lock_index st) (io st) = (Ret 0, l, ?d\<lparr>script := r\<rparr>)"
    using p by (simp add: read_lockdata_def)
  then have "read_ldata st = (Ret 0, st\<lparr>ldata := l, io := ?d\<lparr>script := r\<rparr>\<rparr>)"
    by (simp add: read_ldata_def)
  moreover have "length ?a = bsize (cdata st)" using q(1,3) by (simp add: length_lock_block sfex_ready_def)
  then have "quiet_with l (st\<lparr>io := ?d\<rparr>)"
    using q by (simp add: quiet_with_def sfex_ready_def lock_in_range_def)
  ultimately show ?thesis by (intro exI[of _ ?d]) simp
qed

lemma last_event_read:
  assumes "script (io st) = [(ws, Done)]"
  shows "read_ldata_new st = read_ldata_new (st\<lparr>io := (io st)\<lparr>disk := foreign_writes ws (disk (io st)), script := []\<rparr>\<rparr>)"
  using assms by (simp add: read_ldata_new_def read_lockdata_def sys_lseek_def next_call_def)

lemma failed_read_new:
  assumes "script (io st) = [(ws, Failed)]"
  shows "read_ldata_new st =
    (Ret (- 1), st\<lparr>io := (io st)\<lparr>disk := foreign_writes ws (disk (io st)), script := []\<rparr>\<rparr>)"
  using assms by (simp add: read_ldata_new_def read_lockdata_def sys_lseek_def next_call_def)

section \<open>Properties\<close>

definition demo_daemon :: "string \<Rightarrow> sfex_lockdata \<Rightarrow> sfex_daemon" where
  "demo_daemon n l =
     \<lparr>lock_index = 1, collision_timeout = 1, lock_timeout = 60, monitor_interval = 10,
      cdata = demo_cdata, ldata = zero_lockdata, ldata_new = zero_lockdata, own_name = n,
      rsc_id = ''sfex'', io = demo_io\<lparr>disk := put_region 512 (lock_block 512 l) (disk demo_io)\<rparr>,
      clock = 0, fork_ok = True, spawned = [], sysrq_ok = True, sysrq = []\<rparr>"

lemma demo_pos: "lock_pos demo_cdata 1 = 512"
  using lock_pos_eq[of 1 demo_cdata] demo_facts(5) by simp

lemma demo_quiet: "quiet_with l (demo_daemon n l)"
proof -
  have l: "length (lock_block 512 l) = 512" by (simp add: length_lock_block)
  then have "lock_on_disk demo_cdata 1 (put_region 512 (lock_block 512 l) (disk demo_io))
      = lock_block 512 l"
    using region_put_same[of 512 "lock_block 512 l" "disk demo_io"] demo_facts(5,6) demo_pos
    by (simp add: lock_on_disk_def)
  then show ?thesis
    using demo_facts demo_range[of 1] l
    by (simp add: quiet_with_def demo_daemon_def sfex_ready_def lock_in_range_def)
qed

lemma demo_names:
  "valid_name ''node1''" "valid_name ''node2''" "cstr (nodename demo_ldata) = ''node1''"
  "status demo_ldata = SFEX_STATUS_LOCK" "count demo_ldata = 7"
  by (simp_all add: valid_name_def c_string_def SFEX_MAX_NODENAME_def demo_ldata_def strncpy_bytes_def cstr_Cons)

text \<open>The holder updates its lock on the example device: it writes \<open>b\<close> to block 1.\<close>

lemma holder_update:
  assumes "length b = 512" and "length d = 1536"
  shows "lock_on_disk demo_cdata 1 (foreign_writes [(512, b)] d) = b"
  using assms by (simp add: lock_on_disk_def demo_pos demo_facts foreign_writes_def poke_or_keep_def
      poke_def region_def)

lemma demo_script:
  "quiet_with l ((demo_daemon n l)\<lparr>io := (io (demo_daemon n l))\<lparr>script := []\<rparr>\<rparr>)"
  using demo_quiet[of l n] by (auto simp: quiet_with_def demo_daemon_def sfex_ready_def lock_in_range_def)

lemma demo_disk: "length (disk (io (demo_daemon n l))) = 1536"
  by (simp add: demo_daemon_def length_lock_block demo_facts length_put_region)

text \<open>
  Acquiring a lock nobody maintains: on a quiet device, whatever well-formed record is on the
  disk (free, own, or left by a node that no longer updates it), \<open>acquire_lock\<close> returns; the disk
  then holds a locked record with the own node name and the counter advanced twice.  It takes
  \<open>collision_timeout\<close>, and \<open>lock_timeout\<close> more exactly when another node's lock has to expire.
\<close>

theorem acquire_lock_quiet:
  assumes "quiet_with l st" and "wf_lockdata l" and "valid_name (own_name st)"
  shows "\<exists>st'. acquire_lock st = (Ret (), st') \<and> quiet_with (ldata st') st' \<and>
    status (ldata st') = SFEX_STATUS_LOCK \<and> cstr (nodename (ldata st')) = own_name st \<and>
    count (ldata st') = (count l + 2) mod 1000 \<and>
    clock st' = clock st + (if other_holds (own_name st) l then lock_timeout st else 0)
                + collision_timeout st"
proof -
  have "cstr (strncpy_bytes 256 (own_name st)) = own_name st"
    using assms(3) by (simp add: valid_name_def SFEX_MAX_NODENAME_def strncpy_bytes_def)
  moreover have "SFEX_NEXT_COUNT (SFEX_NEXT_COUNT (count l)) = (count l + 2) mod 1000"
    using next_count_power[of "count l" 2] assms(2) by (simp add: wf_lockdata_def numeral_2_eq_2)
  ultimately show ?thesis
    using quiet_acquire_lock[OF assms] by (auto simp: taken_by_def)
qed

theorem acquire_lock_quiet_witness:
  "\<exists>st'. acquire_lock (demo_daemon ''node2'' demo_ldata) = (Ret (), st') \<and>
     cstr (nodename (ldata st')) = ''node2'' \<and> count (ldata st') = 9 \<and> clock st' = 61"
proof -
  have "own_name (demo_daemon ''node2'' demo_ldata) = ''node2''" "clock (demo_daemon ''node2'' demo_ldata) = 0"
    "lock_timeout (demo_daemon ''node2'' demo_ldata) = 60" "collision_timeout (demo_daemon ''node2'' demo_ldata) = 1"
    by (simp_all add: demo_daemon_def)
  then show ?thesis
    using acquire_lock_quiet[OF demo_quiet demo_facts(3), of "''node2''"] demo_names
    by (auto simp: other_holds_def)
qed

text \<open>
  C2. A returning \<open>acquire_lock\<close> went through the whole protocol, in every environment (failing and interrupted
  calls, other nodes writing at any time): it returned from the check of the holder and reserved the lock, with its record on the
  disk after that write (state \<open>s\<close>); it slept \<open>collision_timeout\<close> and read the record again; when that reading succeeded, the
  name that was on the disk then is its own; and its last access wrote the record it keeps
  in \<open>ldata\<close>, locked, with its own name and the counter advanced twice.
\<close>

theorem acquire_lock_sound:
  assumes "ready st" and "valid_name (own_name st)" and "acquire_lock st = (Ret (), st')"
  shows "\<exists>s rc d. and_then acquire_check (\<lambda>_. acquire_reserve) st = (Ret (), s) \<and>
    lock_area s = lock_block (bsize (cdata st)) (ldata s) \<and> clock st \<le> clock s \<and> clock st' = clock s + collision_timeout st \<and>
    read_lockdata (cdata st) (ldata_new s) (lock_index st) (io s) = (Ret rc, ldata_new st', d) \<and>
    (rc \<noteq> - 1 \<longrightarrow> parse_lockdata (lock_on_disk (cdata st) (lock_index st) (disk d)) (ldata_new s) = Some (rc, ldata_new st') \<and>
       cstr (nodename (ldata_new st')) = own_name st) \<and>
    strncmp_eq 256 (nodename (ldata st')) (nodename (ldata_new st')) \<and>
    write_lockdata (cdata st) (ldata st') (lock_index st) d = (Ret 0, io st') \<and>
    lock_area st' = lock_block (bsize (cdata st')) (ldata st') \<and>
    ldata st' = (ldata s)\<lparr>count := SFEX_NEXT_COUNT (count (ldata s))\<rparr> \<and>
    status (ldata st') = SFEX_STATUS_LOCK \<and> nodename (ldata st') = strncpy_bytes 256 (own_name st) \<and> same_config st st'"
proof -
  note f = acquire_lock_ok[OF assms(3,1)]
  obtain s s3 where a: "and_then acquire_check (\<lambda>_. acquire_reserve) st = (Ret (), s)"
    and d: "acquire_detect s = (Ret (), s3)" and e: "acquire_extend s3 = (Ret (), st')"
    using assms(3) by (auto simp: acquire_lock_def and_then_Ret)
  note g = acquire_reserved_ok[OF a assms(1)]
  have c: "cdata s = cdata st" "lock_index s = lock_index st" "collision_timeout s = collision_timeout st"
    using g(2) by (simp_all add: same_config_def)
  note h = acquire_detect_ok[OF d g(1)]
  note k = acquire_extend_ok[OF e h(1)]
  have c3: "cdata s3 = cdata st" "lock_index s3 = lock_index st" using h(2) c by (simp_all add: same_config_def)
  obtain rc where r: "read_lockdata (cdata st) (ldata_new s) (lock_index st) (io s) = (Ret rc, ldata_new st', io s3)"
    and p: "rc \<noteq> - 1 \<longrightarrow> parse_lockdata (lock_on_disk (cdata st) (lock_index st) (disk (io s3))) (ldata_new s) = Some (rc, ldata_new st') \<and>
       wf_name (nodename (ldata_new st'))"
    using acquire_detect_reads[OF d g(1)] c k(5) by auto
  have nm: "nodename (ldata st') = strncpy_bytes 256 (own_name st)" using f(6) own_name_stored[OF assms(2)] by auto
  then have o: "cstr (nodename (ldata st')) = own_name st" "length (own_name st) \<le> 255"
    using assms(2) by (simp_all add: valid_name_def SFEX_MAX_NODENAME_def strncpy_bytes_def)
  then have "cstr (nodename (ldata_new st')) = own_name st" if "wf_name (nodename (ldata_new st'))"
    using that f(3) by (auto simp: strncmp_eq_cstr wf_name_def)
  with p have p': "rc \<noteq> - 1 \<longrightarrow> parse_lockdata (lock_on_disk (cdata st) (lock_index st) (disk (io s3))) (ldata_new s) = Some (rc, ldata_new st') \<and>
       cstr (nodename (ldata_new st')) = own_name st" by blast
  have t: "clock st' = clock s + collision_timeout st" "ldata st' = (ldata s)\<lparr>count := SFEX_NEXT_COUNT (count (ldata s))\<rparr>"
    using k(3,4) h(3,4) c(3) by simp_all
  have w: "write_lockdata (cdata st) (ldata st') (lock_index st) (io s3) = (Ret 0, io st')"
    using acquire_extend_writes[OF e h(1)] c3 by simp
  have g3: "lock_area s = lock_block (bsize (cdata st)) (ldata s)" using g(3) c by simp
  show ?thesis
    by (rule exI[of _ s], rule exI[of _ rc], rule exI[of _ "io s3"]) (intro conjI a g3 g(4) t r p' f w nm)
qed

theorem acquire_lock_sound_witness:
  "\<exists>st'. acquire_lock (demo_daemon ''node2'' demo_ldata) = (Ret (), st') \<and>
     status (ldata st') = SFEX_STATUS_LOCK \<and> nodename (ldata st') = strncpy_bytes 256 ''node2''"
proof -
  have n: "own_name (demo_daemon ''node2'' demo_ldata) = ''node2''" by (simp add: demo_daemon_def)
  obtain st' where a: "acquire_lock (demo_daemon ''node2'' demo_ldata) = (Ret (), st')"
    using quiet_acquire_lock[OF demo_quiet demo_facts(3)] n demo_names(2) by metis
  have "ready (demo_daemon ''node2'' demo_ldata)" using demo_quiet by (simp add: quiet_with_def)
  from acquire_lock_sound[OF this _ a] a n demo_names(2) show ?thesis by auto
qed

text \<open>
  C3. A maintained lock is not taken: when another node holds the lock and its counter on the disk
  changes during the \<open>lock_timeout\<close> wait, \<open>acquire_lock\<close> exits with 2 after that wait, and the
  disk is what the other nodes wrote: the daemon itself wrote nothing.
\<close>

theorem acquire_lock_live_holder:
  assumes "quiet_with l (st\<lparr>io := (io st)\<lparr>script := []\<rparr>\<rparr>)" and "wf_lockdata l" and "wf_lockdata l'"
    and "valid_name (own_name st)" and "other_holds (own_name st) l" and "count l' \<noteq> count l"
    and "script (io st) = [([], Done), ([], Done), (ws, Done)]"
    and "lock_on_disk (cdata st) (lock_index st) (foreign_writes ws (disk (io st)))
           = lock_block (bsize (cdata st)) l'"
  shows "\<exists>st'. acquire_lock st = (Exit 2, st') \<and> disk (io st') = foreign_writes ws (disk (io st)) \<and>
    clock st' = clock st + lock_timeout st"
proof -
  obtain d where r: "read_ldata st = (Ret 0, st\<lparr>ldata := l, io := d\<lparr>script := [(ws, Done)]\<rparr>\<rparr>)"
    and d: "disk d = disk (io st)" and q: "quiet_with l (st\<lparr>io := d\<rparr>)"
    using done_read_ldata[OF assms(7,1,2)] by blast
  let ?st = "st\<lparr>ldata := l, io := d\<lparr>script := [(ws, Done)]\<rparr>\<rparr>"
  let ?sl = "sleep_for (lock_timeout st) ?st"
  let ?q = "?sl\<lparr>io := (io ?sl)\<lparr>disk := foreign_writes ws (disk (io ?sl)), script := []\<rparr>\<rparr>"
  have h: "held_by_other ?st"
    using name_compare[OF assms(4) wf_lockdata_name[OF assms(2)]] assms(5)
    by (simp add: held_by_other_def other_holds_def)
  have "quiet_with l' ?q"
    using q d assms(8) by (auto simp: quiet_with_def sleep_for_def sfex_ready_def lock_in_range_def)
  then obtain d2 where "read_ldata_new ?q = (Ret 0, ?q\<lparr>ldata_new := l', io := d2\<rparr>)"
    using quiet_read_ldata_new assms(3) by blast
  moreover have "read_ldata_new ?sl = read_ldata_new ?q"
    by (rule last_event_read) (simp add: sleep_for_def)
  ultimately have r2: "read_ldata_new ?sl = (Ret 0, ?q\<lparr>ldata_new := l', io := d2\<rparr>)" by simp
  have "env_step (io ?q) d2" using read_ldata_new_cases(1)[of ?q] \<open>read_ldata_new ?q = _\<close> by simp
  then have "disk d2 = foreign_writes ws (disk (io st))"
    using d by (auto simp: sleep_for_def dest: env_step_quiet)
  moreover have "acquire_lock st = (Exit 2, ?q\<lparr>ldata_new := l', io := d2\<rparr>)"
    using r r2 h assms(6) by (simp add: acquire_lock_def acquire_check_def sleep_for_def)
  ultimately show ?thesis by (intro exI[of _ "?q\<lparr>ldata_new := l', io := d2\<rparr>"]) (simp add: sleep_for_def)
qed

theorem acquire_lock_live_holder_witness:
  "\<exists>st'. acquire_lock ((demo_daemon ''node2'' demo_ldata)\<lparr>io := (io (demo_daemon ''node2'' demo_ldata))
        \<lparr>script := [([], Done), ([], Done), ([(512, lock_block 512 (demo_ldata\<lparr>count := 8\<rparr>))], Done)]\<rparr>\<rparr>)
     = (Exit 2, st') \<and> clock st' = 60"
proof -
  let ?l = "demo_ldata\<lparr>count := 8\<rparr>" and ?d = "demo_daemon ''node2'' demo_ldata"
  let ?ws = "[(512, lock_block 512 ?l)]"
  let ?st = "?d\<lparr>io := (io ?d)\<lparr>script := [([], Done), ([], Done), (?ws, Done)]\<rparr>\<rparr>"
  have c: "own_name ?st = ''node2''" "cdata ?st = demo_cdata" "lock_index ?st = 1" "lock_timeout ?st = 60"
    "clock ?st = 0" "disk (io ?st) = disk (io ?d)" "script (io ?st) = [([], Done), ([], Done), (?ws, Done)]"
    by (simp_all add: demo_daemon_def)
  have "quiet_with demo_ldata (?st\<lparr>io := (io ?st)\<lparr>script := []\<rparr>\<rparr>)"
    using demo_script by simp
  moreover have "wf_lockdata ?l" using demo_facts(3) by (simp add: wf_lockdata_def SFEX_MAX_COUNT_def)
  moreover have "lock_on_disk demo_cdata 1 (foreign_writes ?ws (disk (io ?d))) = lock_block (bsize demo_cdata) ?l"
    using holder_update[of "lock_block 512 ?l", OF _ demo_disk] by (simp add: length_lock_block demo_facts)
  ultimately show ?thesis
    using acquire_lock_live_holder[of demo_ldata ?st ?l ?ws] c demo_facts(3) demo_names
    by (auto simp: other_holds_def)
qed

text \<open>
  C36. The unchecked second reading: when the \<open>lseek\<close> of the re-read fails, the code compares the
  counter with what \<open>ldata_new\<close> held before.  In a fresh daemon that is 0, so with a counter of 0
  at the first reading the lock is taken although its holder updated it during the wait
  (\<open>l'\<close> on the disk is the live holder's new record), and \<open>acquire_lock\<close> returns.
\<close>

theorem acquire_lock_stale_takeover:
  assumes "quiet_with l (st\<lparr>io := (io st)\<lparr>script := []\<rparr>\<rparr>)" and "wf_lockdata l"
    and "valid_name (own_name st)" and "other_holds (own_name st) l"
    and "count l = 0" and "ldata_new st = zero_lockdata"
    and "script (io st) = [([], Done), ([], Done), (ws, Failed)]"
    and "lock_on_disk (cdata st) (lock_index st) (foreign_writes ws (disk (io st)))
           = lock_block (bsize (cdata st)) l'"
  shows "\<exists>st'. acquire_lock st = (Ret (), st') \<and> cstr (nodename (ldata st')) = own_name st \<and>
    quiet_with (ldata st') st'"
proof -
  obtain d where r: "read_ldata st = (Ret 0, st\<lparr>ldata := l, io := d\<lparr>script := [(ws, Failed)]\<rparr>\<rparr>)"
    and d: "disk d = disk (io st)" and q: "quiet_with l (st\<lparr>io := d\<rparr>)"
    using done_read_ldata[OF assms(7,1,2)] by blast
  let ?st = "st\<lparr>ldata := l, io := d\<lparr>script := [(ws, Failed)]\<rparr>\<rparr>"
  let ?sl = "sleep_for (lock_timeout st) ?st"
  let ?q = "?sl\<lparr>io := (io ?sl)\<lparr>disk := foreign_writes ws (disk (io ?sl)), script := []\<rparr>\<rparr>"
  have h: "held_by_other ?st"
    using name_compare[OF assms(3) wf_lockdata_name[OF assms(2)]] assms(4)
    by (simp add: held_by_other_def other_holds_def)
  have "read_ldata_new ?sl = (Ret (- 1), ?q)"
    by (rule failed_read_new) (simp add: sleep_for_def)
  then have c: "acquire_check st = (Ret (), ?q)"
    using r h assms(5,6) by (simp add: acquire_check_def sleep_for_def zero_lockdata_def)
  have q2: "quiet_with l' ?q" and o: "ldata ?q = l" "own_name ?q = own_name st"
    using q d assms(8) by (auto simp: quiet_with_def sleep_for_def sfex_ready_def lock_in_range_def)
  obtain s2 where c2: "acquire_reserve ?q = (Ret (), s2)" "ldata s2 = taken_by (own_name st) l"
    "quiet_with (ldata s2) s2"
    using quiet_acquire_reserve[OF q2] o assms(2,3) by auto
  obtain s3 where c3: "acquire_detect s2 = (Ret (), s3)" "ldata s3 = taken_by (own_name st) l"
    "quiet_with (ldata s3) s3"
    using quiet_acquire_detect[OF c2(3)] c2(2) wf_taken_by[OF assms(2,3)] by auto
  obtain s4 where c4: "write_ldata (bump_count s3) = (Ret 0, s4)" "quiet_with (ldata s4) s4"
    "nodename (ldata s4) = nodename (taken_by (own_name st) l)"
    using quiet_bump_write[OF c3(3)] c3(2) by auto
  have "acquire_lock st = (Ret (), s4)"
    using c c2(1) c3(1) c4(1) by (simp add: acquire_lock_def acquire_extend_def)
  moreover have "cstr (nodename (ldata s4)) = own_name st"
    using assms(3) c4(3) by (simp add: taken_by_def valid_name_def strncpy_bytes_def SFEX_MAX_NODENAME_def)
  ultimately show ?thesis using c4(2) by blast
qed

theorem acquire_lock_stale_takeover_witness:
  "\<exists>st'. acquire_lock ((demo_daemon ''node2'' (demo_ldata\<lparr>count := 0\<rparr>))\<lparr>io :=
        (io (demo_daemon ''node2'' (demo_ldata\<lparr>count := 0\<rparr>)))
        \<lparr>script := [([], Done), ([], Done), ([(512, lock_block 512 (demo_ldata\<lparr>count := 1\<rparr>))], Failed)]\<rparr>\<rparr>)
     = (Ret (), st') \<and> cstr (nodename (ldata st')) = ''node2''"
proof -
  let ?k = "demo_ldata\<lparr>count := 0\<rparr>" and ?l = "demo_ldata\<lparr>count := 1\<rparr>"
  let ?d = "demo_daemon ''node2'' ?k" and ?ws = "[(512, lock_block 512 ?l)]"
  let ?st = "?d\<lparr>io := (io ?d)\<lparr>script := [([], Done), ([], Done), (?ws, Failed)]\<rparr>\<rparr>"
  have c: "own_name ?st = ''node2''" "cdata ?st = demo_cdata" "lock_index ?st = 1"
    "ldata_new ?st = zero_lockdata"
    "disk (io ?st) = disk (io ?d)" "script (io ?st) = [([], Done), ([], Done), (?ws, Failed)]"
    by (simp_all add: demo_daemon_def)
  have "quiet_with ?k (?st\<lparr>io := (io ?st)\<lparr>script := []\<rparr>\<rparr>)" using demo_script by simp
  moreover have "wf_lockdata ?k" using demo_facts(3) by (simp add: wf_lockdata_def SFEX_MAX_COUNT_def)
  moreover have "lock_on_disk demo_cdata 1 (foreign_writes ?ws (disk (io ?d))) = lock_block (bsize demo_cdata) ?l"
    using holder_update[of "lock_block 512 ?l", OF _ demo_disk] by (simp add: length_lock_block demo_facts)
  ultimately show ?thesis
    using acquire_lock_stale_takeover[of ?k ?st ?ws ?l] c demo_names
    by (auto simp: other_holds_def)
qed

text \<open>
  C37. Every end of \<open>update_lock\<close>, in every environment.  When the reading failed, it starts \<open>crm_resource -F\<close>, asks for no reboot and
  exits with 1; when the record it read is not its own, it asks the kernel to reboot, starts nothing and exits with 1; in both cases
  it wrote nothing to the disk.  When the record is its own, its next access writes it back with the counter advanced: if that
  fails, it starts \<open>crm_resource -F\<close> and exits with 1; otherwise it returns, has started nothing, and the disk block is that record.
\<close>

theorem update_lock_cases:
  assumes "ready st" and "update_lock st = (r, st')" and "read_ldata st = (q, st1)"
  defines "crm \<equiv> (if fork_ok st then [[''crm_resource'', ''-F'', ''-r'', rsc_id st, ''--node'', own_name st]] else [])"
    and "next \<equiv> (ldata st1)\<lparr>count := SFEX_NEXT_COUNT (count (ldata st1))\<rparr>"
  shows "(q = Ret (- 1) \<and> r = Exit EXIT_FAILURE \<and> io st' = io st1 \<and> env_step (io st) (io st') \<and>
      spawned st' = spawned st @ crm \<and> sysrq st' = sysrq st) \<or>
    (q = Ret 0 \<and> not_own_lock st1 \<and> r = Exit EXIT_FAILURE \<and> io st' = io st1 \<and> env_step (io st) (io st') \<and>
      spawned st' = spawned st \<and> sysrq st' = sysrq st @ (if sysrq_ok st then [CHR ''b'', CHR 0x0A] else [])) \<or>
    (q = Ret 0 \<and> \<not> not_own_lock st1 \<and> r = Exit EXIT_FAILURE \<and>
      write_lockdata (cdata st) next (lock_index st) (io st1) = (Ret (- 1), io st') \<and>
      spawned st' = spawned st @ crm \<and> sysrq st' = sysrq st) \<or>
    (q = Ret 0 \<and> \<not> not_own_lock st1 \<and> r = Ret () \<and>
      write_lockdata (cdata st) next (lock_index st) (io st1) = (Ret 0, io st') \<and>
      lock_area st' = lock_block (bsize (cdata st')) (ldata st') \<and> ldata st' = next \<and>
      spawned st' = spawned st \<and> sysrq st' = sysrq st)"
proof -
  note f = read_ldata_cases[OF assms(3)]
  have c: "cdata st1 = cdata st" "lock_index st1 = lock_index st" "own_name st1 = own_name st" "rsc_id st1 = rsc_id st"
    "fork_ok st1 = fork_ok st" "sysrq_ok st1 = sysrq_ok st" "spawned st1 = spawned st" "sysrq st1 = sysrq st"
    using assms(3) by (auto simp: read_ldata_def split: prod.splits)
  have q: "q = Ret 0 \<or> q = Ret (- 1)" using ldata_result(1)[OF assms(1)] assms(3) by auto
  have r1: "ready (bump_count st1)" using ready_config[OF assms(1) f(3,2)] by (simp add: ready_frame)
  obtain p st2 where w: "write_ldata (bump_count st1) = (p, st2)" by (cases "write_ldata (bump_count st1)")
  have p: "p = Ret 0 \<or> p = Ret (- 1)" using ldata_result(3)[OF r1] w by auto
  have w2: "write_lockdata (cdata st) next (lock_index st) (io st1) = (p, io st2)" "spawned st2 = spawned st" "sysrq st2 = sysrq st"
    "own_name st2 = own_name st" "rsc_id st2 = rsc_id st" "fork_ok st2 = fork_ok st"
    using w c by (auto simp: write_ldata_def bump_count_def next_def split: prod.splits)
  consider (unread) "q = Ret (- 1)" | (lost) "q = Ret 0" "not_own_lock st1" |
    (own) "q = Ret 0" "\<not> not_own_lock st1" using q by blast
  then show ?thesis
  proof cases
    case unread
    then have "(r, st') = error_todo st1" using assms(2,3) by (simp add: update_lock_def)
    with unread f c show ?thesis by (simp add: error_todo_def crm_def)
  next
    case lost
    then have "(r, st') = failure_todo st1" using assms(2,3) by (simp add: update_lock_def)
    with lost f c show ?thesis by (simp add: failure_todo_def)
  next
    case own
    then have u: "(r, st') = (if p = Ret 0 then (Ret (), st2) else error_todo st2)"
      using assms(2,3) w p by (auto simp: update_lock_def)
    show ?thesis
    proof (cases "p = Ret 0")
      case True
      with u own w r1 w2 show ?thesis using bump_write_ok[of st1 st2] by (simp add: ready_frame next_def)
    next
      case False
      with p u own w2 show ?thesis by (simp add: error_todo_def crm_def)
    qed
  qed
qed

theorem update_lock_cases_witness:
  "\<exists>st'. update_lock (demo_daemon ''node1'' demo_ldata) = (Ret (), st') \<and> count (ldata st') = 8 \<and>
     lock_area st' = lock_block (bsize (cdata st')) (ldata st')"
proof -
  let ?st = "demo_daemon ''node1'' demo_ldata"
  have rd: "ready ?st" using demo_quiet by (simp add: quiet_with_def)
  obtain d where r: "read_ldata ?st = (Ret 0, ?st\<lparr>ldata := demo_ldata, io := d\<rparr>)" using quiet_read_ldata[OF demo_quiet demo_facts(3)] by blast
  obtain st' where u: "update_lock ?st = (Ret (), st')"
    using quiet_update_own[OF demo_quiet demo_facts(3), of "''node1''"] demo_names by (auto simp: demo_daemon_def)
  from update_lock_cases[OF rd u r] u show ?thesis using demo_names by (auto simp: SFEX_NEXT_COUNT_def SFEX_MAX_COUNT_def)
qed

lemma quiet_acquire_monitor:
  assumes "quiet_with l st" and "wf_lockdata l" and "valid_name (own_name st)"
  shows "\<exists>st' k. and_then acquire_lock (\<lambda>_. monitor_loop n) st = (Ret (), st') \<and>
    cdata st' = cdata st \<and>
    quiet_with k st' \<and> status k = SFEX_STATUS_LOCK \<and> cstr (nodename k) = own_name st \<and>
    count k = (count l + 2 + int n) mod 1000 \<and>
    clock st' = clock st + (if other_holds (own_name st) l then lock_timeout st else 0)
                + collision_timeout st + n * monitor_interval st"
proof -
  let ?t = "(taken_by (own_name st) l)\<lparr>count := SFEX_NEXT_COUNT (SFEX_NEXT_COUNT (count l))\<rparr>"
  obtain s1 where a: "acquire_lock st = (Ret (), s1)" and f: "quiet_with ?t s1" "same_config st s1"
    "clock s1 = clock st + (if other_holds (own_name st) l then lock_timeout st else 0) + collision_timeout st"
    using quiet_acquire_lock[OF assms] by metis
  have "?t = (taken_by (own_name st) l)\<lparr>count := SFEX_NEXT_COUNT (count (taken_by (own_name st) l))\<rparr>"
    by (simp add: taken_by_def)
  then have wf: "wf_lockdata ?t" using wf_lockdata_bump[OF wf_taken_by[OF assms(2,3)]] by simp
  have nm: "cstr (nodename ?t) = own_name st" "status ?t = SFEX_STATUS_LOCK"
    using assms(3) by (simp_all add: taken_by_def valid_name_def strncpy_bytes_def SFEX_MAX_NODENAME_def)
  have c: "own_name s1 = own_name st" "monitor_interval s1 = monitor_interval st"
    using f(2) by (simp_all add: same_config_def)
  let ?k = "?t\<lparr>count := (SFEX_NEXT_COUNT ^^ n) (count ?t)\<rparr>"
  obtain s2 where m: "monitor_loop n s1 = (Ret (), s2)" and g: "quiet_with ?k s2"
    "same_config s1 s2" "clock s2 = clock s1 + n * monitor_interval st"
    using quiet_monitor_loop[OF f(1) wf, of n] c nm assms(3) by auto
  have "(SFEX_NEXT_COUNT ^^ n) (count ?t) = (SFEX_NEXT_COUNT ^^ (n + 2)) (count l)"
    by (simp only: funpow_add o_apply) (simp add: numeral_2_eq_2)
  then have "count ?k = (count l + 2 + int n) mod 1000"
    using next_count_power[of "count l" "n + 2"] assms(2) by (simp add: wf_lockdata_def algebra_simps)
  then show ?thesis
    using a m g f(2,3) nm by (intro exI[of _ s2] exI[of _ ?k]) (simp add: same_config_def)
qed

text \<open>
  A held lock stays held: on a quiet device the daemon acquires the lock, and after any number
  \<open>n\<close> of rounds of its endless loop it has neither exited nor lost it; the counter on the disk has
  advanced by \<open>n + 2\<close> modulo 1000 and \<open>n\<close> monitor intervals have passed.
\<close>

theorem lock_kept:
  assumes "quiet_with l st" and "wf_lockdata l" and "valid_name (own_name st)"
  shows "\<exists>st' k. and_then acquire_lock (\<lambda>_. monitor_loop n) st = (Ret (), st') \<and>
    quiet_with k st' \<and> status k = SFEX_STATUS_LOCK \<and> cstr (nodename k) = own_name st \<and>
    count k = (count l + 2 + int n) mod 1000 \<and>
    clock st' = clock st + (if other_holds (own_name st) l then lock_timeout st else 0)
                + collision_timeout st + n * monitor_interval st"
  using quiet_acquire_monitor[OF assms] by blast

theorem lock_kept_witness:
  "\<exists>st' k. and_then acquire_lock (\<lambda>_. monitor_loop 1000) (demo_daemon ''node2'' demo_ldata) = (Ret (), st') \<and>
     quiet_with k st' \<and> cstr (nodename k) = ''node2'' \<and> count k = 9 \<and> clock st' = 10061"
proof -
  have c: "own_name (demo_daemon ''node2'' demo_ldata) = ''node2''" "clock (demo_daemon ''node2'' demo_ldata) = 0"
    "lock_timeout (demo_daemon ''node2'' demo_ldata) = 60" "collision_timeout (demo_daemon ''node2'' demo_ldata) = 1"
    "monitor_interval (demo_daemon ''node2'' demo_ldata) = 10"
    by (simp_all add: demo_daemon_def)
  obtain st' k where
    "and_then acquire_lock (\<lambda>_. monitor_loop 1000) (demo_daemon ''node2'' demo_ldata) = (Ret (), st')"
    "quiet_with k st'" "cstr (nodename k) = ''node2''" "count k = 9" "clock st' = 10061"
    using lock_kept[OF demo_quiet demo_facts(3), of "''node2''" 1000] demo_names c
    by (auto simp: other_holds_def)
  then show ?thesis by blast
qed

text \<open>What \<open>release_lock\<close> does on a quiet device with the own lock, and in general.\<close>

lemma quiet_release_own:
  assumes "quiet_with l st" and "wf_lockdata l" and "valid_name (own_name st)"
    and "status l = SFEX_STATUS_LOCK" and "cstr (nodename l) = own_name st"
  shows "\<exists>st'. release_lock st = (Ret (), st') \<and> quiet_with (l\<lparr>status := SFEX_STATUS_UNLOCK\<rparr>) st' \<and>
    same_config st st' \<and> clock st' = clock st"
proof -
  let ?u = "l\<lparr>status := SFEX_STATUS_UNLOCK\<rparr>"
  obtain d where r: "read_ldata st = (Ret 0, st\<lparr>ldata := l, io := d\<rparr>)"
    and q: "quiet_with l (st\<lparr>ldata := l, io := d\<rparr>)"
    using quiet_read_ldata[OF assms(1,2)] by blast
  have own: "\<not> not_own_lock (st\<lparr>ldata := l, io := d\<rparr>)"
    using name_compare[OF assms(3) wf_lockdata_name[OF assms(2)]] assms(4,5)
    by (simp add: not_own_lock_def)
  let ?st = "st\<lparr>io := d, ldata := ?u\<rparr>"
  have "quiet_with l ?st" using q by (simp add: quiet_with_def)
  then obtain d2 where w: "write_ldata ?st = (Ret 0, ?st\<lparr>io := d2\<rparr>)"
    and q2: "quiet_with (ldata ?st) (?st\<lparr>io := d2\<rparr>)"
    using quiet_write_ldata by blast
  have "release_lock st = (Ret (), ?st\<lparr>io := d2\<rparr>)" using r own w by (simp add: release_lock_def)
  with q2 show ?thesis by (intro exI[of _ "?st\<lparr>io := d2\<rparr>"]) (simp add: same_config_def)
qed

text \<open>
  C25. Handing the lock over: on a quiet device the termination handler of the holder exits with
  \<open>EXIT_SUCCESS\<close> and leaves the record unlocked with its counter and name; a daemon with any other
  valid name then acquires the lock after \<open>collision_timeout\<close> alone, without waiting for
  \<open>lock_timeout\<close>.
\<close>

theorem lock_handover:
  assumes "quiet_with l st" and "wf_lockdata l" and "valid_name (own_name st)"
    and "status l = SFEX_STATUS_LOCK" and "cstr (nodename l) = own_name st" and "valid_name n"
  shows "\<exists>st' st''. quit_handler st = (Exit EXIT_SUCCESS, st') \<and>
    quiet_with (l\<lparr>status := SFEX_STATUS_UNLOCK\<rparr>) st' \<and>
    acquire_lock (st'\<lparr>own_name := n\<rparr>) = (Ret (), st'') \<and> cstr (nodename (ldata st'')) = n \<and>
    quiet_with (ldata st'') st'' \<and> clock st'' = clock st + collision_timeout st"
proof -
  let ?u = "l\<lparr>status := SFEX_STATUS_UNLOCK\<rparr>"
  obtain s1 where r: "release_lock st = (Ret (), s1)" and f: "quiet_with ?u s1" "same_config st s1" "clock s1 = clock st"
    using quiet_release_own[OF assms(1-5)] by blast
  have q: "quiet_with ?u (s1\<lparr>own_name := n\<rparr>)" using f(1) by (simp add: quiet_with_def)
  have n: "own_name (s1\<lparr>own_name := n\<rparr>) = n" "\<not> other_holds n ?u" "cstr (strncpy_bytes 256 n) = n"
    using assms(6) by (simp_all add: other_holds_def sfex_consts valid_name_def strncpy_bytes_def)
  obtain s2 where "acquire_lock (s1\<lparr>own_name := n\<rparr>) = (Ret (), s2)" "cstr (nodename (ldata s2)) = n"
    "quiet_with (ldata s2) s2" "clock s2 = clock s1 + collision_timeout s1"
    using quiet_acquire_lock[OF q wf_lockdata_status[OF assms(2)]] n assms(6)
    by (auto simp: taken_by_def)
  then show ?thesis
    using r f by (intro exI[of _ s1] exI[of _ s2]) (simp add: quit_handler_def same_config_def)
qed

theorem lock_handover_witness:
  "\<exists>st' st''. quit_handler (demo_daemon ''node1'' demo_ldata) = (Exit EXIT_SUCCESS, st') \<and>
    acquire_lock (st'\<lparr>own_name := ''node2''\<rparr>) = (Ret (), st'') \<and> cstr (nodename (ldata st'')) = ''node2''"
proof -
  have "own_name (demo_daemon ''node1'' demo_ldata) = ''node1''" by (simp add: demo_daemon_def)
  then show ?thesis
    using lock_handover[OF demo_quiet demo_facts(3), of "''node1''" "''node2''"] demo_names by auto
qed

section \<open>The main program in any environment\<close>

lemma ldata_keeps:
  "keeps ready read_ldata" "keeps ready read_ldata_new" "keeps ready write_ldata"
proof -
  show "keeps ready read_ldata"
  proof (rule keepsI)
    fix s r s' assume "ready s" "read_ldata s = (r, s')"
    then show "r \<noteq> Fault \<and> ready s'"
      using ldata_result(1)[of s] read_ldata_cases[of s r s'] ready_config by fastforce
  qed
  show "keeps ready read_ldata_new"
  proof (rule keepsI)
    fix s r s' assume "ready s" "read_ldata_new s = (r, s')"
    then show "r \<noteq> Fault \<and> ready s'"
      using ldata_result(2)[of s] read_ldata_new_cases[of s r s'] ready_config by fastforce
  qed
  show "keeps ready write_ldata"
  proof (rule keepsI)
    fix s r s' assume "ready s" "write_ldata s = (r, s')"
    then show "r \<noteq> Fault \<and> ready s'"
      using ldata_result(3)[of s] write_ldata_cases[of s r s'] ready_config by fastforce
  qed
qed

lemma todo_keeps: "keeps ready error_todo" "keeps ready failure_todo"
  by (auto simp: keeps_def error_todo_def failure_todo_def)

lemma daemon_blocks_keep:
  "keeps ready acquire_check" "keeps ready acquire_reserve" "keeps ready acquire_detect"
  "keeps ready acquire_extend"
  unfolding acquire_check_def acquire_reserve_def acquire_detect_def acquire_extend_def Let_def
  by (intro keeps_rules ldata_keeps; simp add: ready_frame)+

lemma acquire_lock_keeps: "keeps ready acquire_lock"
  unfolding acquire_lock_def by (intro keeps_rules daemon_blocks_keep)

lemma update_lock_keeps: "keeps ready update_lock"
  unfolding update_lock_def
  by (intro keeps_rules ldata_keeps todo_keeps; simp add: ready_frame)

lemma release_lock_keeps: "keeps ready release_lock"
  unfolding release_lock_def
  by (intro keeps_rules ldata_keeps; simp add: ready_frame)

lemma monitor_loop_keeps: "keeps ready (monitor_loop n)"
proof (induction n)
  case 0
  have "monitor_loop 0 = Pair (Ret ())" by (rule ext) simp
  then show ?case by (auto intro: keeps_rules)
next
  case (Suc n)
  have "monitor_loop (Suc n) =
      (\<lambda>st. and_then update_lock (\<lambda>_. monitor_loop n) (sleep_for (monitor_interval st) st))"
    by (rule ext) simp
  with Suc show ?case by (auto intro!: keeps_rules update_lock_keeps simp: ready_frame)
qed

lemma prepare_lock_cases:
  assumes "prepare_lock d ssz scr = (r, dv)"
  shows "r \<noteq> Fault" and "r = Ret x \<Longrightarrow> length (locked_mem dv) = unat (sector_size dv) \<and> sector_size dv = scast ssz"
  using assms
  by (auto simp: prepare_lock_def Let_def split: prod.splits if_splits dest: next_call_frame)

lemma lock_index_check_cases:
  assumes "lock_index_check c i dv = (r, c', dv')"
    and "unat (sector_size dv) = length (locked_mem dv)" and "261 \<le> unat (sector_size dv)"
  shows "(\<exists>x. r = Ret x) \<and> (r \<noteq> Ret (- 1) \<longrightarrow> sfex_ready c' dv' \<and> i \<le> numlocks c')"
proof -
  obtain q cd dv1 where rd: "read_controldata c dv = (q, cd, dv1)" by (cases "read_controldata c dv")
  have "q = Ret 0 \<or> q = Ret (- 1)" using read_controldata_result[OF assms(2), of c] assms(3) rd by auto
  with rd assms(1) have "(\<exists>x. r = Ret x) \<and> (r \<noteq> Ret (- 1) \<longrightarrow> r = Ret 0)"
    by (auto simp: lock_index_check_def split: if_splits)
  with lock_index_check_ok[of c i dv c' dv'] assms show ?thesis
    by (auto simp: sfex_ready_def same_geometry_def)
qed

text \<open>
  The start of the daemon, on devices with sectors of at least 261 bytes: it does not leave its
  buffer, and when it gets as far as the loop the index is one of the device's locks.
\<close>

lemma daemon_start_cases:
  assumes "daemon_start env ops st = (r, st')" and "261 \<le> unat (scast (dev_sector env) :: 64 word)"
  shows "r \<noteq> Fault \<and> (r = Ret () \<longrightarrow> ready st' \<and> lock_index st' \<le> numlocks (cdata st'))"
proof (cases "length ops = 1")
  case False
  then have "daemon_start env ops st = (Exit EXIT_FAILURE, st)"
    by (cases ops) (simp_all add: daemon_start_def)
  then show ?thesis using assms(1) by simp
next
  case True
  then have ops: "ops \<noteq> []" by auto
  obtain q d where pr: "prepare_lock (dev_contents env) (dev_sector env) (dev_script env) = (q, d)"
    by (cases "prepare_lock (dev_contents env) (dev_sector env) (dev_script env)")
  obtain q2 cd d2 where ck: "lock_index_check (cdata st) (lock_index st) d = (q2, cd, d2)"
    by (cases "lock_index_check (cdata st) (lock_index st) d")
  let ?st = "st\<lparr>cdata := cd, io := d2\<rparr>"
  let ?go = "and_then acquire_lock (\<lambda>_ st3. if \<not> daemonizes env
      then and_then release_lock (\<lambda>_ st4. (Exit EXIT_FAILURE, st4)) st3 else (Ret (), st3)) ?st"
  have st: "st\<lparr>io := d\<rparr>\<lparr>cdata := cd, io := d2\<rparr> = ?st" by simp
  have k: "keeps ready (and_then acquire_lock (\<lambda>_ st3. if \<not> daemonizes env
      then and_then release_lock (\<lambda>_ st4. (Exit EXIT_FAILURE, st4)) st3 else (Ret (), st3)))"
    by (intro keeps_rules acquire_lock_keeps release_lock_keeps; simp)
  show ?thesis
  proof (cases "(\<exists>x. q = Ret x) \<and> sysrq_opens env \<and> q2 \<noteq> Ret (- 1) \<and> sigaction_ok env")
    case False
    with pr ck ops True assms prepare_lock_cases[OF pr] lock_index_check_cases[OF ck] show ?thesis
      by (auto simp: daemon_start_def Let_def split: result.splits if_splits)
  next
    case ok: True
    then have g: "unat (sector_size d) = length (locked_mem d)" "261 \<le> unat (sector_size d)"
      using prepare_lock_cases(2)[OF pr] assms(2) by auto
    obtain x where x: "q2 = Ret x" using lock_index_check_cases[OF ck g] by blast
    have rdy: "x \<noteq> - 1" "ready ?st" "lock_index ?st \<le> numlocks (cdata ?st)"
      using lock_index_check_cases[OF ck g] ok x by simp_all
    with x have "?go = (r, st')"
      using ok pr ck ops True assms(1) st by (auto simp: daemon_start_def Let_def)
    moreover have "same_config ?st st'" if "r = Ret ()"
      using calculation that acquire_lock_ok(1)[OF _ rdy(2)] by (auto simp: and_then_Ret split: if_splits)
    ultimately show ?thesis using keepsD[OF k _ rdy(2)] rdy(3) by (auto simp: same_config_def)
  qed
qed

lemma daemon_option_no_fault: "fst (daemon_option p st) \<noteq> Fault"
  by (simp add: daemon_option_def Let_def)

lemma daemon_options_no_fault: "fst (daemon_options ps st) \<noteq> Fault"
  by (induction ps arbitrary: st) (auto simp: and_then_Fault daemon_option_no_fault)

text \<open>
  C26. Memory safety of the daemon: for every command line, every answer of the system at start-up,
  every pattern of failing and interrupted calls and of other nodes' writes, and any number of
  rounds, no step of the program accesses memory outside \<open>locked_mem\<close>, provided the device's
  sector size is at least the 261 bytes of a lock record.
\<close>

theorem daemon_memory_safe:
  assumes "261 \<le> unat (scast (dev_sector env) :: 64 word)"
  shows "fst (sfex_daemon_main env args n) \<noteq> Fault"
proof -
  have "fst (get_nodename (uname_node env) (strdup_ok env), ()) \<noteq> Fault"
    by (simp add: get_nodename_def split: option.splits)
  moreover have "fst (and_then (and_then (daemon_options os) (\<lambda>_. daemon_start env ops))
      (\<lambda>_. monitor_loop n) st) \<noteq> Fault" for os ops st
  proof -
    have "fst (daemon_start env ops s) \<noteq> Fault" for s
      using daemon_start_cases[OF _ assms, of ops s] by (cases "daemon_start env ops s") auto
    moreover have "fst (monitor_loop n s') \<noteq> Fault"
      if "daemon_start env ops s = (Ret (), s')" for s s'
      using daemon_start_cases[OF that assms] monitor_loop_keeps[of n] by (simp add: keeps_def)
    ultimately show ?thesis
      by (auto simp: and_then_Fault and_then_Ret daemon_options_no_fault)
  qed
  ultimately show ?thesis
    by (simp add: sfex_daemon_main_def split: result.splits prod.splits)
qed

definition demo_env :: sfex_env where
  "demo_env = \<lparr>uname_node = Some ''node2'', strdup_ok = True, dev_contents = [], dev_sector = 512,
     dev_script = [], sysrq_opens = True, sigaction_ok = True, daemonizes = True,
     env_fork_ok = True, env_sysrq_ok = True\<rparr>"

theorem daemon_memory_safe_witness: "fst (sfex_daemon_main demo_env [''/dev/sdb1''] 3) \<noteq> Fault"
  by (rule daemon_memory_safe) (simp add: demo_env_def)

text \<open>A device whose first block is a control block and whose block \<open>i\<close> holds the record \<open>l\<close>.\<close>

definition initialised :: "sfex_controldata \<Rightarrow> nat \<Rightarrow> sfex_lockdata \<Rightarrow> char list \<Rightarrow> bool" where
  "initialised cd i l d \<longleftrightarrow>
     wf_controldata cd \<and> 261 \<le> bsize cd \<and> 1 \<le> i \<and> int i \<le> numlocks cd \<and>
     bsize cd * (i + 1) \<le> length d \<and> region 0 (bsize cd) d = control_block (bsize cd) cd \<and>
     region (bsize cd * i) (bsize cd) d = lock_block (bsize cd) l"

text \<open>Opening such a device and checking the index, as the daemon and \<open>sfex_stat\<close> do.\<close>

lemma quiet_open_check:
  assumes "initialised cd i l d" and "blocksize cd = scast ssz"
  shows "\<exists>dv dv2. prepare_lock d ssz [] = (Ret 0, dv) \<and> lock_index_check c0 (int i) dv = (Ret 0, cd, dv2) \<and>
    script dv2 = [] \<and> disk dv2 = d \<and> sfex_ready cd dv2 \<and> lock_in_range cd (int i) dv2 \<and>
    lock_on_disk cd (int i) d = lock_block (bsize cd) l"
proof -
  let ?n = "bsize cd"
  let ?dv = "\<lparr>disk = d, fpos = 0, locked_mem = replicate ?n NUL, sector_size = blocksize cd, script = []\<rparr>"
  have i: "wf_controldata cd" "261 \<le> ?n" "int i \<le> numlocks cd" "?n * (i + 1) \<le> length d"
    "region 0 ?n d = control_block ?n cd" "region (?n * i) ?n d = lock_block ?n l"
    using assms(1) by (auto simp: initialised_def)
  have "blocksize cd \<noteq> 0" using i(2) by auto
  then have pr: "prepare_lock d ssz [] = (Ret 0, ?dv)"
    using assms(2) by (simp add: prepare_lock_def next_call_def)
  have "parse_controldata (region 0 ?n d) c0 = Some (0, cd)"
    using parse_control_block[OF i(1), of ?n "[]"] i(5) by simp
  then obtain dv2 where rd: "read_controldata c0 ?dv = (Ret 0, cd, dv2)"
    and dv2: "disk dv2 = d" "script dv2 = []" "length (locked_mem dv2) = ?n" "sector_size dv2 = blocksize cd"
    using quiet_read_controldata[of ?dv c0 0 cd] i(4) by auto
  have p: "lock_pos cd (int i) = ?n * i" "0 \<le> lock_offset cd (int i)"
    using lock_pos_eq[of "int i" cd] lock_offset_eq[of "int i" cd] i(1,3) by (simp_all add: wf_controldata_def)
  have "lock_index_check c0 (int i) ?dv = (Ret 0, cd, dv2)"
    using rd dv2(4) i(3) by (simp add: lock_index_check_def)
  moreover have "sfex_ready cd dv2" using dv2 i(2) by (simp add: sfex_ready_def)
  moreover have "lock_in_range cd (int i) dv2" "lock_on_disk cd (int i) d = lock_block ?n l"
    using p i(4,6) dv2 by (simp_all add: lock_in_range_def lock_on_disk_def algebra_simps)
  ultimately show ?thesis using pr dv2 by blast
qed

lemma quiet_start:
  assumes "initialised cd i l (dev_contents env)" and "blocksize cd = scast (dev_sector env)"
    and "dev_script env = []" and "sysrq_opens env" and "sigaction_ok env" and "lock_index st = int i"
  shows "\<exists>d. daemon_start env [device] st =
      and_then acquire_lock (\<lambda>_ st3. if \<not> daemonizes env
        then and_then release_lock (\<lambda>_ st4. (Exit EXIT_FAILURE, st4)) st3 else (Ret (), st3))
        (st\<lparr>cdata := cd, io := d\<rparr>) \<and> quiet_with l (st\<lparr>cdata := cd, io := d\<rparr>)"
proof -
  obtain dv dv2 where o: "prepare_lock (dev_contents env) (dev_sector env) [] = (Ret 0, dv)"
    "lock_index_check (cdata st) (int i) dv = (Ret 0, cd, dv2)"
    and f: "script dv2 = []" "disk dv2 = dev_contents env" "sfex_ready cd dv2" "lock_in_range cd (int i) dv2"
      "lock_on_disk cd (int i) (dev_contents env) = lock_block (bsize cd) l"
    using quiet_open_check[OF assms(1,2), of "cdata st"] by blast
  have "quiet_with l (st\<lparr>cdata := cd, io := dv2\<rparr>)"
    using f assms(6) by (simp add: quiet_with_def)
  moreover have "daemon_start env [device] st = and_then acquire_lock (\<lambda>_ st3. if \<not> daemonizes env
        then and_then release_lock (\<lambda>_ st4. (Exit EXIT_FAILURE, st4)) st3 else (Ret (), st3))
        (st\<lparr>cdata := cd, io := dv2\<rparr>)"
    using o assms(3-6) by (simp add: daemon_start_def)
  ultimately show ?thesis by blast
qed

end
