(* ===== verification/Sfex_Tools.thy ===== *)
theory Sfex_Tools
  imports Sfex_Daemon
begin

text \<open>
  The two commands around the daemon: \<^verbatim>\<open>src/tools/sfex_init.c\<close> writes the control block and
  the lock blocks of a fresh device, \<^verbatim>\<open>src/tools/sfex_stat.c\<close> prints them and reports with its
  exit code whether the own node holds a lock.  The answers of the system are those of
  \<open>sfex_env\<close>; local variables the C code leaves uninitialised are arguments.
\<close>

text \<open>The device before a program opens it.\<close>

definition unopened :: "sfex_env \<Rightarrow> sfex_io" where
  "unopened env = \<lparr>disk = dev_contents env, fpos = 0, locked_mem = [], sector_size = 0,
                   script = dev_script env\<rparr>"

text \<open>The \<open>getopt\<close> loop of both programs: \<open>-h\<close>, and one option with a number from 1 to 999.\<close>

fun number_options :: "char \<Rightarrow> (char \<times> string) list \<Rightarrow> int \<Rightarrow> int result" where
  "number_options oc [] v = Ret v"
| "number_options oc ((c, optarg) # ps) v =
     (let l = strtoul10 optarg in
      if c = CHR ''h'' then Exit 0
      else if c = oc then
        (if l < SFEX_MIN_NUMLOCKS \<or> l > SFEX_MAX_NUMLOCKS then Exit 4 else number_options oc ps (int l))
      else if c = CHR ''?'' then Exit 4
      else number_options oc ps v)"

section \<open>sfex_init\<close>

fun write_locks :: "sfex_controldata \<Rightarrow> sfex_lockdata \<Rightarrow> int \<Rightarrow> nat \<Rightarrow> sfex_io \<Rightarrow> unit result \<times> sfex_io" where
  "write_locks cd ld index 0 dv = (Ret (), dv)"
| "write_locks cd ld index (Suc k) dv =
     and_then (write_lockdata cd ld index)
       (\<lambda>rc dv. if rc = - 1 then (Exit 3, dv) else write_locks cd ld (index + 1) k dv) dv"

definition sfex_init_write ::
  "sfex_env \<Rightarrow> sfex_controldata \<Rightarrow> sfex_lockdata \<Rightarrow> int \<Rightarrow> sfex_io \<Rightarrow> unit result \<times> sfex_io" where
  "sfex_init_write env cdata0 ldata0 n dv =
     (case get_nodename (uname_node env) (strdup_ok env) of
        Exit e \<Rightarrow> (Exit e, dv)
      | Fault \<Rightarrow> (Fault, dv)
      | Ret _ \<Rightarrow>
          let cd = init_controldata cdata0 (sector_size dv) n; ld = init_lockdata ldata0 in
          and_then (and_then (write_controldata cd) (\<lambda>_. write_locks cd ld 1 (nat n)))
            (\<lambda>_ dv. (Exit 0, dv)) dv)"

definition sfex_init_main ::
  "sfex_env \<Rightarrow> sfex_controldata \<Rightarrow> sfex_lockdata \<Rightarrow> string list \<Rightarrow> unit result \<times> sfex_io" where
  "sfex_init_main env cdata0 ldata0 args =
     (case getopt_all ''hn:'' args of (opts, operands) \<Rightarrow>
        case number_options (CHR ''n'') opts 1 of
          Exit e \<Rightarrow> (Exit e, unopened env)
        | Fault \<Rightarrow> (Fault, unopened env)
        | Ret n \<Rightarrow>
            if length operands \<noteq> 1 then (Exit 4, unopened env)
            else case prepare_lock (dev_contents env) (dev_sector env) (dev_script env) of (r, dv) \<Rightarrow>
              case r of
                Exit e \<Rightarrow> (Exit e, dv)
              | Fault \<Rightarrow> (Fault, dv)
              | Ret _ \<Rightarrow> sfex_init_write env cdata0 ldata0 n dv)"

section \<open>sfex_stat\<close>

definition hex_digit :: "nat \<Rightarrow> char" where
  "hex_digit n = ''0123456789abcdef'' ! n"

text \<open>\<open>printf "0x%02x"\<close> of a \<open>char\<close>, which is signed and promoted to \<open>int\<close>.\<close>

definition print_hex :: "char \<Rightarrow> string" where
  "print_hex c = (let n = (of_char c :: nat) in
     ''0x'' @ (if n < 128 then [] else ''ffffff'') @ [hex_digit (n div 16), hex_digit (n mod 16)])"

definition print_controldata :: "sfex_controldata \<Rightarrow> string" where
  "print_controldata cd =
     ''control data:'' @ [CHR 0x0A] @
     ''  magic: '' @ print_hex (magic cd ! 0) @ '', '' @ print_hex (magic cd ! 1) @ '', ''
       @ print_hex (magic cd ! 2) @ '', '' @ print_hex (magic cd ! 3) @ [CHR 0x0A] @
     ''  version: '' @ show_int (version cd) @ [CHR 0x0A] @
     ''  revision: '' @ show_int (revision cd) @ [CHR 0x0A] @
     ''  blocksize: '' @ show_int (sint (ucast (blocksize cd) :: 32 word)) @ [CHR 0x0A] @
     ''  numlocks: '' @ show_int (numlocks cd) @ [CHR 0x0A]"

definition print_lockdata :: "sfex_lockdata \<Rightarrow> int \<Rightarrow> string" where
  "print_lockdata ld index =
     ''lock data #'' @ show_int index @ '':'' @ [CHR 0x0A] @
     ''  status: '' @ (if status ld = SFEX_STATUS_UNLOCK then ''unlock'' else ''lock'') @ [CHR 0x0A] @
     ''  count: '' @ show_int (count ld) @ [CHR 0x0A] @
     ''  nodename: '' @ cstr (nodename ld) @ [CHR 0x0A]"

text \<open>After the index check: the exit code and the standard output.\<close>

definition sfex_stat_report ::
  "string \<Rightarrow> sfex_controldata \<Rightarrow> sfex_lockdata \<Rightarrow> int \<Rightarrow> sfex_io \<Rightarrow> unit result \<times> string" where
  "sfex_stat_report name cd ldata0 index dv =
     (case read_lockdata cd ldata0 index dv of (r, ld, dv') \<Rightarrow>
        case r of
          Exit e \<Rightarrow> (Exit e, [])
        | Fault \<Rightarrow> (Fault, [])
        | Ret _ \<Rightarrow>
            let shown = print_controldata cd @ print_lockdata ld index in
            if status ld \<noteq> SFEX_STATUS_LOCK \<or> \<not> strcmp_eq (nodename ld) name
            then (Exit 2, shown @ ''status is UNLOCKED.'' @ [CHR 0x0A])
            else (Exit 0, shown @ ''status is LOCKED.'' @ [CHR 0x0A]))"

definition sfex_stat_main ::
  "sfex_env \<Rightarrow> sfex_controldata \<Rightarrow> sfex_lockdata \<Rightarrow> string list \<Rightarrow> unit result \<times> string" where
  "sfex_stat_main env cdata0 ldata0 args =
     (case getopt_all ''hi:'' args of (opts, operands) \<Rightarrow>
        case number_options (CHR ''i'') opts 1 of
          Exit e \<Rightarrow> (Exit e, [])
        | Fault \<Rightarrow> (Fault, [])
        | Ret index \<Rightarrow>
            if length operands \<noteq> 1 then (Exit 4, [])
            else case get_nodename (uname_node env) (strdup_ok env) of
              Exit e \<Rightarrow> (Exit e, [])
            | Fault \<Rightarrow> (Fault, [])
            | Ret name \<Rightarrow>
                case prepare_lock (dev_contents env) (dev_sector env) (dev_script env) of (r, dv) \<Rightarrow>
                  case r of
                    Exit e \<Rightarrow> (Exit e, [])
                  | Fault \<Rightarrow> (Fault, [])
                  | Ret _ \<Rightarrow>
                      case lock_index_check cdata0 index dv of (r2, cd, dv2) \<Rightarrow>
                        case r2 of
                          Exit e \<Rightarrow> (Exit e, [])
                        | Fault \<Rightarrow> (Fault, [])
                        | Ret ret \<Rightarrow>
                            if ret = - 1 then (Exit EXIT_FAILURE, [])
                            else sfex_stat_report name cd ldata0 index dv2)"

section \<open>Lemmas\<close>

lemma number_options_range:
  "number_options oc ps v = Ret n \<Longrightarrow> 1 \<le> v \<Longrightarrow> v \<le> 999 \<Longrightarrow> 1 \<le> n \<and> n \<le> 999"
  by (induction oc ps v rule: number_options.induct)
    (auto simp: Let_def SFEX_MIN_NUMLOCKS_def SFEX_MAX_NUMLOCKS_def split: if_splits)

text \<open>The loop over the lock blocks on a quiet device.\<close>

lemma quiet_write_locks:
  assumes "script dv = []" and "sfex_ready cd dv" and "1 \<le> i" and "bsize cd \<le> 9999999"
    and "i + k \<le> 1000" and "bsize cd * (i + k) \<le> length (disk dv)"
  shows "\<exists>dv'. write_locks cd ld (int i) k dv = (Ret (), dv') \<and> script dv' = [] \<and>
    same_geometry dv dv' \<and>
    disk dv' = fold (\<lambda>j. put_region (bsize cd * j) (lock_block (bsize cd) ld)) [i ..< i + k] (disk dv)"
  using assms
proof (induction k arbitrary: i dv)
  case 0
  then show ?case by simp
next
  case (Suc k)
  let ?b = "lock_block (bsize cd) ld" and ?n = "bsize cd"
  have p: "lock_pos cd (int i) = ?n * i" "0 \<le> lock_offset cd (int i)"
    using Suc.prems lock_pos_eq[of "int i" cd] lock_offset_eq[of "int i" cd] by simp_all
  have "?n * i + ?n \<le> length (disk dv)" using Suc.prems(6) by (simp add: algebra_simps)
  with p have range: "lock_in_range cd (int i) dv" by (simp add: lock_in_range_def)
  let ?dv = "dv\<lparr>disk := put_region (?n * i) ?b (disk dv), fpos := ?n * i + ?n, locked_mem := ?b\<rparr>"
  have w: "write_lockdata cd ld (int i) dv = (Ret 0, ?dv)"
    using quiet_write_lockdata[OF Suc.prems(1,2) range] by (simp add: p)
  have l: "length ?b = ?n" "?n * i + ?n \<le> length (disk dv)" "length (locked_mem dv) = ?n"
    using Suc.prems(2) range p by (auto simp: sfex_ready_def length_lock_block lock_in_range_def)
  then have g: "same_geometry dv ?dv" by (simp add: same_geometry_def)
  obtain dv' where "write_locks cd ld (int (Suc i)) k ?dv = (Ret (), dv')" "script dv' = []"
    "same_geometry ?dv dv'"
    "disk dv' = fold (\<lambda>j. put_region (?n * j) ?b) [Suc i ..< Suc i + k] (disk ?dv)"
    using Suc.IH[of ?dv "Suc i"] Suc.prems ready_geometry[OF Suc.prems(2) g] l by auto
  moreover have "[i ..< i + Suc k] = i # [Suc i ..< Suc i + k]" by (simp add: upt_conv_Cons)
  ultimately show ?case
    using w same_geometry_trans[OF g] by (intro exI[of _ dv']) (auto simp: add.commute)
qed

text \<open>
  What \<open>sfex_init\<close> leaves on a quiet device: the control block, then \<open>n\<close> lock blocks, and the
  rest of the device untouched.
\<close>

definition free_lockdata :: sfex_lockdata where
  "free_lockdata = zero_lockdata\<lparr>status := SFEX_STATUS_UNLOCK\<rparr>"

lemma wf_free_lockdata: "wf_lockdata free_lockdata"
  by (simp add: wf_lockdata_def free_lockdata_def zero_lockdata_def wf_name_def strncpy_bytes_def SFEX_MAX_COUNT_def)

lemma init_lockdata_block:
  assumes "length (nodename l) = 256"
  shows "lock_block n (init_lockdata l) = lock_block n free_lockdata"
proof -
  have "cstr ((nodename l)[0 := NUL]) = []" using assms by (cases "nodename l") (simp_all add: cstr_Cons)
  then show ?thesis
    by (simp add: lock_block_def init_lockdata_def free_lockdata_def zero_lockdata_def name256.field_def)
qed

lemma drop_puts:
  assumes "\<forall>j\<in>set js. off j + length x \<le> m" and "m \<le> length d"
  shows "drop m (fold (\<lambda>j. put_region (off j) x) js d) = drop m d \<and>
         length (fold (\<lambda>j. put_region (off j) x) js d) = length d"
  using assms
proof (induction js arbitrary: d)
  case (Cons j js)
  then have "off j + length x \<le> m" "off j + length x \<le> length d" by auto
  then have "drop m (put_region (off j) x d) = drop m d" "length (put_region (off j) x d) = length d"
    by (simp_all add: put_region_def)
  with Cons show ?case by simp
qed simp

lemma init_write_blocks:
  assumes "script dv = []" and "unat (sector_size dv) = length (locked_mem dv)"
    and "261 \<le> unat (sector_size dv)" and "unat (sector_size dv) \<le> 9999999"
    and "1 \<le> n" and "n \<le> 999" and "unat (sector_size dv) * (n + 1) \<le> length (disk dv)"
  shows "\<exists>dv'. and_then (write_controldata (init_controldata c (sector_size dv) (int n)))
      (\<lambda>_. write_locks (init_controldata c (sector_size dv) (int n)) l 1 n) dv = (Ret (), dv') \<and>
    disk dv' = fold (\<lambda>j. put_region (unat (sector_size dv) * j) (lock_block (unat (sector_size dv)) l)) [1 ..< n + 1]
      (put_region 0 (control_block (unat (sector_size dv)) (init_controldata c (sector_size dv) (int n))) (disk dv))"
proof -
  let ?c = "init_controldata c (sector_size dv) (int n)" and ?b = "unat (sector_size dv)"
  let ?m = "control_block ?b ?c"
  have bs: "blocksize ?c = sector_size dv" and m: "length (magic ?c) = 4"
    by (simp_all add: init_controldata_def SFEX_MAGIC_def)
  have r: "sfex_ready ?c dv" using assms(2,3) bs by (simp add: sfex_ready_def)
  have l: "length ?m = ?b" using assms(3) m by (simp add: length_control_block)
  have fit: "?b \<le> length (disk dv)" using assms(7) by simp
  let ?dv = "dv\<lparr>disk := put_region 0 ?m (disk dv), fpos := ?b, locked_mem := ?m\<rparr>"
  have w: "write_controldata ?c dv = (Ret (), ?dv)"
    using quiet_write_controldata[OF assms(1) r _ m] bs fit by simp
  have "same_geometry dv ?dv" using l fit assms(2) by (simp add: same_geometry_def)
  then have "sfex_ready ?c ?dv" by (rule ready_geometry[OF r])
  then obtain dv' where "write_locks ?c l (int 1) n ?dv = (Ret (), dv')"
    "disk dv' = fold (\<lambda>j. put_region (?b * j) (lock_block ?b l)) [1 ..< 1 + n] (disk ?dv)"
    using quiet_write_locks[of ?dv ?c 1 n l] assms l fit bs by (auto simp: add.commute)
  with w show ?thesis by (intro exI[of _ dv']) simp
qed

text \<open>The command lines \<^verbatim>\<open>-n n device\<close> and \<^verbatim>\<open>-i n device\<close>.\<close>

lemma getopt_number:
  assumes "takes_arg os c = Some True" and "c \<noteq> CHR ''-''" and "hd device \<noteq> CHR ''-''"
  shows "getopt_all os [[CHR ''-'', c], show_nat n, device] = ([(c, show_nat n)], [device])"
  using assms by auto

lemma number_options_one:
  assumes "1 \<le> n" and "n \<le> 999" and "oc \<noteq> CHR ''h''"
  shows "number_options oc [(oc, show_nat n)] v = Ret (int n)"
  using assms by (simp add: ULONG_MAX_def SFEX_MIN_NUMLOCKS_def SFEX_MAX_NUMLOCKS_def)

lemma init_formats:
  fixes env :: sfex_env
  defines "b \<equiv> unat (scast (dev_sector env) :: 64 word)"
  assumes "1 \<le> n" and "n \<le> 999" and "hd device \<noteq> CHR ''-''"
    and "get_nodename (uname_node env) (strdup_ok env) = Ret name" and "dev_script env = []"
    and "261 \<le> b" and "b \<le> 9999999" and "b * (n + 1) \<le> length (dev_contents env)"
    and "length (nodename ld0) = 256"
  shows "\<exists>dv. sfex_init_main env cd0 ld0 [''-n'', show_nat n, device] = (Exit 0, dv) \<and>
    region 0 b (disk dv) = control_block b (init_controldata cd0 (scast (dev_sector env)) (int n)) \<and>
    (\<forall>i \<in> {1..n}. region (b * i) b (disk dv) = lock_block b free_lockdata) \<and>
    drop (b * (n + 1)) (disk dv) = drop (b * (n + 1)) (dev_contents env) \<and>
    length (disk dv) = length (dev_contents env)"
proof -
  let ?s = "scast (dev_sector env) :: 64 word" and ?d = "dev_contents env"
  let ?c = "init_controldata cd0 ?s (int n)" and ?l = "lock_block b (init_lockdata ld0)"
  let ?dv = "\<lparr>disk = ?d, fpos = 0, locked_mem = replicate b NUL, sector_size = ?s, script = []\<rparr>"
  have "?s \<noteq> 0" using assms(7) by (auto simp: b_def)
  then have pr: "prepare_lock ?d (dev_sector env) [] = (Ret 0, ?dv)"
    by (simp add: prepare_lock_def next_call_def b_def)
  let ?d1 = "put_region 0 (control_block b ?c) ?d"
  obtain dv where w: "and_then (write_controldata ?c) (\<lambda>_. write_locks ?c (init_lockdata ld0) 1 n) ?dv = (Ret (), dv)"
    and d: "disk dv = fold (\<lambda>j. put_region (b * j) ?l) [1 ..< n + 1] ?d1"
    using init_write_blocks[of ?dv n cd0 "init_lockdata ld0"] assms(2,3,6-9) by (auto simp: b_def)
  have "sfex_init_main env cd0 ld0 [''-n'', show_nat n, device] = (Exit 0, dv)"
    using assms(2-6) pr w getopt_number[of "''hn:''" "CHR ''n''" device n] number_options_one[of n "CHR ''n''" 1]
    by (simp add: sfex_init_main_def sfex_init_write_def b_def del: getopt_all.simps number_options.simps)
  moreover have lc: "length (control_block b ?c) = b" "length ?l = b" "b \<le> length ?d"
    using assms(7,9) by (simp_all add: length_control_block length_lock_block init_controldata_def SFEX_MAGIC_def)
  then have l1: "b * (n + 1) \<le> length ?d1" "length ?d1 = length ?d" using assms(9) by simp_all
  have g: "region (b * j) b (disk dv) = (if j \<in> {1..<n + 1} then ?l else region (b * j) b ?d1)" for j
    unfolding d using disk_blocks.get_puts[OF l1(1) lc(2), of "[1 ..< n + 1]" j]
    by (simp del: upt.simps)
  have "region 0 b (disk dv) = control_block b ?c"
    using g[of 0] region_put_same[of 0 "control_block b ?c" ?d] lc by simp
  moreover have "\<forall>i\<in>{1..n}. region (b * i) b (disk dv) = lock_block b free_lockdata"
    using g init_lockdata_block[OF assms(10)] by simp
  moreover have "b * j + b \<le> b * (n + 1)" if "j < n + 1" for j
    using mult_le_mono2[of "Suc j" "n + 1" b] that by simp
  then have "drop (b * (n + 1)) (disk dv) = drop (b * (n + 1)) ?d1 \<and> length (disk dv) = length ?d1"
    unfolding d using lc l1 by (intro drop_puts) auto
  ultimately show ?thesis using lc l1 by (simp add: put_region_def add.commute)
qed

section \<open>Properties\<close>

text \<open>
  C11. \<open>sfex_init\<close> formats the device: with \<open>-n n\<close> (1 to 999, default 1) on a quiet device of at
  least \<open>blocksize * (1 + n)\<close> bytes it exits with 0; block 0 is the control block for \<open>n\<close> locks of
  the sector size, blocks 1 to \<open>n\<close> are unlocked records with counter 0 and an empty name, whatever
  the uninitialised local variables held, and every byte behind them is unchanged.
\<close>

theorem sfex_init_formats:
  fixes env :: sfex_env
  defines "b \<equiv> unat (scast (dev_sector env) :: 64 word)"
  assumes "1 \<le> n" and "n \<le> 999" and "hd device \<noteq> CHR ''-''"
    and "get_nodename (uname_node env) (strdup_ok env) = Ret name" and "dev_script env = []"
    and "261 \<le> b" and "b \<le> 9999999" and "b * (n + 1) \<le> length (dev_contents env)"
    and "length (nodename ld0) = 256"
  shows "\<exists>dv. sfex_init_main env cd0 ld0 [''-n'', show_nat n, device] = (Exit 0, dv) \<and>
    region 0 b (disk dv) = control_block b (init_controldata cd0 (scast (dev_sector env)) (int n)) \<and>
    (\<forall>i \<in> {1..n}. region (b * i) b (disk dv) = lock_block b free_lockdata) \<and>
    drop (b * (n + 1)) (disk dv) = drop (b * (n + 1)) (dev_contents env) \<and>
    length (disk dv) = length (dev_contents env)"
  using init_formats[OF assms(2-6)] assms(7-) unfolding b_def .

definition blank_env :: sfex_env where
  "blank_env = demo_env\<lparr>dev_contents := replicate 2000 NUL\<rparr>"

lemma blank_env_facts:
  "get_nodename (uname_node blank_env) (strdup_ok blank_env) = Ret ''node2''"
  "dev_script blank_env = []" "dev_sector blank_env = 512" "dev_contents blank_env = replicate 2000 NUL"
  by (simp_all add: blank_env_def demo_env_def get_nodename_def SFEX_MAX_NODENAME_def)

theorem sfex_init_formats_witness:
  "\<exists>dv. sfex_init_main blank_env zero_controldata zero_lockdata [''-n'', show_nat 2, ''/dev/sdb1''] = (Exit 0, dv) \<and>
     region 1024 512 (disk dv) = lock_block 512 free_lockdata \<and> drop 1536 (disk dv) = replicate 464 NUL"
proof -
  obtain dv where "sfex_init_main blank_env zero_controldata zero_lockdata [''-n'', show_nat 2, ''/dev/sdb1''] = (Exit 0, dv)"
    "\<forall>i \<in> {1..2}. region (512 * i) 512 (disk dv) = lock_block 512 free_lockdata"
    "drop 1536 (disk dv) = replicate 464 NUL"
    using sfex_init_formats[OF _ _ _ blank_env_facts(1,2), of 2 "''/dev/sdb1''" zero_lockdata zero_controldata]
    by (auto simp: blank_env_facts zero_lockdata_def)
  moreover have "(2::nat) \<in> {1..2}" by simp
  ultimately show ?thesis by (intro exI[of _ dv]) force
qed

lemma quiet_stat_report:
  assumes "script dv = []" and "sfex_ready cd dv" and "lock_in_range cd index dv" and "wf_lockdata l"
    and "lock_on_disk cd index (disk dv) = lock_block (bsize cd) l" and "c_string name"
  shows "fst (sfex_stat_report name cd ld0 index dv) =
    Exit (if status l = SFEX_STATUS_LOCK \<and> cstr (nodename l) = name then 0 else 2)"
proof -
  have "parse_lockdata (lock_on_disk cd index (disk dv)) ld0 = Some (0, l)"
    using parse_lock_block[OF assms(4), of _ "[]"] by (simp add: assms(5))
  from quiet_read_lockdata[OF assms(1-3) this] show ?thesis
    using assms(6) by (simp add: sfex_stat_report_def strcmp_eq_def Let_def)
qed

text \<open>
  The exit code of \<open>sfex_stat\<close>: for every lock \<open>i\<close> of an initialised, quiet device it is 0
  when the record is locked with the own node name and 2 otherwise.
\<close>

theorem sfex_stat_exit_code:
  assumes "initialised cd i l (dev_contents env)" and "wf_lockdata l"
    and "blocksize cd = scast (dev_sector env)" and "dev_script env = []"
    and "get_nodename (uname_node env) (strdup_ok env) = Ret name" and "c_string name"
    and "hd device \<noteq> CHR ''-''"
  shows "fst (sfex_stat_main env cd0 ld0 [''-i'', show_nat i, device]) =
    Exit (if status l = SFEX_STATUS_LOCK \<and> cstr (nodename l) = name then 0 else 2)"
proof -
  have i: "1 \<le> i" "i \<le> 999" using assms(1) by (auto simp: initialised_def wf_controldata_def)
  obtain dv dv2 where o: "prepare_lock (dev_contents env) (dev_sector env) [] = (Ret 0, dv)"
    "lock_index_check cd0 (int i) dv = (Ret 0, cd, dv2)"
    and f: "script dv2 = []" "disk dv2 = dev_contents env" "sfex_ready cd dv2" "lock_in_range cd (int i) dv2"
      "lock_on_disk cd (int i) (dev_contents env) = lock_block (bsize cd) l"
    using quiet_open_check[OF assms(1,3), of cd0] by blast
  have "sfex_stat_main env cd0 ld0 [''-i'', show_nat i, device] = sfex_stat_report name cd ld0 (int i) dv2"
    using assms(4,5,7) o i getopt_number[of "''hi:''" "CHR ''i''" device i] number_options_one[of i "CHR ''i''" 1]
    by (simp add: sfex_stat_main_def del: getopt_all.simps number_options.simps)
  then show ?thesis using quiet_stat_report[OF f(1,3,4) assms(2) _ assms(6)] f(2,5) by simp
qed

text \<open>
  The unchecked reading in \<open>sfex_stat\<close>: when \<open>read_lockdata\<close> fails, the exit code is computed
  from the uninitialised local record, not from the disk; depending on what the stack held, the
  same device is reported as locked by the own node or as not locked.
\<close>

theorem sfex_stat_unread:
  assumes "script dv = [(ws, Failed)]"
  shows "fst (sfex_stat_report name cd ld0 index dv) =
    Exit (if status ld0 = SFEX_STATUS_LOCK \<and> cstr (nodename ld0) = cstr name then 0 else 2)"
  using assms by (simp add: sfex_stat_report_def read_lockdata_def sys_lseek_def next_call_def
      strcmp_eq_def Let_def)

definition demo_device :: "char list" where
  "demo_device = put_region 512 (lock_block 512 demo_ldata)
     (put_region 0 (control_block 512 demo_cdata) (disk demo_io))"

lemma demo_initialised: "initialised demo_cdata 1 demo_ldata demo_device"
proof -
  let ?c = "control_block 512 demo_cdata" and ?l = "lock_block 512 demo_ldata"
  have l: "length ?c = 512" "length ?l = 512" "length (put_region 0 ?c (disk demo_io)) = 1536"
    using demo_facts(6) by (simp_all add: length_control_block length_lock_block demo_cdata_def SFEX_MAGIC_def)
  have "region 512 512 demo_device = ?l"
    using region_put_same[of 512 ?l "put_region 0 ?c (disk demo_io)"] l by (simp add: demo_device_def)
  moreover have "region 0 512 demo_device = ?c"
    using region_put_same[of 0 ?c "disk demo_io"] region_put_other[of 512 ?l "put_region 0 ?c (disk demo_io)" 0 512]
      l demo_facts(6) by (simp add: demo_device_def)
  moreover have "length demo_device = 1536" using l by (simp add: demo_device_def)
  ultimately show ?thesis using demo_facts(4,5) by (simp add: initialised_def demo_cdata_def)
qed

lemma demo_stat_env:
  "blocksize demo_cdata = scast (dev_sector demo_env)" "dev_script demo_env = []"
  "get_nodename (uname_node demo_env) (strdup_ok demo_env) = Ret ''node2''" "c_string ''node2''"
  by (simp_all add: demo_cdata_def demo_env_def get_nodename_def SFEX_MAX_NODENAME_def c_string_def)

theorem sfex_stat_exit_code_witness:
  "fst (sfex_stat_main (demo_env\<lparr>dev_contents := demo_device\<rparr>) zero_controldata zero_lockdata
     [''-i'', show_nat 1, ''/dev/sdb1'']) = Exit 2"
  using sfex_stat_exit_code[of demo_cdata 1 demo_ldata "demo_env\<lparr>dev_contents := demo_device\<rparr>" "''node2''"
      "''/dev/sdb1''" zero_controldata zero_lockdata]
    demo_initialised demo_facts(3) demo_stat_env demo_names by simp

theorem sfex_stat_unread_witness:
  "fst (sfex_stat_report ''node1'' demo_cdata demo_ldata 1 (demo_io\<lparr>script := [([], Failed)]\<rparr>)) = Exit 0 \<and>
   fst (sfex_stat_report ''node1'' demo_cdata zero_lockdata 1 (demo_io\<lparr>script := [([], Failed)]\<rparr>)) = Exit 2"
  using sfex_stat_unread[of "demo_io\<lparr>script := [([], Failed)]\<rparr>" "[]" "''node1''" demo_cdata _ 1] demo_names
  by (simp add: cstr_Cons zero_lockdata_def sfex_consts)

end
