(* ===== verification/Sfex_Protocol.thy ===== *)
theory Sfex_Protocol
  imports C_Lib
begin

text \<open>
  The lock protocol of \<^verbatim>\<open>src/tools/sfex_daemon.c\<close> between any number of nodes, as a timed step relation: the
  record on the disk is whether it is locked, by whom, and the number of its update; every node is
  at a program point between two accesses to the disk.  \<open>acquire_lock\<close> checks the holder, reserves,
  waits and detects collisions, extends; the holder updates and releases.  A node has a time before
  which it does not go on (a sleep) and one by which it has gone on: \<open>slack\<close> bounds the time between the
  end of a sleep or a read and the next access.  A node may crash at any time and start again later.
  The counter on the disk is the number of the update modulo 1000.
\<close>

datatype point = Idle | Waiting | Reserving | Colliding | Extending | Holding | Updating | Releasing | Gone

record node =
  point :: point
  seen :: nat       \<comment> \<open>the number of the update in the own copy of the record\<close>
  read_at :: nat    \<comment> \<open>when the record was read\<close>
  wake :: nat
  due :: nat

record 'n protocol =
  locked :: bool
  holder :: 'n
  update_no :: nat
  now :: nat
  node_at :: "'n \<Rightarrow> node"

record timing =
  slack :: nat
  collision_time :: nat
  lock_time :: nat
  monitor_time :: nat

definition timing_ok :: "timing \<Rightarrow> bool" where
  "timing_ok t \<longleftrightarrow> slack t < collision_time t \<and> collision_time t + 4 * slack t < lock_time t \<and>
     monitor_time t + 3 * slack t < lock_time t"

definition bound_by :: "node \<Rightarrow> bool" where
  "bound_by n \<longleftrightarrow> point n \<notin> {Idle, Waiting, Gone}"

inductive protocol_step :: "timing \<Rightarrow> 'n protocol \<Rightarrow> 'n protocol \<Rightarrow> bool" for t where
  tick: "(\<And>i. bound_by (node_at s i) \<Longrightarrow> now s < due (node_at s i)) \<Longrightarrow> protocol_step t s (s\<lparr>now := now s + 1\<rparr>)"
| check_free: "point (node_at s i) = Idle \<Longrightarrow> \<not> (locked s \<and> holder s \<noteq> i) \<Longrightarrow>
    protocol_step t s (s\<lparr>node_at := (node_at s)(i := \<lparr>point = Reserving, seen = update_no s, read_at = now s, wake = now s,
      due = now s + slack t\<rparr>)\<rparr>)"
| check_held: "point (node_at s i) = Idle \<Longrightarrow> locked s \<Longrightarrow> holder s \<noteq> i \<Longrightarrow>
    protocol_step t s (s\<lparr>node_at := (node_at s)(i := \<lparr>point = Waiting, seen = update_no s, read_at = now s,
      wake = now s + lock_time t, due = 0\<rparr>)\<rparr>)"
| check_same: "point (node_at s i) = Waiting \<Longrightarrow> wake (node_at s i) \<le> now s \<Longrightarrow> update_no s < seen (node_at s i) + 1000 \<Longrightarrow>
    update_no s mod 1000 = seen (node_at s i) mod 1000 \<Longrightarrow>
    protocol_step t s (s\<lparr>node_at := (node_at s)(i := (node_at s i)\<lparr>point := Reserving, read_at := now s, wake := now s,
      due := now s + slack t\<rparr>)\<rparr>)"
| check_changed: "point (node_at s i) = Waiting \<Longrightarrow> wake (node_at s i) \<le> now s \<Longrightarrow>
    update_no s mod 1000 \<noteq> seen (node_at s i) mod 1000 \<Longrightarrow>
    protocol_step t s (s\<lparr>node_at := (node_at s)(i := (node_at s i)\<lparr>point := Gone, wake := now s + slack t\<rparr>)\<rparr>)"
| reserve: "point (node_at s i) = Reserving \<Longrightarrow>
    protocol_step t s (s\<lparr>locked := True, holder := i, update_no := seen (node_at s i) + 1,
      node_at := (node_at s)(i := (node_at s i)\<lparr>point := Colliding, seen := seen (node_at s i) + 1,
        wake := now s + collision_time t, due := now s + collision_time t + slack t\<rparr>)\<rparr>)"
| detect_none: "point (node_at s i) = Colliding \<Longrightarrow> wake (node_at s i) \<le> now s \<Longrightarrow> holder s = i \<Longrightarrow>
    protocol_step t s (s\<lparr>node_at := (node_at s)(i := (node_at s i)\<lparr>point := Extending, wake := now s, due := now s + slack t\<rparr>)\<rparr>)"
| detect_collision: "point (node_at s i) = Colliding \<Longrightarrow> wake (node_at s i) \<le> now s \<Longrightarrow> holder s \<noteq> i \<Longrightarrow>
    protocol_step t s (s\<lparr>node_at := (node_at s)(i := (node_at s i)\<lparr>point := Gone, wake := now s + slack t\<rparr>)\<rparr>)"
| write_own: "point (node_at s i) = Extending \<or> point (node_at s i) = Updating \<Longrightarrow>
    protocol_step t s (s\<lparr>locked := True, holder := i, update_no := seen (node_at s i) + 1,
      node_at := (node_at s)(i := (node_at s i)\<lparr>point := Holding, seen := seen (node_at s i) + 1,
        wake := now s + monitor_time t, due := now s + monitor_time t + slack t\<rparr>)\<rparr>)"
| update_read: "point (node_at s i) = Holding \<Longrightarrow> wake (node_at s i) \<le> now s \<Longrightarrow> locked s \<Longrightarrow> holder s = i \<Longrightarrow>
    protocol_step t s (s\<lparr>node_at := (node_at s)(i := (node_at s i)\<lparr>point := Updating, seen := update_no s, wake := now s, due := now s + slack t\<rparr>)\<rparr>)"
| release_read: "point (node_at s i) \<in> {Extending, Holding, Updating} \<Longrightarrow> locked s \<Longrightarrow> holder s = i \<Longrightarrow>
    protocol_step t s (s\<lparr>node_at := (node_at s)(i := (node_at s i)\<lparr>point := Releasing, seen := update_no s, wake := now s, due := now s + slack t\<rparr>)\<rparr>)"
| release: "point (node_at s i) = Releasing \<Longrightarrow>
    protocol_step t s (s\<lparr>locked := False, holder := i, update_no := seen (node_at s i),
      node_at := (node_at s)(i := (node_at s i)\<lparr>point := Gone, wake := now s + slack t\<rparr>)\<rparr>)"
| crash: "protocol_step t s (s\<lparr>node_at := (node_at s)(i := (node_at s i)\<lparr>point := Gone, wake := now s + slack t\<rparr>)\<rparr>)"
| restart: "point (node_at s i) = Gone \<Longrightarrow> wake (node_at s i) < now s \<Longrightarrow>
    protocol_step t s (s\<lparr>node_at := (node_at s)(i := (node_at s i)\<lparr>point := Idle\<rparr>)\<rparr>)"

section \<open>The invariant\<close>

definition owns :: "'n protocol \<Rightarrow> 'n \<Rightarrow> bool" where
  "owns s i \<longleftrightarrow> point (node_at s i) \<in> {Extending, Holding, Updating, Releasing}"

text \<open>A node that has the lock, or will have it unless another node reserves it.\<close>

definition incumbent :: "'n protocol \<Rightarrow> 'n \<Rightarrow> bool" where
  "incumbent s i \<longleftrightarrow> owns s i \<or> point (node_at s i) = Colliding \<and> holder s = i"

text \<open>The latest time of the next write of a node.\<close>

definition writes_by :: "timing \<Rightarrow> node \<Rightarrow> nat" where
  "writes_by t n = due n + (if point n = Colliding \<or> point n = Holding then 2 * slack t
     else if point n = Extending \<or> point n = Updating then slack t else 0)"

definition timer_ok :: "timing \<Rightarrow> nat \<Rightarrow> node \<Rightarrow> bool" where
  "timer_ok t time n \<longleftrightarrow>
     (case point n of
        Reserving \<Rightarrow> time \<le> due n \<and> read_at n \<le> time \<and> due n = read_at n + slack t
      | Waiting \<Rightarrow> read_at n \<le> time \<and> wake n = read_at n + lock_time t
      | Colliding \<Rightarrow> time \<le> due n \<and> due n = wake n + slack t \<and> wake n \<le> time + collision_time t
      | Holding \<Rightarrow> time \<le> due n \<and> due n = wake n + slack t \<and> wake n \<le> time + monitor_time t
      | Idle \<Rightarrow> True
      | Gone \<Rightarrow> True
      | _ \<Rightarrow> time \<le> due n \<and> due n \<le> time + slack t)"

definition timers_inv :: "timing \<Rightarrow> 'n protocol \<Rightarrow> bool" where
  "timers_inv t s \<longleftrightarrow> (\<forall>i. timer_ok t (now s) (node_at s i))"

text \<open>An incumbent's copy is the record on the disk.\<close>

definition record_inv :: "'n protocol \<Rightarrow> bool" where
  "record_inv s \<longleftrightarrow> (\<forall>i. incumbent s i \<longrightarrow> locked s \<and> holder s = i \<and> update_no s = seen (node_at s i))"

text \<open>Nobody is about to reserve the lock when it is owned, and who still may do so before a collision is detected.\<close>

definition race_inv :: "'n protocol \<Rightarrow> bool" where
  "race_inv s \<longleftrightarrow> (\<forall>i j. point (node_at s j) = Reserving \<longrightarrow> \<not> owns s i \<and>
     (point (node_at s i) = Colliding \<and> holder s = i \<longrightarrow> due (node_at s j) < wake (node_at s i)))"

text \<open>The numbers of the updates.\<close>

definition below_inv :: "'n protocol \<Rightarrow> bool" where
  "below_inv s \<longleftrightarrow> (\<forall>j. point (node_at s j) = Waiting \<or> point (node_at s j) = Reserving \<longrightarrow> seen (node_at s j) \<le> update_no s)"

definition equal_inv :: "'n protocol \<Rightarrow> bool" where
  "equal_inv s \<longleftrightarrow> (\<exists>v. \<forall>j. point (node_at s j) = Reserving \<longrightarrow> seen (node_at s j) = v)"

definition order_inv :: "'n protocol \<Rightarrow> bool" where
  "order_inv s \<longleftrightarrow> (\<forall>i j. point (node_at s i) = Reserving \<longrightarrow> point (node_at s j) = Waiting \<longrightarrow>
     seen (node_at s j) \<le> seen (node_at s i) \<or> read_at (node_at s i) \<le> read_at (node_at s j))"

text \<open>A record newer than the copy of a node that is about to reserve: \<open>h\<close> is its holder.\<close>

definition ahead :: "bool \<Rightarrow> nat \<Rightarrow> node \<Rightarrow> node \<Rightarrow> bool" where
  "ahead l v n h \<longleftrightarrow> l \<and> v = seen n + 1 \<and> (point h = Colliding \<or> point h = Gone \<and> due n \<le> wake h)"

definition ahead_inv :: "'n protocol \<Rightarrow> bool" where
  "ahead_inv s \<longleftrightarrow> (\<forall>j. point (node_at s j) = Reserving \<longrightarrow> update_no s = seen (node_at s j) \<or>
     ahead (locked s) (update_no s) (node_at s j) (node_at s (holder s)))"

text \<open>A node that waits for the lock to expire will see an update of a live holder.\<close>

definition wait_inv :: "timing \<Rightarrow> 'n protocol \<Rightarrow> bool" where
  "wait_inv t s \<longleftrightarrow> (\<forall>i j. incumbent s i \<longrightarrow> point (node_at s j) = Waiting \<longrightarrow>
     seen (node_at s j) < update_no s \<or> writes_by t (node_at s i) < wake (node_at s j))"

definition protocol_inv :: "timing \<Rightarrow> 'n protocol \<Rightarrow> bool" where
  "protocol_inv t s \<longleftrightarrow> timers_inv t s \<and> record_inv s \<and> race_inv s \<and> below_inv s \<and> equal_inv s \<and> order_inv s \<and> ahead_inv s \<and> wait_inv t s"

lemmas inv_defs = timers_inv_def record_inv_def race_inv_def below_inv_def equal_inv_def order_inv_def ahead_inv_def wait_inv_def

lemma timer_tick: "timer_ok t time n \<Longrightarrow> (bound_by n \<Longrightarrow> time < due n) \<Longrightarrow> timer_ok t (time + 1) n"
  by (cases "point n") (auto simp: timer_ok_def bound_by_def)

lemma timers_step: "protocol_step t s s' \<Longrightarrow> timers_inv t s \<Longrightarrow> timers_inv t s'"
proof (induction rule: protocol_step.induct)
  case (tick s)
  then show ?case using timer_tick unfolding timers_inv_def by auto
qed (simp_all add: timers_inv_def timer_ok_def)

text \<open>A node that waits sees a change while there is an incumbent, and nobody passes the check then.\<close>

lemma incumbent_seen:
  assumes "protocol_inv t s" and "incumbent s i" and "point (node_at s j) = Waiting" and "wake (node_at s j) \<le> now s"
  shows "seen (node_at s j) < update_no s"
proof -
  have "timer_ok t (now s) (node_at s i)" using assms(1) by (simp add: protocol_inv_def timers_inv_def)
  then have "now s \<le> writes_by t (node_at s i)"
    using assms(2) by (auto simp: incumbent_def owns_def timer_ok_def writes_by_def)
  moreover have "seen (node_at s j) < update_no s \<or> writes_by t (node_at s i) < wake (node_at s j)"
    using assms(1-3) by (simp add: protocol_inv_def wait_inv_def)
  ultimately show ?thesis using assms(4) by linarith
qed

lemma same_number:
  fixes a b :: nat
  assumes "a mod 1000 = b mod 1000" and "b \<le> a" and "a < b + 1000"
  shows "a = b"
proof -
  have "1000 dvd a - b" using mod_eq_dvd_iff_nat[OF assms(2), of 1000] assms(1) by simp
  moreover have "a - b < 1000" using assms(2,3) by simp
  ultimately have "a - b = 0" using nat_dvd_not_less[of "a - b" 1000] by auto
  with assms(2) show ?thesis by simp
qed

lemma check_same_number:
  assumes "protocol_inv t s" and "point (node_at s j) = Waiting" and "update_no s < seen (node_at s j) + 1000"
    and "update_no s mod 1000 = seen (node_at s j) mod 1000"
  shows "update_no s = seen (node_at s j)"
  using assms(1-3) by (intro same_number[OF assms(4)]) (auto simp: protocol_inv_def below_inv_def)

text \<open>The check of the holder: while there is an incumbent, no other node passes it.\<close>

lemma check_passes:
  assumes "protocol_inv t s" and "incumbent s i"
  shows "\<not> (point (node_at s j) = Idle \<and> \<not> (locked s \<and> holder s \<noteq> j))"
    and "\<not> (point (node_at s j) = Waiting \<and> wake (node_at s j) \<le> now s \<and> update_no s = seen (node_at s j))"
proof -
  have "locked s \<and> holder s = i" using assms by (auto simp: protocol_inv_def record_inv_def)
  moreover have "point (node_at s i) \<noteq> Idle" using assms(2) by (auto simp: incumbent_def owns_def)
  ultimately show "\<not> (point (node_at s j) = Idle \<and> \<not> (locked s \<and> holder s \<noteq> j))" by auto
  show "\<not> (point (node_at s j) = Waiting \<and> wake (node_at s j) \<le> now s \<and> update_no s = seen (node_at s j))"
    using incumbent_seen[OF assms, of j] by auto
qed

lemma owners_equal: "protocol_inv t s \<Longrightarrow> incumbent s i \<Longrightarrow> incumbent s j \<Longrightarrow> i = j"
  by (auto simp: protocol_inv_def record_inv_def)

lemma reserving_alone: "protocol_inv t s \<Longrightarrow> point (node_at s j) = Reserving \<Longrightarrow> \<not> owns s i"
  by (auto simp: protocol_inv_def race_inv_def)

text \<open>The ways a step changes the state: one node, or one node and the record.\<close>

abbreviation node_upd :: "'n protocol \<Rightarrow> 'n \<Rightarrow> node \<Rightarrow> 'n protocol" where
  "node_upd s i n \<equiv> s\<lparr>node_at := (node_at s)(i := n)\<rparr>"

abbreviation disk_upd :: "'n protocol \<Rightarrow> bool \<Rightarrow> 'n \<Rightarrow> nat \<Rightarrow> node \<Rightarrow> 'n protocol" where
  "disk_upd s l i v n \<equiv> s\<lparr>locked := l, holder := i, update_no := v, node_at := (node_at s)(i := n)\<rparr>"

definition owner :: "node \<Rightarrow> bool" where
  "owner n \<longleftrightarrow> point n = Extending \<or> point n = Holding \<or> point n = Updating \<or> point n = Releasing"

lemma owns_owner: "owns s i = owner (node_at s i)"
  by (simp add: owns_def owner_def)

lemma record_node:
  assumes "record_inv s" and "owner n \<or> point n = Colliding \<and> holder s = i \<Longrightarrow> locked s \<and> holder s = i \<and> update_no s = seen n"
  shows "record_inv (node_upd s i n)"
  using assms by (simp add: record_inv_def incumbent_def owns_owner)

lemma record_disk:
  assumes "\<And>j. j \<noteq> i \<Longrightarrow> \<not> owns s j" and "owner n \<or> point n = Colliding \<Longrightarrow> l \<and> v = seen n"
  shows "record_inv (disk_upd s l i v n)"
  using assms by (simp add: record_inv_def incumbent_def owns_owner)

lemma own_alone:
  assumes "protocol_inv t s" and "owns s i"
  shows "j \<noteq> i \<Longrightarrow> \<not> incumbent s j" "j \<noteq> i \<Longrightarrow> \<not> owns s j" "locked s" "holder s = i" "update_no s = seen (node_at s i)"
    "point (node_at s j) \<noteq> Reserving"
  using assms owners_equal[OF assms(1), of i j] reserving_alone[OF assms(1), of j i]
  by (auto simp: incumbent_def protocol_inv_def record_inv_def)

lemma record_step: "protocol_step t s s' \<Longrightarrow> protocol_inv t s \<Longrightarrow> record_inv s'"
proof (induction rule: protocol_step.induct)
  case (tick s)
  then show ?case by (simp add: protocol_inv_def record_inv_def incumbent_def owns_def)
next
  case (reserve s i)
  then show ?case using reserving_alone[OF reserve(2,1)] by (intro record_disk) auto
next
  case (write_own s i)
  then have "owns s i" by (auto simp: owns_def)
  from own_alone(2)[OF write_own(2) this] show ?case by (intro record_disk) simp_all
next
  case (release s i)
  then have "owns s i" by (auto simp: owns_def)
  from own_alone(2)[OF release(2) this] show ?case by (intro record_disk) (simp_all add: owner_def)
next
  case (detect_none s i)
  then have "incumbent s i" by (simp add: incumbent_def)
  then have "locked s" "update_no s = seen (node_at s i)" using detect_none(4) by (simp_all add: protocol_inv_def record_inv_def)
  with detect_none show ?case by (intro record_node) (simp_all add: protocol_inv_def)
qed (intro record_node; simp add: protocol_inv_def owner_def)+

lemma race_node:
  assumes "race_inv s" and "\<And>k. point n = Reserving \<Longrightarrow> k \<noteq> i \<Longrightarrow> \<not> incumbent s k"
    and "\<And>j. owner n \<Longrightarrow> j \<noteq> i \<Longrightarrow> point (node_at s j) \<noteq> Reserving"
    and "\<And>j. point n = Colliding \<Longrightarrow> holder s = i \<Longrightarrow> j \<noteq> i \<Longrightarrow> point (node_at s j) = Reserving \<Longrightarrow> due (node_at s j) < wake n"
  shows "race_inv (node_upd s i n)"
  using assms by (auto simp: race_inv_def incumbent_def owns_owner owner_def)

lemma race_disk:
  assumes "race_inv s" and "point n \<noteq> Reserving"
    and "\<And>j. owner n \<Longrightarrow> j \<noteq> i \<Longrightarrow> point (node_at s j) \<noteq> Reserving"
    and "\<And>j. point n = Colliding \<Longrightarrow> j \<noteq> i \<Longrightarrow> point (node_at s j) = Reserving \<Longrightarrow> due (node_at s j) < wake n"
  shows "race_inv (disk_upd s l i v n)"
  using assms by (auto simp: race_inv_def owns_owner)

lemma timerD: "protocol_inv t s \<Longrightarrow> timer_ok t (now s) (node_at s i)"
  by (simp add: protocol_inv_def timers_inv_def)

lemma raceD: "protocol_inv t s \<Longrightarrow> race_inv s"
  by (simp add: protocol_inv_def)

lemma detect_alone:
  assumes "protocol_inv t s" and "point (node_at s i) = Colliding" and "wake (node_at s i) \<le> now s" and "holder s = i"
  shows "point (node_at s j) \<noteq> Reserving"
proof
  assume j: "point (node_at s j) = Reserving"
  then have "due (node_at s j) < wake (node_at s i)"
    using raceD[OF assms(1)] assms(2,4) by (simp add: race_inv_def)
  moreover have "now s \<le> due (node_at s j)" using timerD[OF assms(1), of j] j by (simp add: timer_ok_def)
  ultimately show False using assms(3) by simp
qed

lemma race_step: "protocol_step t s s' \<Longrightarrow> timing_ok t \<Longrightarrow> protocol_inv t s \<Longrightarrow> race_inv s'"
proof (induction rule: protocol_step.induct)
  case (tick s)
  then show ?case by (simp add: protocol_inv_def race_inv_def owns_def)
next
  case (check_free s i)
  then have "\<not> incumbent s k" for k using check_passes(1)[OF check_free(4), of k i] by blast
  then show ?case by (intro race_node raceD[OF check_free(4)]) (simp_all add: owner_def)
next
  case (check_same s i)
  then have "\<not> incumbent s k" for k
    using check_passes(2)[OF check_same(6), of k i] check_same_number[OF check_same(6,1,3,4)] by blast
  then show ?case by (intro race_node raceD[OF check_same(6)]) (simp_all add: owner_def)
next
  case (reserve s i)
  have "due (node_at s j) < now s + collision_time t" if "point (node_at s j) = Reserving" for j
    using timerD[OF reserve(3), of j] that reserve(2) by (simp add: timer_ok_def timing_ok_def)
  then show ?case by (intro race_disk raceD[OF reserve(3)]) (simp_all add: owner_def)
next
  case (detect_none s i)
  have "point (node_at s j) \<noteq> Reserving" for j by (rule detect_alone[OF detect_none(5,1-3)])
  then show ?case by (intro race_node raceD[OF detect_none(5)]) simp_all
next
  case (write_own s i)
  then have "owns s i" by (auto simp: owns_def)
  from own_alone(6)[OF write_own(3) this] show ?case by (intro race_disk raceD[OF write_own(3)]) simp_all
next
  case (update_read s i)
  then have "owns s i" by (simp add: owns_def)
  from own_alone(6)[OF update_read(6) this] show ?case by (intro race_node raceD[OF update_read(6)]) simp_all
next
  case (release_read s i)
  then have "owns s i" by (auto simp: owns_def)
  from own_alone(6)[OF release_read(5) this] show ?case by (intro race_node raceD[OF release_read(5)]) simp_all
next
  case (release s i)
  then show ?case by (intro race_disk raceD[OF release(3)]) (simp_all add: owner_def)
qed (intro race_node; simp add: raceD owner_def)+

lemma numberD:
  assumes "protocol_inv t s"
  shows "below_inv s" "equal_inv s" "order_inv s" "ahead_inv s"
  using assms by (simp_all add: protocol_inv_def)

lemma below_node: "below_inv s \<Longrightarrow> (point n = Waiting \<or> point n = Reserving \<Longrightarrow> seen n \<le> update_no s) \<Longrightarrow> below_inv (node_upd s i n)"
  by (simp add: below_inv_def)

lemma below_disk:
  assumes "below_inv s" and "point n \<noteq> Waiting" and "point n \<noteq> Reserving" and "update_no s \<le> v"
  shows "below_inv (disk_upd s l i v n)"
  using assms le_trans[OF _ assms(4)] by (simp add: below_inv_def)

lemma equal_node:
  assumes "equal_inv s" and "\<And>j. point n = Reserving \<Longrightarrow> point (node_at s j) = Reserving \<Longrightarrow> seen (node_at s j) = seen n"
  shows "equal_inv (node_upd s i n)"
proof -
  obtain v where "\<And>j. point (node_at s j) = Reserving \<Longrightarrow> seen (node_at s j) = v" using assms(1) unfolding equal_inv_def by blast
  then show ?thesis unfolding equal_inv_def
    using assms(2) by (intro exI[of _ "if point n = Reserving then seen n else v"]) simp
qed

lemma order_node:
  assumes "order_inv s"
    and "\<And>j. point n = Reserving \<Longrightarrow> point (node_at s j) = Waiting \<Longrightarrow> seen (node_at s j) \<le> seen n"
    and "\<And>j. point n = Waiting \<Longrightarrow> point (node_at s j) = Reserving \<Longrightarrow> read_at (node_at s j) \<le> read_at n"
  shows "order_inv (node_upd s i n)"
  using assms by (simp add: order_inv_def)

lemma equal_order_disk:
  "equal_inv s \<Longrightarrow> point n \<noteq> Reserving \<Longrightarrow> equal_inv (disk_upd s l i v n)"
  "order_inv s \<Longrightarrow> point n \<noteq> Reserving \<Longrightarrow> point n \<noteq> Waiting \<Longrightarrow> order_inv (disk_upd s l i v n)"
  by (auto simp: equal_inv_def) (simp add: order_inv_def)

lemma ahead_node:
  assumes "ahead_inv s" and "point n = Reserving \<Longrightarrow> seen n = update_no s"
    and "\<And>j. point (node_at s j) = Reserving \<Longrightarrow> holder s = i \<Longrightarrow>
      ahead (locked s) (update_no s) (node_at s j) (node_at s i) \<Longrightarrow> ahead (locked s) (update_no s) (node_at s j) n"
  shows "ahead_inv (node_upd s i n)"
  unfolding ahead_inv_def
proof (intro allI impI)
  fix j
  assume "point (node_at (node_upd s i n) j) = Reserving"
  then consider "j = i" "point n = Reserving" | "j \<noteq> i" "point (node_at s j) = Reserving" by (simp split: if_splits)
  then show "update_no (node_upd s i n) = seen (node_at (node_upd s i n) j) \<or> ahead (locked (node_upd s i n)) (update_no (node_upd s i n))
      (node_at (node_upd s i n) j) (node_at (node_upd s i n) (holder (node_upd s i n)))"
  proof cases
    case 2
    then have "update_no s = seen (node_at s j) \<or> ahead (locked s) (update_no s) (node_at s j) (node_at s (holder s))"
      using assms(1) by (simp add: ahead_inv_def)
    then show ?thesis using 2 assms(3)[of j] by (cases "holder s = i") auto
  qed (use assms(2) in simp)
qed

lemma ahead_disk:
  assumes "point n \<noteq> Reserving" and "\<And>j. j \<noteq> i \<Longrightarrow> point (node_at s j) = Reserving \<Longrightarrow> ahead l v (node_at s j) n"
  shows "ahead_inv (disk_upd s l i v n)"
  using assms by (simp add: ahead_inv_def)

lemma number_facts:
  assumes "protocol_inv t s"
  shows "point (node_at s i) = Reserving \<Longrightarrow> point (node_at s j) = Reserving \<Longrightarrow> seen (node_at s j) = seen (node_at s i)"
    and "point (node_at s j) = Waiting \<or> point (node_at s j) = Reserving \<Longrightarrow> seen (node_at s j) \<le> update_no s"
    and "point (node_at s j) = Reserving \<Longrightarrow> update_no s \<noteq> seen (node_at s j) \<Longrightarrow>
      ahead (locked s) (update_no s) (node_at s j) (node_at s (holder s))"
    and "point (node_at s i) = Reserving \<Longrightarrow> update_no s \<le> seen (node_at s i) + 1"
proof -
  show "seen (node_at s j) = seen (node_at s i)" if "point (node_at s i) = Reserving" "point (node_at s j) = Reserving"
    using numberD(2)[OF assms] that unfolding equal_inv_def by metis
  show "seen (node_at s j) \<le> update_no s" if "point (node_at s j) = Waiting \<or> point (node_at s j) = Reserving"
    using numberD(1)[OF assms] that unfolding below_inv_def by blast
  have a: "update_no s = seen (node_at s k) \<or> ahead (locked s) (update_no s) (node_at s k) (node_at s (holder s))"
    if "point (node_at s k) = Reserving" for k
    using numberD(4)[OF assms] that unfolding ahead_inv_def by blast
  show "ahead (locked s) (update_no s) (node_at s j) (node_at s (holder s))"
    if "point (node_at s j) = Reserving" "update_no s \<noteq> seen (node_at s j)" using a that by blast
  show "update_no s \<le> seen (node_at s i) + 1" if "point (node_at s i) = Reserving" using a[OF that] by (auto simp: ahead_def)
qed

text \<open>Who passes the check has the number of all others that are about to reserve.\<close>

lemma free_current:
  assumes "protocol_inv t s" and "point (node_at s i) = Idle" and "\<not> (locked s \<and> holder s \<noteq> i)"
    and "point (node_at s j) = Reserving"
  shows "seen (node_at s j) = update_no s"
proof (rule ccontr)
  assume "seen (node_at s j) \<noteq> update_no s"
  then have "ahead (locked s) (update_no s) (node_at s j) (node_at s (holder s))" using number_facts(3)[OF assms(1,4)] by simp
  then show False using assms(2,3) by (auto simp: ahead_def)
qed

lemma same_current:
  assumes "protocol_inv t s" and "timing_ok t" and "point (node_at s i) = Waiting" and "wake (node_at s i) \<le> now s"
    and "update_no s = seen (node_at s i)" and "point (node_at s j) = Reserving"
  shows "seen (node_at s j) = update_no s"
proof (rule ccontr)
  assume "seen (node_at s j) \<noteq> update_no s"
  then have "update_no s = seen (node_at s j) + 1" using number_facts(3)[OF assms(1,6)] by (simp add: ahead_def)
  then have "read_at (node_at s j) \<le> read_at (node_at s i)"
    using numberD(3)[OF assms(1)] assms(3,5,6) unfolding order_inv_def by fastforce
  moreover have "wake (node_at s i) = read_at (node_at s i) + lock_time t" using timerD[OF assms(1), of i] assms(3) by (simp add: timer_ok_def)
  moreover have "now s \<le> read_at (node_at s j) + slack t" using timerD[OF assms(1), of j] assms(6) by (simp add: timer_ok_def)
  ultimately show False using assms(2,4) by (simp add: timing_ok_def)
qed

definition number_inv :: "'n protocol \<Rightarrow> bool" where
  "number_inv s \<longleftrightarrow> below_inv s \<and> equal_inv s \<and> order_inv s \<and> ahead_inv s"

lemma number_disk:
  assumes "protocol_inv t s" and "point n \<noteq> Waiting" and "point n \<noteq> Reserving" and "update_no s \<le> v"
    and "\<And>j. j \<noteq> i \<Longrightarrow> point (node_at s j) = Reserving \<Longrightarrow> ahead l v (node_at s j) n"
  shows "number_inv (disk_upd s l i v n)"
  unfolding number_inv_def using assms(2-5) numberD[OF assms(1)]
  by (intro conjI below_disk equal_order_disk ahead_disk) simp_all

text \<open>A node that stays away from the lock, or stays an owner.\<close>

lemma number_away:
  assumes "protocol_inv t s" and "point n \<noteq> Waiting" and "point n \<noteq> Reserving"
    and "\<And>j. point (node_at s j) = Reserving \<Longrightarrow> holder s = i \<Longrightarrow>
      ahead (locked s) (update_no s) (node_at s j) (node_at s i) \<Longrightarrow> ahead (locked s) (update_no s) (node_at s j) n"
  shows "number_inv (node_upd s i n)"
  unfolding number_inv_def using assms(2-4) numberD[OF assms(1)]
  by (intro conjI below_node equal_node order_node ahead_node) simp_all

lemma number_step: "protocol_step t s s' \<Longrightarrow> timing_ok t \<Longrightarrow> protocol_inv t s \<Longrightarrow> number_inv s'"
proof (induction rule: protocol_step.induct)
  case (tick s)
  then show ?case using numberD[OF tick(3)]
    by (simp add: number_inv_def below_inv_def equal_inv_def order_inv_def ahead_inv_def)
next
  case (check_free s i)
  note c = free_current[OF check_free(4,1,2)] and N = numberD[OF check_free(4)]
  have "ahead (locked s) (update_no s) n (node_at s i) \<Longrightarrow> False" for n using check_free(1) by (simp add: ahead_def)
  then show ?case unfolding number_inv_def using c N number_facts(2)[OF check_free(4)]
    by (intro conjI below_node equal_node order_node ahead_node) auto
next
  case (check_held s i)
  have "read_at (node_at s j) \<le> now s" if "point (node_at s j) = Reserving" for j
    using timerD[OF check_held(5), of j] that by (simp add: timer_ok_def)
  then show ?case unfolding number_inv_def using numberD[OF check_held(5)] check_held(3)
    by (intro conjI below_node equal_node order_node ahead_node) simp_all
next
  case (check_same s i)
  have u: "update_no s = seen (node_at s i)" by (rule check_same_number[OF check_same(6,1,3,4)])
  note c = same_current[OF check_same(6,5,1,2) u] and N = numberD[OF check_same(6)]
  have "ahead (locked s) (update_no s) n (node_at s i) \<Longrightarrow> False" for n using check_same(1) by (simp add: ahead_def)
  then show ?case unfolding number_inv_def using c N number_facts(2)[OF check_same(6)] u
    by (intro conjI below_node equal_node order_node ahead_node) auto
next
  case (check_changed s i)
  then show ?case by (intro number_away) (simp_all add: ahead_def)
next
  case (reserve s i)
  have "update_no s \<le> seen (node_at s i) + 1" "\<And>j. point (node_at s j) = Reserving \<Longrightarrow> seen (node_at s j) = seen (node_at s i)"
    using number_facts(1,4)[OF reserve(3,1)] by blast+
  then show ?case by (intro number_disk[OF reserve(3)]) (simp_all add: ahead_def)
next
  case (detect_none s i)
  then show ?case using detect_alone[OF detect_none(5,1-3)] by (intro number_away) simp_all
next
  case (detect_collision s i)
  then show ?case by (intro number_away) simp_all
next
  case (write_own s i)
  then have "owns s i" by (auto simp: owns_def)
  note own_alone(5,6)[OF write_own(3) this]
  then show ?case using write_own(3) by (intro number_disk) simp_all
next
  case (update_read s i)
  then have "owns s i" by (simp add: owns_def)
  then show ?case using own_alone(6)[OF update_read(6)] update_read(6) by (intro number_away) simp_all
next
  case (release_read s i)
  then have "owns s i" by (auto simp: owns_def)
  then show ?case using own_alone(6)[OF release_read(5)] release_read(5) by (intro number_away) simp_all
next
  case (release s i)
  then have "owns s i" by (auto simp: owns_def)
  note own_alone(5,6)[OF release(3) this]
  then show ?case using release(3) by (intro number_disk) simp_all
next
  case (crash s i)
  have "due (node_at s j) \<le> now s + slack t" if "point (node_at s j) = Reserving" for j
    using timerD[OF crash(2), of j] that by (simp add: timer_ok_def)
  then show ?case using crash by (intro number_away) (simp_all add: ahead_def)
next
  case (restart s i)
  have "now s \<le> due (node_at s j)" if "point (node_at s j) = Reserving" for j
    using timerD[OF restart(4), of j] that by (simp add: timer_ok_def)
  then show ?case using restart by (intro number_away) (fastforce simp: ahead_def)+
qed

section \<open>Waiting for a live holder\<close>

lemma waitD:
  "protocol_inv t s \<Longrightarrow> incumbent s i \<Longrightarrow> point (node_at s j) = Waiting \<Longrightarrow>
    seen (node_at s j) < update_no s \<or> writes_by t (node_at s i) < wake (node_at s j)"
  by (simp add: protocol_inv_def wait_inv_def)

lemma wait_node:
  assumes "protocol_inv t s"
    and "\<And>j. owner n \<or> point n = Colliding \<and> holder s = i \<Longrightarrow> incumbent s i \<and> writes_by t n \<le> writes_by t (node_at s i)"
    and "point n \<noteq> Waiting"
  shows "wait_inv t (node_upd s i n)"
  unfolding wait_inv_def
proof (intro allI impI)
  fix k j
  assume k: "incumbent (node_upd s i n) k" and "point (node_at (node_upd s i n) j) = Waiting"
  then have j: "j \<noteq> i" "point (node_at s j) = Waiting" using assms(3) by (auto split: if_splits)
  have "incumbent s k" "writes_by t (node_at (node_upd s i n) k) \<le> writes_by t (node_at s k)"
    using k assms(2) by (cases "k = i"; auto simp: incumbent_def owns_owner)+
  with waitD[OF assms(1) this(1) j(2)] j(1)
  show "seen (node_at (node_upd s i n) j) < update_no (node_upd s i n) \<or>
      writes_by t (node_at (node_upd s i n) k) < wake (node_at (node_upd s i n) j)" by auto
qed

text \<open>The next write of an incumbent is less than the lock time away.\<close>

lemma writes_soon:
  assumes "protocol_inv t s" and "timing_ok t" and "incumbent s i"
  shows "writes_by t (node_at s i) < now s + lock_time t"
  using timerD[OF assms(1), of i] assms(2,3)
  by (auto simp: incumbent_def owns_def timer_ok_def writes_by_def timing_ok_def)

lemma wait_held:
  assumes "protocol_inv t s" and "timing_ok t" and "point n = Waiting" and "wake n = now s + lock_time t"
  shows "wait_inv t (node_upd s i n)"
  unfolding wait_inv_def
proof (intro allI impI)
  fix k j
  assume k: "incumbent (node_upd s i n) k" and j: "point (node_at (node_upd s i n) j) = Waiting"
  have "k \<noteq> i" "incumbent s k" using k assms(3) by (cases "k = i"; auto simp: incumbent_def owns_owner owner_def)+
  then show "seen (node_at (node_upd s i n) j) < update_no (node_upd s i n) \<or>
      writes_by t (node_at (node_upd s i n) k) < wake (node_at (node_upd s i n) j)"
    using writes_soon[OF assms(1,2) \<open>incumbent s k\<close>] waitD[OF assms(1) \<open>incumbent s k\<close>, of j] j assms(4)
    by (cases "j = i") auto
qed

lemma wait_disk:
  assumes "\<And>j. j \<noteq> i \<Longrightarrow> \<not> owns s j" and "point n \<noteq> Waiting"
    and "\<And>j. owner n \<or> point n = Colliding \<Longrightarrow> j \<noteq> i \<Longrightarrow> point (node_at s j) = Waiting \<Longrightarrow>
      seen (node_at s j) < v \<or> writes_by t n < wake (node_at s j)"
  shows "wait_inv t (disk_upd s l i v n)"
  using assms by (auto simp: wait_inv_def incumbent_def owns_owner split: if_splits)

lemma wait_step: "protocol_step t s s' \<Longrightarrow> timing_ok t \<Longrightarrow> protocol_inv t s \<Longrightarrow> wait_inv t s'"
proof (induction rule: protocol_step.induct)
  case (tick s)
  then show ?case by (simp add: protocol_inv_def wait_inv_def incumbent_def owns_def)
next
  case (check_held s i)
  then show ?case by (intro wait_held) simp_all
next
  case (reserve s i)
  have "seen (node_at s j) < seen (node_at s i) + 1 \<or> 3 * slack t + (now s + collision_time t) < wake (node_at s j)"
    if j: "point (node_at s j) = Waiting" for j
  proof -
    have "seen (node_at s j) \<le> seen (node_at s i) \<or> read_at (node_at s i) \<le> read_at (node_at s j)"
      using numberD(3)[OF reserve(3)] reserve(1) j by (simp add: order_inv_def)
    moreover have "now s \<le> read_at (node_at s i) + slack t" using timerD[OF reserve(3), of i] reserve(1) by (simp add: timer_ok_def)
    moreover have "wake (node_at s j) = read_at (node_at s j) + lock_time t" using timerD[OF reserve(3), of j] j by (simp add: timer_ok_def)
    ultimately show ?thesis using reserve(2) unfolding timing_ok_def by linarith
  qed
  then show ?case using reserving_alone[OF reserve(3,1)]
    by (intro wait_disk) (simp_all add: writes_by_def owner_def)
next
  case (detect_none s i)
  then have "incumbent s i" by (simp add: incumbent_def)
  moreover have "now s \<le> due (node_at s i)" using timerD[OF detect_none(5), of i] detect_none(1) by (simp add: timer_ok_def)
  ultimately show ?case using detect_none by (intro wait_node) (simp_all add: writes_by_def)
next
  case (write_own s i)
  then have own: "owns s i" by (auto simp: owns_def)
  have "seen (node_at s j) < seen (node_at s i) + 1" if "point (node_at s j) = Waiting" for j
    using number_facts(2)[OF write_own(3), of j] own_alone(5)[OF write_own(3) own] that by simp
  then show ?case using own_alone(2)[OF write_own(3) own] by (intro wait_disk) simp_all
next
  case (update_read s i)
  then have "incumbent s i" by (simp add: incumbent_def owns_def)
  moreover have "now s \<le> due (node_at s i)" using timerD[OF update_read(6), of i] update_read(1) by (simp add: timer_ok_def)
  ultimately show ?case using update_read by (intro wait_node) (simp_all add: writes_by_def)
next
  case (release_read s i)
  then have "incumbent s i" by (auto simp: incumbent_def owns_def)
  moreover have "now s \<le> due (node_at s i)" using timerD[OF release_read(5), of i] release_read(1) by (auto simp: timer_ok_def)
  ultimately show ?case using release_read by (intro wait_node) (auto simp: writes_by_def)
next
  case (release s i)
  then have "owns s i" by (auto simp: owns_def)
  then show ?case using own_alone(2)[OF release(3)] by (intro wait_disk) (simp_all add: owner_def)
qed (intro wait_node; simp add: owner_def)+

lemma protocol_inv_step: "protocol_step t s s' \<Longrightarrow> timing_ok t \<Longrightarrow> protocol_inv t s \<Longrightarrow> protocol_inv t s'"
  using timers_step[of t s s'] record_step[of t s s'] race_step[of t s s'] number_step[of t s s'] wait_step[of t s s']
  by (simp add: protocol_inv_def number_inv_def)

interpretation protocol: step_invariant "protocol_step t" "\<lambda>s. timing_ok t \<longrightarrow> protocol_inv t s" for t
  by unfold_locales (blast intro: protocol_inv_step)

text \<open>At the start the record is arbitrary and no node is in the protocol.\<close>

definition protocol_start :: "'n protocol \<Rightarrow> bool" where
  "protocol_start s \<longleftrightarrow> (\<forall>i. point (node_at s i) = Idle \<or> point (node_at s i) = Gone)"

lemma protocol_start_inv:
  assumes "protocol_start s"
  shows "protocol_inv t s"
proof -
  have p: "point (node_at s i) = Idle \<or> point (node_at s i) = Gone" for i using assms by (simp add: protocol_start_def)
  have "point (node_at s i) \<noteq> Waiting" "point (node_at s i) \<noteq> Reserving" "\<not> incumbent s i" "\<not> owns s i"
    "timer_ok t (now s) (node_at s i)" for i
    using p[of i] by (auto simp: incumbent_def owns_def timer_ok_def)
  moreover have "point (node_at s i) \<noteq> Colliding" for i using p[of i] by auto
  ultimately show ?thesis by (simp add: protocol_inv_def inv_defs)
qed

lemma protocol_reachable:
  "timing_ok t \<Longrightarrow> protocol_start s \<Longrightarrow> (protocol_step t)\<^sup>*\<^sup>* s s' \<Longrightarrow> protocol_inv t s'"
  using protocol.steps_inv protocol_start_inv by blast

lemma protocol_exclusion:
  assumes "timing_ok t" and "protocol_start s" and "(protocol_step t)\<^sup>*\<^sup>* s s'" and "owns s' i"
  shows "locked s' \<and> holder s' = i \<and> (owns s' j \<longrightarrow> j = i)"
  using own_alone[OF protocol_reachable[OF assms(1-3)] assms(4)] by auto

end
