(* ===== verification/Sfex_Cluster.thy ===== *)
theory Sfex_Cluster
  imports Sfex_Daemon Sfex_Protocol
begin

text \<open>
  Any number of nodes running \<^verbatim>\<open>src/tools/sfex_daemon.c\<close> on one shared disk.  Every function that uses the disk
  is cut into segments with one access each; a step of the cluster runs the next segment of one
  node on the shared bytes, lets time pass, delivers SIGTERM to a holder, or stops or starts a node.
  Accesses complete; what other nodes do happens between the segments.
\<close>

section \<open>The daemon between two accesses to the disk\<close>

definition check_first :: "sfex_daemon \<Rightarrow> bool result \<times> sfex_daemon" where
  "check_first = and_then read_ldata (\<lambda>rc st.
     if rc = - 1 then (Exit EXIT_FAILURE, st) else (Ret (held_by_other st), st))"

definition check_again :: "sfex_daemon \<Rightarrow> unit result \<times> sfex_daemon" where
  "check_again st =
     and_then read_ldata_new (\<lambda>_ st.
       if count (ldata st) \<noteq> count (ldata_new st) then (Exit 2, st) else (Ret (), st))
     (sleep_for (lock_timeout st) st)"

definition update_begin :: "sfex_daemon \<Rightarrow> unit result \<times> sfex_daemon" where
  "update_begin = and_then read_ldata (\<lambda>rc st.
     if rc = - 1 then error_todo st else if not_own_lock st then failure_todo st else (Ret (), st))"

definition update_end :: "sfex_daemon \<Rightarrow> unit result \<times> sfex_daemon" where
  "update_end st = and_then write_ldata (\<lambda>rc st. if rc = - 1 then error_todo st else (Ret (), st)) (bump_count st)"

definition release_begin :: "sfex_daemon \<Rightarrow> unit result \<times> sfex_daemon" where
  "release_begin = and_then read_ldata (\<lambda>rc st.
     if rc = - 1 then (Exit EXIT_FAILURE, st) else if not_own_lock st then (Exit EXIT_FAILURE, st) else (Ret (), st))"

definition release_end :: "sfex_daemon \<Rightarrow> unit result \<times> sfex_daemon" where
  "release_end st =
     and_then write_ldata (\<lambda>rc st. if rc = - 1 then (Exit EXIT_FAILURE, st) else (Ret (), st))
       (st\<lparr>ldata := (ldata st)\<lparr>status := SFEX_STATUS_UNLOCK\<rparr>\<rparr>)"

text \<open>The segment a node runs next, with the place where it stands afterwards.\<close>

definition then_at :: "point \<Rightarrow> (sfex_daemon \<Rightarrow> unit result \<times> sfex_daemon) \<Rightarrow> sfex_daemon \<Rightarrow> point result \<times> sfex_daemon" where
  "then_at p f = and_then f (\<lambda>_ st. (Ret p, st))"

fun segment :: "point \<Rightarrow> sfex_daemon \<Rightarrow> point result \<times> sfex_daemon" where
  "segment Idle st = and_then check_first (\<lambda>other st. (Ret (if other then Waiting else Reserving), st)) st"
| "segment Waiting st = then_at Reserving check_again st"
| "segment Reserving st = then_at Colliding acquire_reserve st"
| "segment Colliding st = then_at Extending acquire_detect st"
| "segment Extending st = then_at Holding acquire_extend st"
| "segment Holding st = then_at Updating update_begin (sleep_for (monitor_interval st) st)"
| "segment Updating st = then_at Holding update_end st"
| "segment Releasing st = then_at Gone release_end st"
| "segment Gone st = (Exit EXIT_SUCCESS, st)"

fun writing :: "point \<Rightarrow> nat" where
  "writing Reserving = 1" | "writing Extending = 1" | "writing Updating = 1" | "writing Releasing = 1" | "writing _ = 0"

text \<open>How long a node sleeps before the segment of a place; a stopped node stays away for the slack.\<close>

fun pause :: "timing \<Rightarrow> point \<Rightarrow> sfex_daemon \<Rightarrow> nat" where
  "pause t Waiting st = lock_timeout st"
| "pause t Colliding st = collision_timeout st"
| "pause t Holding st = monitor_interval st"
| "pause t Gone st = slack t"
| "pause t _ st = 0"

section \<open>The cluster\<close>

record seat =
  daemon :: sfex_daemon
  place :: point
  wakes :: nat
  limit :: nat
  writes_then :: nat   \<comment> \<open>the writes to the disk before the node came to its place\<close>

record cluster =
  shared :: "char list"
  time :: nat
  writes :: nat
  seat_at :: "string \<Rightarrow> seat"

definition on_disk :: "char list \<Rightarrow> sfex_daemon \<Rightarrow> sfex_daemon" where
  "on_disk d st = st\<lparr>io := (io st)\<lparr>disk := d, script := []\<rparr>\<rparr>"

definition moved :: "timing \<Rightarrow> string \<Rightarrow> nat \<Rightarrow> point \<Rightarrow> sfex_daemon \<Rightarrow> cluster \<Rightarrow> cluster" where
  "moved t i k p st c = c\<lparr>shared := disk (io st), writes := writes c + k,
     seat_at := (seat_at c)(i := \<lparr>daemon = st, place = p, wakes = time c + pause t p st,
       limit = time c + pause t p st + slack t, writes_then = writes c\<rparr>)\<rparr>"

definition ran :: "timing \<Rightarrow> string \<Rightarrow> nat \<Rightarrow> (sfex_daemon \<Rightarrow> point result \<times> sfex_daemon) \<Rightarrow> cluster \<Rightarrow> cluster" where
  "ran t i k f c =
     (case f (on_disk (shared c) (daemon (seat_at c i))) of (r, st) \<Rightarrow>
        moved t i k (case r of Ret p \<Rightarrow> p | _ \<Rightarrow> Gone) st c)"

text \<open>A daemon of node \<open>n\<close> before \<open>acquire_lock\<close>: the options and the geometry all nodes share.\<close>

definition configured :: "timing \<Rightarrow> sfex_controldata \<Rightarrow> int \<Rightarrow> string \<Rightarrow> sfex_daemon \<Rightarrow> bool" where
  "configured t cd ix n st \<longleftrightarrow> own_name st = n \<and> valid_name n \<and> cdata st = cd \<and> lock_index st = ix \<and> ready st \<and>
     lock_timeout st = lock_time t \<and> collision_timeout st = collision_time t \<and> monitor_interval st = monitor_time t"

inductive cluster_step :: "timing \<Rightarrow> sfex_controldata \<Rightarrow> int \<Rightarrow> cluster \<Rightarrow> cluster \<Rightarrow> bool" for t cd ix where
  cluster_tick: "(\<And>i. place (seat_at c i) \<notin> {Idle, Waiting, Gone} \<Longrightarrow> time c < limit (seat_at c i)) \<Longrightarrow>
    cluster_step t cd ix c (c\<lparr>time := time c + 1\<rparr>)"
| cluster_run: "place (seat_at c i) \<noteq> Gone \<Longrightarrow> wakes (seat_at c i) \<le> time c \<Longrightarrow>
    (place (seat_at c i) = Waiting \<Longrightarrow> writes c < writes_then (seat_at c i) + 1000) \<Longrightarrow>
    cluster_step t cd ix c (ran t i (writing (place (seat_at c i))) (segment (place (seat_at c i))) c)"
| cluster_quit: "place (seat_at c i) \<in> {Extending, Holding, Updating} \<Longrightarrow>
    cluster_step t cd ix c (ran t i 0 (then_at Releasing release_begin) c)"
| cluster_stop: "cluster_step t cd ix c (c\<lparr>seat_at := (seat_at c)(i := (seat_at c i)\<lparr>place := Gone, wakes := time c + slack t\<rparr>)\<rparr>)"
| cluster_start: "place (seat_at c i) = Gone \<Longrightarrow> wakes (seat_at c i) < time c \<Longrightarrow> configured t cd ix i st \<Longrightarrow>
    cluster_step t cd ix c (c\<lparr>seat_at := (seat_at c)(i := (seat_at c i)\<lparr>place := Idle, daemon := st\<rparr>)\<rparr>)"

text \<open>The lock record on the bytes of the disk.\<close>

definition record_on :: "sfex_controldata \<Rightarrow> int \<Rightarrow> char list \<Rightarrow> sfex_lockdata \<Rightarrow> bool" where
  "record_on cd ix d l \<longleftrightarrow> 0 \<le> lock_offset cd ix \<and> lock_pos cd ix + bsize cd \<le> length d \<and>
     lock_on_disk cd ix d = lock_block (bsize cd) l \<and> wf_lockdata l"

definition start_cluster :: "timing \<Rightarrow> sfex_controldata \<Rightarrow> int \<Rightarrow> cluster \<Rightarrow> bool" where
  "start_cluster t cd ix c \<longleftrightarrow> (\<exists>l. record_on cd ix (shared c) l) \<and>
     (\<forall>i. place (seat_at c i) = Gone \<or> place (seat_at c i) = Idle \<and> configured t cd ix i (daemon (seat_at c i)))"

text \<open>A node has the lock from the end of the collision wait until its record is released.\<close>

definition has_lock :: "cluster \<Rightarrow> string \<Rightarrow> bool" where
  "has_lock c i \<longleftrightarrow> place (seat_at c i) \<in> {Extending, Holding, Updating, Releasing}"

section \<open>The segments make up the functions of the daemon\<close>

lemma and_then_assoc: "and_then (and_then f g) h = and_then f (\<lambda>x. and_then (g x) h)"
  by (rule ext) (auto simp: and_then_def split: prod.split result.split)

lemma check_segments: "acquire_check = and_then check_first (\<lambda>other. if other then check_again else Pair (Ret ()))"
  by (rule ext) (auto simp: acquire_check_def check_first_def check_again_def and_then_def split: prod.split result.split)

lemma update_segments: "update_lock = and_then update_begin (\<lambda>_. update_end)"
  by (rule ext) (auto simp: update_lock_def update_begin_def update_end_def and_then_def error_todo_def failure_todo_def
      split: prod.split result.split)

lemma release_segments: "release_lock = and_then release_begin (\<lambda>_. release_end)"
  by (rule ext) (auto simp: release_lock_def release_begin_def release_end_def and_then_def split: prod.split result.split)

section \<open>The segments on the shared disk\<close>

lemma quiet_on_disk:
  assumes "configured t cd ix n st" and "record_on cd ix d l"
  shows "quiet_with l (on_disk d st)" "configured t cd ix n (on_disk d st)" "wf_lockdata l" "ldata (on_disk d st) = ldata st"
  using assms by (auto simp: configured_def record_on_def quiet_with_def on_disk_def lock_in_range_def sfex_ready_def)

definition settled :: "timing \<Rightarrow> sfex_controldata \<Rightarrow> int \<Rightarrow> string \<Rightarrow> sfex_lockdata \<Rightarrow> sfex_daemon \<Rightarrow> bool" where
  "settled t cd ix n l st \<longleftrightarrow> configured t cd ix n st \<and> record_on cd ix (disk (io st)) l"

lemma settledI:
  assumes "configured t cd ix n st" and "same_config st st'" and "quiet_with l st'" and "wf_lockdata l"
  shows "settled t cd ix n l st'"
  using assms by (simp add: settled_def configured_def same_config_def quiet_with_def record_on_def lock_in_range_def)

lemma configured_frame [simp]:
  "configured t cd ix n (sleep_for k st) = configured t cd ix n st" "configured t cd ix n (bump_count st) = configured t cd ix n st"
  "configured t cd ix n (st\<lparr>ldata := x\<rparr>) = configured t cd ix n st"
  by (simp_all add: configured_def sleep_for_def bump_count_def)

lemma configured_name: "configured t cd ix n st \<Longrightarrow> own_name st = n \<and> valid_name n"
  by (simp add: configured_def)

text \<open>A read: the record is in the own copy, and the disk is as before.\<close>

lemma settled_read:
  assumes "configured t cd ix n st" and "quiet_with l st" and "wf_lockdata l"
  shows "\<exists>st'. read_ldata st = (Ret 0, st') \<and> settled t cd ix n l st' \<and> ldata st' = l"
  using quiet_read_ldata[OF assms(2,3)] settledI[OF assms(1) _ _ assms(3)] by fastforce

lemma settled_read_new:
  assumes "configured t cd ix n st" and "quiet_with l st" and "wf_lockdata l"
  shows "\<exists>st'. read_ldata_new st = (Ret 0, st') \<and> settled t cd ix n l st' \<and> ldata st' = ldata st \<and> ldata_new st' = l"
  using quiet_read_ldata_new[OF assms(2,3)] settledI[OF assms(1) _ _ assms(3)] by fastforce

lemma settled_write:
  assumes "configured t cd ix n st" and "quiet_with l st" and "wf_lockdata (ldata st)"
  shows "\<exists>st'. write_ldata st = (Ret 0, st') \<and> settled t cd ix n (ldata st) st' \<and> ldata st' = ldata st"
  using quiet_write_ldata[OF assms(2)] settledI[OF assms(1) _ _ assms(3)] by fastforce

text \<open>The result of every segment, for a record \<open>l\<close> on the disk and the own copy \<open>ldata st\<close>.\<close>

definition held_by :: "string \<Rightarrow> sfex_lockdata \<Rightarrow> bool" where
  "held_by n l \<longleftrightarrow> status l = SFEX_STATUS_LOCK \<and> cstr (nodename l) = n"

lemma read_decides:
  assumes "settled t cd ix n l st" and "wf_lockdata l" and "ldata st = l"
  shows "held_by_other st \<longleftrightarrow> other_holds n l" "not_own_lock st \<longleftrightarrow> \<not> held_by n l"
  using assms(1,3) name_compare[of n "nodename l"] wf_lockdata_name[OF assms(2)]
  by (auto simp: settled_def configured_def held_by_other_def other_holds_def not_own_lock_def held_by_def)

lemma run_Idle:
  assumes "configured t cd ix n st" and "record_on cd ix d l"
  shows "\<exists>st'. segment Idle (on_disk d st) = (Ret (if other_holds n l then Waiting else Reserving), st') \<and>
    settled t cd ix n l st' \<and> ldata st' = l"
proof -
  note q = quiet_on_disk[OF assms]
  obtain st' where r: "read_ldata (on_disk d st) = (Ret 0, st')" and s: "settled t cd ix n l st'" "ldata st' = l"
    using settled_read[OF q(2,1,3)] by blast
  have "segment Idle (on_disk d st) = (Ret (if other_holds n l then Waiting else Reserving), st')"
    using r read_decides(1)[OF s(1) q(3) s(2)] by (simp add: check_first_def)
  with s show ?thesis by blast
qed

lemma run_Waiting:
  assumes "configured t cd ix n st" and "record_on cd ix d l"
  shows "\<exists>st'. segment Waiting (on_disk d st) = ((if count (ldata st) = count l then Ret Reserving else Exit 2), st') \<and>
    settled t cd ix n l st' \<and> ldata st' = ldata st"
proof -
  note q = quiet_on_disk[OF assms]
  let ?st = "sleep_for (lock_timeout (on_disk d st)) (on_disk d st)"
  have "configured t cd ix n ?st" "quiet_with l ?st" using q(1,2) by (simp_all add: quiet_frame)
  then obtain st' where r: "read_ldata_new ?st = (Ret 0, st')" and s: "settled t cd ix n l st'" "ldata st' = ldata ?st"
    "ldata_new st' = l"
    using settled_read_new q(3) by blast
  have e: "ldata ?st = ldata st" using q(4) by (simp add: sleep_for_def)
  have "segment Waiting (on_disk d st) = ((if count (ldata st) = count l then Ret Reserving else Exit 2), st')"
    using r s(2,3) e by (simp add: then_at_def check_again_def)
  with s e show ?thesis by auto
qed

lemma run_Reserving:
  assumes "configured t cd ix n st" and "record_on cd ix d l" and "wf_lockdata (ldata st)"
  shows "\<exists>st'. segment Reserving (on_disk d st) = (Ret Colliding, st') \<and>
    settled t cd ix n (ldata st') st' \<and> ldata st' = taken_by n (ldata st)"
proof -
  note q = quiet_on_disk[OF assms(1,2)]
  have n: "own_name (on_disk d st) = n" "valid_name n" using configured_name[OF q(2)] by auto
  obtain st' where r: "acquire_reserve (on_disk d st) = (Ret (), st')" and l: "ldata st' = taken_by n (ldata st)"
    "quiet_with (ldata st') st'" "same_config (on_disk d st) st'"
    using quiet_acquire_reserve[OF q(1)] q(4) n assms(3) by auto
  have "settled t cd ix n (ldata st') st'"
    using settledI[OF q(2) l(3,2)] wf_taken_by[OF assms(3) n(2)] l(1) by simp
  moreover have "segment Reserving (on_disk d st) = (Ret Colliding, st')" using r by (simp add: then_at_def)
  ultimately show ?thesis using l(1) by blast
qed

lemma run_Colliding:
  assumes "configured t cd ix n st" and "record_on cd ix d l" and "wf_lockdata (ldata st)" and "held_by n (ldata st)"
  shows "\<exists>st'. segment Colliding (on_disk d st) = ((if cstr (nodename l) = n then Ret Extending else Exit 2), st') \<and>
    settled t cd ix n l st' \<and> ldata st' = ldata st"
proof -
  note q = quiet_on_disk[OF assms(1,2)]
  let ?st = "sleep_for (collision_timeout (on_disk d st)) (on_disk d st)"
  have "configured t cd ix n ?st" "quiet_with l ?st" using q(1,2) by (simp_all add: quiet_frame)
  then obtain st' where r: "read_ldata_new ?st = (Ret 0, st')" and s: "settled t cd ix n l st'" "ldata st' = ldata ?st"
    "ldata_new st' = l"
    using settled_read_new q(3) by blast
  have e: "ldata ?st = ldata st" using q(4) by (simp add: sleep_for_def)
  have "length (cstr (nodename (ldata st))) \<le> 256" "length (cstr (nodename l)) \<le> 256"
    using wf_lockdata_name[OF assms(3)] wf_lockdata_name[OF q(3)] by (auto simp: wf_name_def)
  then have "strncmp_eq 256 (nodename (ldata st)) (nodename l) \<longleftrightarrow> cstr (nodename l) = n"
    using assms(4) by (auto simp: strncmp_eq_cstr held_by_def)
  then have "segment Colliding (on_disk d st) = ((if cstr (nodename l) = n then Ret Extending else Exit 2), st')"
    using r s(2,3) e by (simp add: then_at_def acquire_detect_def)
  with s e show ?thesis by auto
qed

text \<open>Both writes of the holder: the counter of the own copy advanced.\<close>

lemma run_write:
  assumes "configured t cd ix n st" and "record_on cd ix d l" and "wf_lockdata (ldata st)" and "p = Extending \<or> p = Updating"
  shows "\<exists>st'. segment p (on_disk d st) = (Ret Holding, st') \<and> settled t cd ix n (ldata st') st' \<and>
    ldata st' = (ldata st)\<lparr>count := SFEX_NEXT_COUNT (count (ldata st))\<rparr>"
proof -
  note q = quiet_on_disk[OF assms(1,2)]
  let ?st = "bump_count (on_disk d st)"
  have l: "ldata ?st = (ldata st)\<lparr>count := SFEX_NEXT_COUNT (count (ldata st))\<rparr>" using q(4) by (simp add: bump_count_def)
  have "configured t cd ix n ?st" "quiet_with l ?st" "wf_lockdata (ldata ?st)"
    using q(1,2) wf_lockdata_bump[OF assms(3)] l by (simp_all add: quiet_frame)
  then obtain st' where w: "write_ldata ?st = (Ret 0, st')" and s: "settled t cd ix n (ldata ?st) st'" "ldata st' = ldata ?st"
    using settled_write by blast
  have "segment p (on_disk d st) = (Ret Holding, st')"
    using w assms(4) by (auto simp: then_at_def acquire_extend_def update_end_def)
  with s l show ?thesis by auto
qed

text \<open>The reading half of an update or a release.\<close>

lemma own_read:
  assumes "configured t cd ix n st" and "quiet_with l st" and "wf_lockdata l" and "f = update_begin \<or> f = release_begin"
  shows "\<exists>st'. fst (f st) = (if held_by n l then Ret () else Exit EXIT_FAILURE) \<and> snd (f st) = st' \<and>
    record_on cd ix (disk (io st')) l \<and> (held_by n l \<longrightarrow> configured t cd ix n st' \<and> ldata st' = l)"
proof -
  obtain st' where r: "read_ldata st = (Ret 0, st')" and s: "settled t cd ix n l st'" "ldata st' = l"
    using settled_read[OF assms(1-3)] by blast
  note d = read_decides(2)[OF s(1) assms(3) s(2)]
  show ?thesis using assms(4) r s d
    by (auto simp: update_begin_def release_begin_def failure_todo_def settled_def)
qed

lemma run_own_read:
  assumes "configured t cd ix n st" and "quiet_with l st" and "wf_lockdata l" and "f = update_begin \<or> f = release_begin"
  shows "\<exists>st'. then_at p f st = ((if held_by n l then Ret p else Exit EXIT_FAILURE), st') \<and>
    record_on cd ix (disk (io st')) l \<and> (held_by n l \<longrightarrow> configured t cd ix n st' \<and> ldata st' = l)"
proof -
  obtain r st' where f: "f st = (r, st')" by (cases "f st")
  then have "r = (if held_by n l then Ret () else Exit EXIT_FAILURE)" "record_on cd ix (disk (io st')) l"
    "held_by n l \<longrightarrow> configured t cd ix n st' \<and> ldata st' = l"
    using own_read[OF assms] by auto
  with f show ?thesis by (intro exI[of _ st']) (auto simp: then_at_def and_then_def)
qed

lemma run_Holding:
  assumes "configured t cd ix n st" and "record_on cd ix d l"
  shows "\<exists>st'. segment Holding (on_disk d st) = ((if held_by n l then Ret Updating else Exit EXIT_FAILURE), st') \<and>
    record_on cd ix (disk (io st')) l \<and> (held_by n l \<longrightarrow> configured t cd ix n st' \<and> ldata st' = l)"
proof -
  note q = quiet_on_disk[OF assms]
  let ?st = "sleep_for (monitor_interval (on_disk d st)) (on_disk d st)"
  have "configured t cd ix n ?st" "quiet_with l ?st" using q(1,2) by (simp_all add: quiet_frame)
  from run_own_read[OF this q(3), of update_begin Updating] show ?thesis by simp
qed

lemma run_quit:
  assumes "configured t cd ix n st" and "record_on cd ix d l"
  shows "\<exists>st'. then_at Releasing release_begin (on_disk d st) = ((if held_by n l then Ret Releasing else Exit EXIT_FAILURE), st') \<and>
    record_on cd ix (disk (io st')) l \<and> (held_by n l \<longrightarrow> configured t cd ix n st' \<and> ldata st' = l)"
  using quiet_on_disk[OF assms] by (intro run_own_read) simp_all

lemma run_Releasing:
  assumes "configured t cd ix n st" and "record_on cd ix d l" and "wf_lockdata (ldata st)"
  shows "\<exists>st'. segment Releasing (on_disk d st) = (Ret Gone, st') \<and> settled t cd ix n (ldata st') st' \<and>
    ldata st' = (ldata st)\<lparr>status := SFEX_STATUS_UNLOCK\<rparr>"
proof -
  note q = quiet_on_disk[OF assms(1,2)]
  let ?st = "(on_disk d st)\<lparr>ldata := (ldata (on_disk d st))\<lparr>status := SFEX_STATUS_UNLOCK\<rparr>\<rparr>"
  have "configured t cd ix n ?st" "quiet_with l ?st" "wf_lockdata (ldata ?st)"
    using q(1,2,4) wf_lockdata_status[OF assms(3)] by (simp_all add: quiet_frame)
  then obtain st' where w: "write_ldata ?st = (Ret 0, st')" and s: "settled t cd ix n (ldata ?st) st'" "ldata st' = ldata ?st"
    using settled_write by blast
  have "segment Releasing (on_disk d st) = (Ret Gone, st')" using w by (simp add: then_at_def release_end_def)
  with s q(4) show ?thesis by auto
qed

section \<open>The cluster simulates the protocol\<close>

definition record_rel :: "sfex_lockdata \<Rightarrow> string protocol \<Rightarrow> bool" where
  "record_rel l s \<longleftrightarrow> locked s = (status l = SFEX_STATUS_LOCK) \<and> holder s = cstr (nodename l) \<and> count l = int (update_no s mod 1000)"

text \<open>A seat and its node: the timers, and what the own copy of the record is at the place.\<close>

definition copy_rel :: "string \<Rightarrow> sfex_lockdata \<Rightarrow> node \<Rightarrow> bool" where
  "copy_rel i l n \<longleftrightarrow> wf_lockdata l \<and> count l = int (seen n mod 1000) \<and>
     (point n \<in> {Colliding, Extending, Holding, Updating, Releasing} \<longrightarrow> held_by i l)"

definition seat_rel :: "timing \<Rightarrow> sfex_controldata \<Rightarrow> int \<Rightarrow> nat \<Rightarrow> nat \<Rightarrow> string \<Rightarrow> seat \<Rightarrow> node \<Rightarrow> bool" where
  "seat_rel t cd ix w u i x n \<longleftrightarrow> place x = point n \<and> wakes x = wake n \<and> (bound_by n \<longrightarrow> limit x = due n) \<and>
     (point n \<noteq> Gone \<longrightarrow> configured t cd ix i (daemon x)) \<and>
     (point n \<noteq> Gone \<and> point n \<noteq> Idle \<longrightarrow> copy_rel i (ldata (daemon x)) n) \<and>
     (point n = Waiting \<longrightarrow> u + writes_then x \<le> seen n + w)"

definition simulates :: "timing \<Rightarrow> sfex_controldata \<Rightarrow> int \<Rightarrow> cluster \<Rightarrow> string protocol \<Rightarrow> bool" where
  "simulates t cd ix c s \<longleftrightarrow> now s = time c \<and> (\<exists>l. record_on cd ix (shared c) l \<and> record_rel l s) \<and>
     (\<forall>i. seat_rel t cd ix (writes c) (update_no s) i (seat_at c i) (node_at s i))"

lemma seat_rel_writes:
  "seat_rel t cd ix w u i x n \<Longrightarrow> u' + w \<le> u + w' \<Longrightarrow> seat_rel t cd ix w' u' i x n"
  by (auto simp: seat_rel_def)

text \<open>After a segment of one node.\<close>

lemma simulates_moved:
  assumes "simulates t cd ix c s" and "record_on cd ix (disk (io st)) l" and "record_rel l s'"
    and "now s' = now s" and "node_at s' = (node_at s)(i := n)" and "update_no s' \<le> update_no s + k"
    and "point n = p" and "wake n = now s + pause t p st" and "bound_by n \<Longrightarrow> due n = now s + pause t p st + slack t"
    and "p \<noteq> Gone \<Longrightarrow> configured t cd ix i st \<and> copy_rel i (ldata st) n" and "p \<noteq> Idle"
    and "p = Waiting \<Longrightarrow> update_no s' \<le> seen n"
  shows "simulates t cd ix (moved t i k p st c) s'"
proof -
  have time: "now s = time c" and rel: "\<And>j. seat_rel t cd ix (writes c) (update_no s) j (seat_at c j) (node_at s j)"
    using assms(1) by (auto simp: simulates_def)
  have "seat_rel t cd ix (writes c + k) (update_no s') j (seat_at c j) (node_at s j)" for j
    using seat_rel_writes[OF rel] assms(6) by simp
  moreover have "seat_rel t cd ix (writes c + k) (update_no s') i (seat_at (moved t i k p st c) i) n"
    using assms(7-12) time by (simp add: seat_rel_def moved_def trans_le_add1)
  ultimately show ?thesis
    using assms(2-5) time by (auto simp: simulates_def moved_def)
qed

lemma bump_number:
  assumes "wf_lockdata l" and "count l = int (v mod 1000)"
  shows "SFEX_NEXT_COUNT (count l) = int ((v + 1) mod 1000)"
proof -
  have "SFEX_NEXT_COUNT (count l) = (count l + 1) mod 1000"
    using assms(1) by (intro SFEX_NEXT_COUNT_mod) (simp_all add: wf_lockdata_def)
  also have "\<dots> = int ((v + 1) mod 1000)" using assms(2) by (simp add: zmod_int mod_simps ac_simps)
  finally show ?thesis .
qed

lemma held_taken: "valid_name i \<Longrightarrow> held_by i (taken_by i l)"
  by (simp add: held_by_def taken_by_def valid_name_def SFEX_MAX_NODENAME_def strncpy_bytes_def)

lemma ran_eq: "f (on_disk (shared c) (daemon (seat_at c i))) = (r, st) \<Longrightarrow>
  ran t i k f c = moved t i k (case r of Ret p \<Rightarrow> p | _ \<Rightarrow> Gone) st c"
  by (simp add: ran_def)

text \<open>A node that leaves, whatever its segment read.\<close>

lemma simulates_gone:
  assumes "simulates t cd ix c s" and "record_on cd ix (disk (io st)) l" and "record_rel l s"
    and "s' = s\<lparr>node_at := (node_at s)(i := (node_at s i)\<lparr>point := Gone, wake := now s + slack t\<rparr>)\<rparr>"
  shows "simulates t cd ix (moved t i k Gone st c) s'"
  using assms by (intro simulates_moved[OF assms(1,2), where n = "(node_at s i)\<lparr>point := Gone, wake := now s + slack t\<rparr>"])
    (simp_all add: record_rel_def bound_by_def)

text \<open>Every segment is a step of the protocol.\<close>

lemma simulatesD:
  assumes "simulates t cd ix c s"
  shows "place (seat_at c i) = point (node_at s i)" "wakes (seat_at c i) = wake (node_at s i)"
    "point (node_at s i) \<noteq> Gone \<Longrightarrow> configured t cd ix i (daemon (seat_at c i))"
    "point (node_at s i) \<noteq> Gone \<Longrightarrow> point (node_at s i) \<noteq> Idle \<Longrightarrow> copy_rel i (ldata (daemon (seat_at c i))) (node_at s i)"
    "bound_by (node_at s i) \<Longrightarrow> limit (seat_at c i) = due (node_at s i)"
    "point (node_at s i) = Waiting \<Longrightarrow> update_no s + writes_then (seat_at c i) \<le> seen (node_at s i) + writes c"
  using assms by (simp_all add: simulates_def seat_rel_def)

text \<open>A step of the cluster, and the abstract step it is.\<close>

definition matched :: "timing \<Rightarrow> sfex_controldata \<Rightarrow> int \<Rightarrow> string protocol \<Rightarrow> cluster \<Rightarrow> bool" where
  "matched t cd ix s c \<longleftrightarrow> (\<exists>s'. protocol_step t s s' \<and> simulates t cd ix c s')"

lemma matchedI: "protocol_step t s s' \<Longrightarrow> simulates t cd ix c s' \<Longrightarrow> matched t cd ix s c"
  unfolding matched_def by blast

lemma match_Idle:
  assumes "simulates t cd ix c s" and "point (node_at s i) = Idle" and "record_on cd ix (shared c) l" and "record_rel l s"
  shows "matched t cd ix s (ran t i 0 (segment Idle) c)"
proof -
  have "configured t cd ix i (daemon (seat_at c i))" using simulatesD(3)[OF assms(1), of i] assms(2) by simp
  then obtain st where r: "segment Idle (on_disk (shared c) (daemon (seat_at c i)))
      = (Ret (if other_holds i l then Waiting else Reserving), st)" and s: "settled t cd ix i l st" "ldata st = l"
    using run_Idle[OF _ assms(3)] by blast
  have c: "configured t cd ix i st" "record_on cd ix (disk (io st)) l" "wf_lockdata l" "lock_timeout st = lock_time t"
    using s(1) by (auto simp: settled_def record_on_def configured_def)
  have h: "other_holds i l \<longleftrightarrow> locked s \<and> holder s \<noteq> i" using assms(4) by (simp add: record_rel_def other_holds_def)
  have m: "count l = int (update_no s mod 1000)" using assms(4) by (simp add: record_rel_def)
  show ?thesis
  proof (cases "other_holds i l")
    case True
    let ?n = "\<lparr>point = Waiting, seen = update_no s, read_at = now s, wake = now s + lock_time t, due = 0\<rparr>"
    have "simulates t cd ix (moved t i 0 Waiting st c) (node_upd s i ?n)"
      using assms(4) c m s(2) by (intro simulates_moved[OF assms(1) c(2), where n = ?n]) (simp_all add: record_rel_def copy_rel_def bound_by_def)
    with True h assms(2) show ?thesis using ran_eq[of "segment Idle", OF r]
      by (intro matchedI[OF protocol_step.check_held[where i = i]]) simp_all
  next
    case False
    let ?n = "\<lparr>point = Reserving, seen = update_no s, read_at = now s, wake = now s, due = now s + slack t\<rparr>"
    have "simulates t cd ix (moved t i 0 Reserving st c) (node_upd s i ?n)"
      using assms(4) c m s(2) by (intro simulates_moved[OF assms(1) c(2), where n = ?n]) (simp_all add: record_rel_def copy_rel_def)
    then show ?thesis using ran_eq[of "segment Idle", OF r] False h assms(2)
      by (intro matchedI[OF protocol_step.check_free[where i = i]]) simp_all
  qed
qed

lemma match_Waiting:
  assumes "simulates t cd ix c s" and "point (node_at s i) = Waiting" and "record_on cd ix (shared c) l" and "record_rel l s"
    and "wake (node_at s i) \<le> now s" and "writes c < writes_then (seat_at c i) + 1000"
  shows "matched t cd ix s (ran t i 0 (segment Waiting) c)"
proof -
  note D = simulatesD[OF assms(1), of i]
  let ?ld = "ldata (daemon (seat_at c i))"
  have cf: "configured t cd ix i (daemon (seat_at c i))" using D(3) assms(2) by simp
  obtain st where r: "segment Waiting (on_disk (shared c) (daemon (seat_at c i)))
      = ((if count ?ld = count l then Ret Reserving else Exit 2), st)" and s: "settled t cd ix i l st" "ldata st = ?ld"
    using run_Waiting[OF cf assms(3)] by blast
  have cp: "copy_rel i ?ld (node_at s i)" using D(4) assms(2) by simp
  have c: "configured t cd ix i st" "record_on cd ix (disk (io st)) l" using s(1) by (auto simp: settled_def)
  have h: "count ?ld = count l \<longleftrightarrow> update_no s mod 1000 = seen (node_at s i) mod 1000"
    using assms(4) cp by (auto simp: record_rel_def copy_rel_def)
  have u: "update_no s < seen (node_at s i) + 1000" using D(6) assms(2,6) by simp
  show ?thesis
  proof (cases "count ?ld = count l")
    case True
    let ?n = "(node_at s i)\<lparr>point := Reserving, read_at := now s, wake := now s, due := now s + slack t\<rparr>"
    have "simulates t cd ix (moved t i 0 Reserving st c) (node_upd s i ?n)"
      using assms(4) c cp s(2) by (intro simulates_moved[OF assms(1) c(2), where n = ?n]) (simp_all add: record_rel_def copy_rel_def)
    with True h u assms(2,5) show ?thesis using ran_eq[of "segment Waiting", OF r]
      by (intro matchedI[OF protocol_step.check_same]) simp_all
  next
    case False
    show ?thesis using ran_eq[of "segment Waiting", OF r] False h assms(2,5)
      by (intro matchedI[OF protocol_step.check_changed[where i = i]]) (simp_all add: simulates_gone[OF assms(1) c(2) assms(4)])
  qed
qed

lemma match_Reserving:
  assumes "simulates t cd ix c s" and "protocol_inv t s" and "point (node_at s i) = Reserving" and "record_on cd ix (shared c) l"
  shows "matched t cd ix s (ran t i 1 (segment Reserving) c)"
proof -
  note D = simulatesD[OF assms(1), of i]
  let ?ld = "ldata (daemon (seat_at c i))"
  have cf: "configured t cd ix i (daemon (seat_at c i))" using D(3) assms(3) by simp
  have cp: "copy_rel i ?ld (node_at s i)" using D(4) assms(3) by simp
  then have wf: "wf_lockdata ?ld" "count ?ld = int (seen (node_at s i) mod 1000)" by (simp_all add: copy_rel_def)
  obtain st where r: "segment Reserving (on_disk (shared c) (daemon (seat_at c i))) = (Ret Colliding, st)"
    and s: "settled t cd ix i (ldata st) st" "ldata st = taken_by i ?ld"
    using run_Reserving[OF cf assms(4) wf(1)] by blast
  have c: "configured t cd ix i st" "record_on cd ix (disk (io st)) (ldata st)" "collision_timeout st = collision_time t" "wf_lockdata (ldata st)"
    using s(1) by (auto simp: settled_def configured_def record_on_def)
  have h: "held_by i (ldata st)" using s(2) held_taken configured_name[OF c(1)] by simp
  have h2: "count (ldata st) = int ((seen (node_at s i) + 1) mod 1000)" using s(2) bump_number[OF wf] by (simp add: taken_by_def)
  let ?n = "(node_at s i)\<lparr>point := Colliding, seen := seen (node_at s i) + 1,
        wake := now s + collision_time t, due := now s + collision_time t + slack t\<rparr>"
  have "seen (node_at s i) \<le> update_no s" using number_facts(2)[OF assms(2)] assms(3) by blast
  then have "simulates t cd ix (moved t i 1 Colliding st c) (disk_upd s True i (seen (node_at s i) + 1) ?n)"
    using c h h2 by (intro simulates_moved[OF assms(1) c(2), where n = ?n]) (simp_all add: record_rel_def copy_rel_def held_by_def)
  then show ?thesis using ran_eq[of "segment Reserving", OF r] assms(3)
    by (intro matchedI[OF protocol_step.reserve]) simp_all
qed

lemma match_Colliding:
  assumes "simulates t cd ix c s" and "point (node_at s i) = Colliding" and "record_on cd ix (shared c) l" and "record_rel l s"
    and "wake (node_at s i) \<le> now s"
  shows "matched t cd ix s (ran t i 0 (segment Colliding) c)"
proof -
  note D = simulatesD[OF assms(1), of i]
  let ?ld = "ldata (daemon (seat_at c i))"
  have cf: "configured t cd ix i (daemon (seat_at c i))" using D(3) assms(2) by simp
  have cp: "copy_rel i ?ld (node_at s i)" using D(4) assms(2) by simp
  then have wf: "wf_lockdata ?ld" "held_by i ?ld" using assms(2) by (simp_all add: copy_rel_def)
  obtain st where r: "segment Colliding (on_disk (shared c) (daemon (seat_at c i)))
      = ((if cstr (nodename l) = i then Ret Extending else Exit 2), st)" and s: "settled t cd ix i l st" "ldata st = ?ld"
    using run_Colliding[OF cf assms(3) wf] by blast
  have c: "configured t cd ix i st" "record_on cd ix (disk (io st)) l" using s(1) by (auto simp: settled_def)
  have h: "cstr (nodename l) = holder s" using assms(4) by (simp add: record_rel_def)
  show ?thesis
  proof (cases "holder s = i")
    case True
    let ?n = "(node_at s i)\<lparr>point := Extending, wake := now s, due := now s + slack t\<rparr>"
    have "simulates t cd ix (moved t i 0 Extending st c) (node_upd s i ?n)"
      using assms(2,4) c cp s(2) by (intro simulates_moved[OF assms(1) c(2), where n = ?n]) (simp_all add: record_rel_def copy_rel_def)
    then show ?thesis using ran_eq[of "segment Colliding", OF r] True h assms(2,5)
      by (intro matchedI[OF protocol_step.detect_none]) simp_all
  next
    case False
    show ?thesis using ran_eq[of "segment Colliding", OF r] False h assms(2,5)
      by (intro matchedI[OF protocol_step.detect_collision[where i = i]]) (simp_all add: simulates_gone[OF assms(1) c(2) assms(4)])
  qed
qed

lemma match_write:
  assumes "simulates t cd ix c s" and "protocol_inv t s" and "point (node_at s i) = Extending \<or> point (node_at s i) = Updating"
    and "record_on cd ix (shared c) l"
  shows "matched t cd ix s (ran t i 1 (segment (point (node_at s i))) c)"
proof -
  note D = simulatesD[OF assms(1), of i]
  let ?ld = "ldata (daemon (seat_at c i))"
  have cf: "configured t cd ix i (daemon (seat_at c i))" using D(3) assms(3) by auto
  have "copy_rel i ?ld (node_at s i)" using D(4) assms(3) by auto
  then have wf: "wf_lockdata ?ld" "count ?ld = int (seen (node_at s i) mod 1000)" "held_by i ?ld"
    using assms(3) by (auto simp: copy_rel_def)
  obtain st where r: "segment (point (node_at s i)) (on_disk (shared c) (daemon (seat_at c i))) = (Ret Holding, st)"
    and s: "settled t cd ix i (ldata st) st" "ldata st = ?ld\<lparr>count := SFEX_NEXT_COUNT (count ?ld)\<rparr>"
    using run_write[OF cf assms(4) wf(1) assms(3)] by blast
  have c: "configured t cd ix i st" "record_on cd ix (disk (io st)) (ldata st)" "monitor_interval st = monitor_time t" "wf_lockdata (ldata st)"
    using s(1) by (auto simp: settled_def configured_def record_on_def)
  have h: "held_by i (ldata st)" "count (ldata st) = int ((seen (node_at s i) + 1) mod 1000)"
    using s(2) wf(3) bump_number[OF wf(1,2)] by (simp_all add: held_by_def)
  let ?n = "(node_at s i)\<lparr>point := Holding, seen := seen (node_at s i) + 1,
        wake := now s + monitor_time t, due := now s + monitor_time t + slack t\<rparr>"
  have "owns s i" using assms(3) by (auto simp: owns_def)
  then have "seen (node_at s i) = update_no s" using own_alone(5)[OF assms(2)] by simp
  then have "simulates t cd ix (moved t i 1 Holding st c) (disk_upd s True i (seen (node_at s i) + 1) ?n)"
    using c h by (intro simulates_moved[OF assms(1) c(2), where n = ?n]) (simp_all add: record_rel_def copy_rel_def held_by_def)
  then show ?thesis using ran_eq[of "segment (point (node_at s i))", OF r] assms(3)
    by (intro matchedI[OF protocol_step.write_own]) simp_all
qed

text \<open>A read that finds the own lock, in an update or a release; otherwise the node leaves.\<close>

lemma match_own_read:
  assumes "simulates t cd ix c s" and "record_on cd ix (shared c) l" and "record_rel l s" and "p = Updating \<or> p = Releasing"
    and "f (on_disk (shared c) (daemon (seat_at c i))) = ((if held_by i l then Ret p else Exit EXIT_FAILURE), st)"
    and "record_on cd ix (disk (io st)) l" and "held_by i l \<longrightarrow> configured t cd ix i st \<and> ldata st = l"
    and "locked s \<Longrightarrow> holder s = i \<Longrightarrow>
      protocol_step t s (node_upd s i ((node_at s i)\<lparr>point := p, seen := update_no s, wake := now s, due := now s + slack t\<rparr>))"
  shows "matched t cd ix s (ran t i 0 f c)"
proof (cases "held_by i l")
  case True
  let ?n = "(node_at s i)\<lparr>point := p, seen := update_no s, wake := now s, due := now s + slack t\<rparr>"
  have h: "locked s" "holder s = i" using True assms(3) by (simp_all add: record_rel_def held_by_def)
  have "wf_lockdata l" using assms(6) by (simp add: record_on_def)
  moreover have "pause t p st = 0" using assms(4) by auto
  ultimately have "simulates t cd ix (moved t i 0 p st c) (node_upd s i ?n)"
    using assms(3,4,7) True
    by (intro simulates_moved[OF assms(1,6), where n = ?n]) (auto simp: record_rel_def copy_rel_def)
  then show ?thesis using ran_eq[of f, OF assms(5)] True by (intro matchedI[OF assms(8)[OF h]]) simp
next
  case False
  then show ?thesis using ran_eq[of f, OF assms(5)]
    by (intro matchedI[OF protocol_step.crash[where i = i]]) (simp add: simulates_gone[OF assms(1,6,3)])
qed

lemma match_Holding:
  assumes "simulates t cd ix c s" and "point (node_at s i) = Holding" and "record_on cd ix (shared c) l" and "record_rel l s"
    and "wake (node_at s i) \<le> now s"
  shows "matched t cd ix s (ran t i 0 (segment Holding) c)"
proof -
  have cf: "configured t cd ix i (daemon (seat_at c i))" using simulatesD(3)[OF assms(1), of i] assms(2) by simp
  obtain st where "segment Holding (on_disk (shared c) (daemon (seat_at c i))) =
      ((if held_by i l then Ret Updating else Exit EXIT_FAILURE), st)" "record_on cd ix (disk (io st)) l"
    "held_by i l \<longrightarrow> configured t cd ix i st \<and> ldata st = l"
    using run_Holding[OF cf assms(3)] by blast
  then show ?thesis using protocol_step.update_read[OF assms(2,5)]
    by (intro match_own_read[OF assms(1,3,4), where p = Updating]) simp_all
qed

lemma match_quit:
  assumes "simulates t cd ix c s" and "point (node_at s i) \<in> {Extending, Holding, Updating}" and "record_on cd ix (shared c) l" and "record_rel l s"
  shows "matched t cd ix s (ran t i 0 (then_at Releasing release_begin) c)"
proof -
  have cf: "configured t cd ix i (daemon (seat_at c i))" using simulatesD(3)[OF assms(1), of i] assms(2) by auto
  obtain st where "then_at Releasing release_begin (on_disk (shared c) (daemon (seat_at c i))) =
      ((if held_by i l then Ret Releasing else Exit EXIT_FAILURE), st)" "record_on cd ix (disk (io st)) l"
    "held_by i l \<longrightarrow> configured t cd ix i st \<and> ldata st = l"
    using run_quit[OF cf assms(3)] by blast
  then show ?thesis using protocol_step.release_read[OF assms(2)]
    by (intro match_own_read[OF assms(1,3,4), where p = Releasing]) simp_all
qed

lemma match_Releasing:
  assumes "simulates t cd ix c s" and "protocol_inv t s" and "point (node_at s i) = Releasing" and "record_on cd ix (shared c) l"
  shows "matched t cd ix s (ran t i 1 (segment Releasing) c)"
proof -
  note D = simulatesD[OF assms(1), of i]
  let ?ld = "ldata (daemon (seat_at c i))"
  have cf: "configured t cd ix i (daemon (seat_at c i))" using D(3) assms(3) by simp
  have "copy_rel i ?ld (node_at s i)" using D(4) assms(3) by simp
  then have wf: "wf_lockdata ?ld" "count ?ld = int (seen (node_at s i) mod 1000)" "held_by i ?ld"
    using assms(3) by (simp_all add: copy_rel_def)
  obtain st where r: "segment Releasing (on_disk (shared c) (daemon (seat_at c i))) = (Ret Gone, st)"
    and s: "settled t cd ix i (ldata st) st" "ldata st = ?ld\<lparr>status := SFEX_STATUS_UNLOCK\<rparr>"
    using run_Releasing[OF cf assms(4) wf(1)] by blast
  have c: "record_on cd ix (disk (io st)) (ldata st)" using s(1) by (simp add: settled_def)
  let ?n = "(node_at s i)\<lparr>point := Gone, wake := now s + slack t\<rparr>"
  have "owns s i" using assms(3) by (simp add: owns_def)
  then have "seen (node_at s i) = update_no s" using own_alone(5)[OF assms(2)] by simp
  then have "simulates t cd ix (moved t i 1 Gone st c) (disk_upd s False i (seen (node_at s i)) ?n)"
    using c s(2) wf by (intro simulates_moved[OF assms(1) c, where n = ?n])
      (simp_all add: record_rel_def held_by_def bound_by_def SFEX_STATUS_UNLOCK_def SFEX_STATUS_LOCK_def)
  then show ?thesis using ran_eq[of "segment Releasing", OF r] assms(3)
    by (intro matchedI[OF protocol_step.release]) simp_all
qed

lemma match_run:
  assumes "simulates t cd ix c s" and "protocol_inv t s" and "place (seat_at c i) \<noteq> Gone" and "wakes (seat_at c i) \<le> time c"
    and "place (seat_at c i) = Waiting \<Longrightarrow> writes c < writes_then (seat_at c i) + 1000"
  shows "matched t cd ix s (ran t i (writing (place (seat_at c i))) (segment (place (seat_at c i))) c)"
proof -
  obtain l where l: "record_on cd ix (shared c) l" "record_rel l s" using assms(1) by (auto simp: simulates_def)
  have D: "place (seat_at c i) = point (node_at s i)" "wake (node_at s i) \<le> now s"
    using simulatesD(1,2)[OF assms(1), of i] assms(1,4) by (simp_all add: simulates_def)
  note m = match_Idle[OF assms(1) _ l] match_Waiting[OF assms(1) _ l D(2)] match_Reserving[OF assms(1,2) _ l(1)]
    match_Colliding[OF assms(1) _ l D(2)] match_write[OF assms(1,2) _ l(1), of i] match_Holding[OF assms(1) _ l D(2)]
    match_Releasing[OF assms(1,2) _ l(1)]
  show ?thesis using m assms(3,5) D(1) by (cases "point (node_at s i)") simp_all
qed

lemma simulates_seat:
  assumes "simulates t cd ix c s" and "seat_rel t cd ix (writes c) (update_no s) i x n"
  shows "simulates t cd ix (c\<lparr>seat_at := (seat_at c)(i := x)\<rparr>) (node_upd s i n)"
  using assms by (simp add: simulates_def record_rel_def)

lemma cluster_match: "cluster_step t cd ix c c' \<Longrightarrow> simulates t cd ix c s \<Longrightarrow> protocol_inv t s \<Longrightarrow> matched t cd ix s c'"
proof (induction rule: cluster_step.induct)
  case (cluster_tick c)
  have "now s < due (node_at s i)" if "bound_by (node_at s i)" for i
    using cluster_tick(1)[of i] that simulatesD(1,5)[OF cluster_tick(2), of i] cluster_tick(2) by (simp add: bound_by_def simulates_def)
  then have "protocol_step t s (s\<lparr>now := now s + 1\<rparr>)" by (rule protocol_step.tick)
  moreover have "simulates t cd ix (c\<lparr>time := time c + 1\<rparr>) (s\<lparr>now := now s + 1\<rparr>)"
    using cluster_tick(2) by (simp add: simulates_def record_rel_def)
  ultimately show ?case by (rule matchedI)
next
  case (cluster_run c i)
  then show ?case by (intro match_run)
next
  case (cluster_quit c i)
  obtain l where "record_on cd ix (shared c) l" "record_rel l s" using cluster_quit(2) by (auto simp: simulates_def)
  then show ?case using cluster_quit simulatesD(1)[OF cluster_quit(2), of i] by (intro match_quit) simp_all
next
  case (cluster_stop c i)
  then have "now s = time c" by (simp add: simulates_def)
  then show ?case using cluster_stop
    by (intro matchedI[OF protocol_step.crash[where i = i]] simulates_seat) (simp_all add: seat_rel_def bound_by_def)
next
  case (cluster_start c i st)
  note D = simulatesD(1,2)[OF cluster_start(4), of i]
  have "now s = time c" using cluster_start(4) by (simp add: simulates_def)
  then show ?case using cluster_start D
    by (intro matchedI[OF protocol_step.restart[where i = i]] simulates_seat) (simp_all add: seat_rel_def bound_by_def)
qed

text \<open>A start of the cluster simulates a start of the protocol.\<close>

lemma start_simulates:
  assumes "start_cluster t cd ix c"
  shows "\<exists>s. protocol_start s \<and> simulates t cd ix c s"
proof -
  obtain l where l: "record_on cd ix (shared c) l" using assms by (auto simp: start_cluster_def)
  let ?s = "\<lparr>locked = (status l = SFEX_STATUS_LOCK), holder = cstr (nodename l), update_no = nat (count l), now = time c,
     node_at = \<lambda>i. \<lparr>point = place (seat_at c i), seen = 0, read_at = 0, wake = wakes (seat_at c i), due = 0\<rparr>\<rparr>"
  have "0 \<le> count l" "count l \<le> 999" using l by (simp_all add: record_on_def wf_lockdata_def SFEX_MAX_COUNT_def)
  then have "record_rel l ?s" by (simp add: record_rel_def)
  moreover have p: "place (seat_at c i) = Gone \<or> place (seat_at c i) = Idle \<and> configured t cd ix i (daemon (seat_at c i))" for i
    using assms by (simp add: start_cluster_def)
  have "seat_rel t cd ix (writes c) (update_no ?s) i (seat_at c i) (node_at ?s i)" for i
    using p[of i] by (auto simp: seat_rel_def bound_by_def)
  ultimately have "simulates t cd ix c ?s" using l by (auto simp: simulates_def)
  moreover have "protocol_start ?s" using p by (auto simp: protocol_start_def)
  ultimately show ?thesis by blast
qed

definition cluster_inv :: "timing \<Rightarrow> sfex_controldata \<Rightarrow> int \<Rightarrow> cluster \<Rightarrow> bool" where
  "cluster_inv t cd ix c \<longleftrightarrow> (\<exists>s. protocol_inv t s \<and> simulates t cd ix c s)"

interpretation cluster: step_invariant "cluster_step t cd ix" "\<lambda>c. timing_ok t \<longrightarrow> cluster_inv t cd ix c" for t cd ix
proof unfold_locales
  fix c c'
  assume i: "timing_ok t \<longrightarrow> cluster_inv t cd ix c" and st: "cluster_step t cd ix c c'"
  show "timing_ok t \<longrightarrow> cluster_inv t cd ix c'"
  proof
    assume t: "timing_ok t"
    with i obtain s where s: "protocol_inv t s" "simulates t cd ix c s" by (auto simp: cluster_inv_def)
    obtain s' where "protocol_step t s s'" "simulates t cd ix c' s'"
      using cluster_match[OF st s(2,1)] by (auto simp: matched_def)
    then show "cluster_inv t cd ix c'" using protocol_inv_step[OF _ t s(1)] by (auto simp: cluster_inv_def)
  qed
qed

lemma cluster_reachable:
  "timing_ok t \<Longrightarrow> start_cluster t cd ix c \<Longrightarrow> (cluster_step t cd ix)\<^sup>*\<^sup>* c c' \<Longrightarrow> cluster_inv t cd ix c'"
  using cluster.steps_inv[of t cd ix c c'] start_simulates[of t cd ix c] protocol_start_inv[of _ t]
  unfolding cluster_inv_def by blast

lemma owner_of:
  assumes "cluster_inv t cd ix c" and "has_lock c i"
  shows "(\<exists>l. record_on cd ix (shared c) l \<and> held_by i l) \<and> (\<forall>j. has_lock c j \<longrightarrow> j = i)"
proof -
  obtain s where s: "protocol_inv t s" "simulates t cd ix c s" using assms(1) by (auto simp: cluster_inv_def)
  have p: "has_lock c j \<longleftrightarrow> owns s j" for j using simulatesD(1)[OF s(2), of j] by (simp add: has_lock_def owns_def)
  note a = own_alone[OF s(1), of i] 
  obtain l where l: "record_on cd ix (shared c) l" "record_rel l s" using s(2) by (auto simp: simulates_def)
  have "held_by i l" using a(3,4) l(2) p assms(2) by (simp add: record_rel_def held_by_def)
  moreover have "j = i" if "has_lock c j" for j using a(2)[of j] p assms(2) that by blast
  ultimately show ?thesis using l(1) by blast
qed

section \<open>A node alone\<close>

text \<open>Node \<open>i\<close> stands at \<open>p\<close> with its sleep over, and no other node is in the protocol.\<close>

definition stands :: "cluster \<Rightarrow> string \<Rightarrow> point \<Rightarrow> sfex_daemon \<Rightarrow> bool" where
  "stands c i p st \<longleftrightarrow> place (seat_at c i) = p \<and> daemon (seat_at c i) = st \<and> wakes (seat_at c i) \<le> time c \<and>
     (p = Waiting \<longrightarrow> writes c < writes_then (seat_at c i) + 1000) \<and>
     (\<forall>j. j \<noteq> i \<longrightarrow> place (seat_at c j) = Idle \<or> place (seat_at c j) = Gone)"

lemma advance:
  assumes "stands c i p st" and "p \<noteq> Gone" and "segment p (on_disk (shared c) st) = (Ret q, st')"
  shows "cluster_step t cd ix c (moved t i (writing p) q st' c)"
  using cluster_run[of c i t cd ix] assms by (simp add: stands_def ran_eq)

lemma sleeps:
  assumes "\<And>j. j \<noteq> i \<Longrightarrow> place (seat_at c j) = Idle \<or> place (seat_at c j) = Gone"
    and "place (seat_at c i) \<notin> {Idle, Waiting, Gone} \<Longrightarrow> time c + k \<le> limit (seat_at c i)"
  shows "(cluster_step t cd ix)\<^sup>*\<^sup>* c (c\<lparr>time := time c + k\<rparr>)"
  using assms(2)
proof (induction k)
  case (Suc k)
  let ?c = "c\<lparr>time := time c + k\<rparr>"
  have "cluster_step t cd ix ?c (?c\<lparr>time := time ?c + 1\<rparr>)"
  proof (rule cluster_tick)
    fix j
    assume "place (seat_at ?c j) \<notin> {Idle, Waiting, Gone}"
    then show "time ?c < limit (seat_at ?c j)" using assms(1)[of j] Suc.prems by (cases "j = i") auto
  qed
  moreover have "(cluster_step t cd ix)\<^sup>*\<^sup>* c ?c" by (rule Suc.IH) (use Suc.prems in auto)
  ultimately show ?case by simp
qed simp

text \<open>One segment, and the sleep after it.\<close>

lemma phase:
  assumes "stands c i p st" and "p \<noteq> Gone" and "segment p (on_disk (shared c) st) = (Ret q, st')"
  shows "\<exists>c'. (cluster_step t cd ix)\<^sup>*\<^sup>* c c' \<and> stands c' i q st' \<and> time c' = time c + pause t q st' \<and> shared c' = disk (io st')"
proof -
  let ?m = "moved t i (writing p) q st' c"
  have m: "cluster_step t cd ix c ?m" by (rule advance[OF assms])
  have "writing p \<le> 1" by (cases p) simp_all
  then have "stands (?m\<lparr>time := time c + pause t q st'\<rparr>) i q st'" using assms(1) by (simp add: stands_def moved_def)
  moreover have "(cluster_step t cd ix)\<^sup>*\<^sup>* ?m (?m\<lparr>time := time ?m + pause t q st'\<rparr>)"
    using assms(1) by (intro sleeps[where i = i]) (simp_all add: moved_def stands_def)
  ultimately show ?thesis using m
    by (intro exI[of _ "?m\<lparr>time := time c + pause t q st'\<rparr>"]) (simp add: moved_def converse_rtranclp_into_rtranclp)
qed

text \<open>The check of the holder, with the wait for a lock to expire.\<close>

lemma takes_check:
  assumes "stands c i Idle st" and "configured t cd ix i st" and "record_on cd ix (shared c) l"
  shows "\<exists>c' st'. (cluster_step t cd ix)\<^sup>*\<^sup>* c c' \<and> stands c' i Reserving st' \<and>
    settled t cd ix i l st' \<and> shared c' = disk (io st') \<and> ldata st' = l \<and>
    time c' = time c + (if other_holds i l then lock_time t else 0)"
proof -
  obtain st1 where r: "segment Idle (on_disk (shared c) st) = (Ret (if other_holds i l then Waiting else Reserving), st1)"
    and s: "settled t cd ix i l st1" "ldata st1 = l"
    using run_Idle[OF assms(2,3)] by blast
  then have f: "configured t cd ix i st1" "record_on cd ix (disk (io st1)) l" "lock_timeout st1 = lock_time t"
    by (auto simp: settled_def configured_def)
  obtain c1 where c1: "(cluster_step t cd ix)\<^sup>*\<^sup>* c c1" "stands c1 i (if other_holds i l then Waiting else Reserving) st1"
    "time c1 = time c + pause t (if other_holds i l then Waiting else Reserving) st1" "shared c1 = disk (io st1)"
    using phase[OF assms(1) _ r] by blast
  show ?thesis
  proof (cases "other_holds i l")
    case False
    then show ?thesis using c1 s f by auto
  next
    case True
    obtain st2 where r2: "segment Waiting (on_disk (shared c1) st1) = (Ret Reserving, st2)"
      and s2: "settled t cd ix i l st2" "ldata st2 = l"
      using run_Waiting[OF f(1), of "shared c1" l] c1(4) f(2) s(2) by auto
    have st1: "stands c1 i Waiting st1" using c1(2) True by simp
    obtain c2 where "(cluster_step t cd ix)\<^sup>*\<^sup>* c1 c2" "stands c2 i Reserving st2" "time c2 = time c1" "shared c2 = disk (io st2)"
      using phase[OF st1 _ r2, of t cd ix] by auto
    then show ?thesis using c1 s2 f(3) True by (intro exI[of _ c2] exI[of _ st2]) auto
  qed
qed

lemma takes_lock:
  assumes "stands c i Idle st" and "configured t cd ix i st" and "record_on cd ix (shared c) l"
  shows "\<exists>c'. (cluster_step t cd ix)\<^sup>*\<^sup>* c c' \<and> place (seat_at c' i) = Holding \<and>
    time c' = time c + (if other_holds i l then lock_time t else 0) + collision_time t"
proof -
  let ?R = "(cluster_step t cd ix)\<^sup>*\<^sup>*"
  obtain c1 st1 where c1: "?R c c1" "stands c1 i Reserving st1" "settled t cd ix i l st1" "shared c1 = disk (io st1)" "ldata st1 = l"
    "time c1 = time c + (if other_holds i l then lock_time t else 0)"
    using takes_check[OF assms] by blast
  then have f1: "configured t cd ix i st1" "record_on cd ix (shared c1) l" "wf_lockdata l" by (auto simp: settled_def record_on_def)
  obtain st2 where r2: "segment Reserving (on_disk (shared c1) st1) = (Ret Colliding, st2)"
    and s2: "settled t cd ix i (ldata st2) st2" "ldata st2 = taken_by i l"
    using run_Reserving[OF f1(1,2)] f1(3) c1(5) by metis
  obtain c2 where c2: "?R c1 c2" "stands c2 i Colliding st2" "time c2 = time c1 + pause t Colliding st2" "shared c2 = disk (io st2)"
    using phase[OF c1(2) _ r2] by blast
  have f2: "configured t cd ix i st2" "record_on cd ix (shared c2) (ldata st2)" "wf_lockdata (ldata st2)" "collision_timeout st2 = collision_time t"
    using s2(1) c2(4) by (auto simp: settled_def record_on_def configured_def)
  have h: "held_by i (ldata st2)" using s2(2) held_taken configured_name[OF f2(1)] by simp
  then obtain st3 where r3: "segment Colliding (on_disk (shared c2) st2) = (Ret Extending, st3)"
    and s3: "settled t cd ix i (ldata st2) st3" "ldata st3 = ldata st2"
    using run_Colliding[OF f2(1-3) h] by (auto simp: held_by_def)
  obtain c3 where c3: "?R c2 c3" "stands c3 i Extending st3" "time c3 = time c2" "shared c3 = disk (io st3)"
    using phase[OF c2(2) _ r3, of t cd ix] by auto
  have f3: "configured t cd ix i st3" "record_on cd ix (shared c3) (ldata st2)" "wf_lockdata (ldata st3)"
    using s3 c3(4) f2(3) by (auto simp: settled_def)
  obtain st4 where r4: "segment Extending (on_disk (shared c3) st3) = (Ret Holding, st4)" using run_write[OF f3, of Extending] by blast
  have "?R c (moved t i (writing Extending) Holding st4 c3)"
    using c1(1) c2(1) c3(1) advance[OF c3(2) _ r4, of t cd ix] by (simp add: rtranclp.rtrancl_into_rtrancl)
  then show ?thesis using c1(6) c2(3) c3(3) f2(4)
    by (intro exI[of _ "moved t i (writing Extending) Holding st4 c3"]) (simp add: moved_def)
qed

section \<open>Runs of a node alone\<close>

text \<open>
  Every run in which only node \<open>i\<close> goes on: time passes as in the cluster, and \<open>n\<close> counts the segments of the node.
\<close>

inductive lone_run :: "timing \<Rightarrow> string \<Rightarrow> cluster \<Rightarrow> nat \<Rightarrow> cluster \<Rightarrow> bool" for t i c where
  lone_start: "lone_run t i c 0 c"
| lone_tick: "lone_run t i c n c' \<Longrightarrow> (\<And>j. place (seat_at c' j) \<notin> {Idle, Waiting, Gone} \<Longrightarrow> time c' < limit (seat_at c' j)) \<Longrightarrow>
    lone_run t i c n (c'\<lparr>time := time c' + 1\<rparr>)"
| lone_segment: "lone_run t i c n c' \<Longrightarrow> place (seat_at c' i) \<noteq> Gone \<Longrightarrow> wakes (seat_at c' i) \<le> time c' \<Longrightarrow>
    (place (seat_at c' i) = Waiting \<Longrightarrow> writes c' < writes_then (seat_at c' i) + 1000) \<Longrightarrow>
    lone_run t i c (Suc n) (ran t i (writing (place (seat_at c' i))) (segment (place (seat_at c' i))) c')"

lemma lone_cluster: "lone_run t i c n c' \<Longrightarrow> (cluster_step t cd ix)\<^sup>*\<^sup>* c c'"
proof (induction rule: lone_run.induct)
  case (lone_tick n c')
  have "cluster_step t cd ix c' (c'\<lparr>time := time c' + 1\<rparr>)" by (rule cluster_tick[OF lone_tick.hyps(2)])
  with lone_tick.IH show ?case by (rule rtranclp.rtrancl_into_rtrancl)
next
  case (lone_segment n c')
  have "cluster_step t cd ix c' (ran t i (writing (place (seat_at c' i))) (segment (place (seat_at c' i))) c')"
    by (rule cluster_run[OF lone_segment.hyps(2-4)])
  with lone_segment.IH show ?case by (rule rtranclp.rtrancl_into_rtrancl)
qed simp

text \<open>
  Where the node stands after \<open>n\<close> segments, \<open>w\<close> telling whether it had to wait for the lock of another node: the
  record \<open>r\<close> on the disk and the copy \<open>m\<close>, from when on (\<open>e\<close>) the node may go on, and the time \<open>u\<close>.
\<close>

definition lone_stage :: "timing \<Rightarrow> string \<Rightarrow> sfex_lockdata \<Rightarrow> nat \<Rightarrow> nat \<Rightarrow> point \<Rightarrow> sfex_lockdata \<Rightarrow> sfex_lockdata \<Rightarrow> nat \<Rightarrow> nat \<Rightarrow> bool" where
  "lone_stage t i l t0 n p r m e u \<longleftrightarrow> (let w = other_holds i l; k = (if w then 1 else 0); b = t0 + (if w then lock_time t else 0) in
     (n = 0 \<and> p = Idle \<and> r = l) \<or>
     (n = 1 \<and> w \<and> p = Waiting \<and> r = l \<and> m = l \<and> b \<le> e) \<or>
     (n = 1 + k \<and> p = Reserving \<and> r = l \<and> m = l \<and> b \<le> e) \<or>
     (n = 2 + k \<and> p = Colliding \<and> r = m \<and> held_by i m \<and> b + collision_time t \<le> e) \<or>
     (3 + k \<le> n \<and> p \<in> {Extending, Holding, Updating} \<and> held_by i r \<and> held_by i m \<and> b + collision_time t \<le> u))"

definition lone_at :: "timing \<Rightarrow> sfex_controldata \<Rightarrow> int \<Rightarrow> string \<Rightarrow> sfex_lockdata \<Rightarrow> nat \<Rightarrow> nat \<Rightarrow> cluster \<Rightarrow> bool" where
  "lone_at t cd ix i l t0 n c \<longleftrightarrow> (let x = seat_at c i in
     t0 \<le> time c \<and> configured t cd ix i (daemon x) \<and> (place x \<noteq> Idle \<longrightarrow> wf_lockdata (ldata (daemon x))) \<and>
     (place x = Waiting \<longrightarrow> writes c = writes_then x) \<and> (place x \<noteq> Idle \<longrightarrow> wakes x \<le> limit x) \<and>
     (\<forall>j. j \<noteq> i \<longrightarrow> place (seat_at c j) = Idle \<or> place (seat_at c j) = Gone) \<and>
     (\<exists>r. record_on cd ix (shared c) r \<and> lone_stage t i l t0 n (place x) r (ldata (daemon x)) (wakes x) (time c)))"

lemma lone_moved:
  assumes "lone_at t cd ix i l t0 n c" and "settled t cd ix i r st'" and "p \<noteq> Idle" and "p \<noteq> Gone" and "wf_lockdata (ldata st')"
    and "p = Waiting \<Longrightarrow> k = 0"
    and "lone_stage t i l t0 (Suc n) p r (ldata st') (time c + pause t p st') (time c)"
  shows "lone_at t cd ix i l t0 (Suc n) (moved t i k p st' c)"
proof -
  let ?c = "moved t i k p st' c"
  have x: "daemon (seat_at ?c i) = st'" "place (seat_at ?c i) = p" "wakes (seat_at ?c i) = time c + pause t p st'"
    "limit (seat_at ?c i) = time c + pause t p st' + slack t" "writes_then (seat_at ?c i) = writes c" "writes ?c = writes c + k"
    "shared ?c = disk (io st')" "time ?c = time c" and j: "\<And>j. j \<noteq> i \<Longrightarrow> seat_at ?c j = seat_at c j"
    by (simp_all add: moved_def)
  have "t0 \<le> time c" "\<And>j. j \<noteq> i \<Longrightarrow> place (seat_at c j) = Idle \<or> place (seat_at c j) = Gone"
    using assms(1) by (simp_all add: lone_at_def Let_def)
  moreover have "configured t cd ix i st'" "record_on cd ix (disk (io st')) r" using assms(2) by (simp_all add: settled_def)
  ultimately show ?thesis using assms(5-7) j unfolding lone_at_def Let_def x by auto
qed

lemma lone_next:
  assumes "lone_at t cd ix i l t0 n c" and "wakes (seat_at c i) \<le> time c"
  shows "\<exists>q st' r. segment (place (seat_at c i)) (on_disk (shared c) (daemon (seat_at c i))) = (Ret q, st') \<and>
    settled t cd ix i r st' \<and> q \<noteq> Idle \<and> q \<noteq> Gone \<and> wf_lockdata (ldata st') \<and> (q = Waiting \<longrightarrow> writing (place (seat_at c i)) = 0) \<and>
    lone_stage t i l t0 (Suc n) q r (ldata st') (time c + pause t q st') (time c)"
proof -
  let ?x = "seat_at c i"
  obtain r where r: "record_on cd ix (shared c) r" and s: "lone_stage t i l t0 n (place ?x) r (ldata (daemon ?x)) (wakes ?x) (time c)"
    using assms(1) by (auto simp: lone_at_def Let_def)
  have g: "configured t cd ix i (daemon ?x)" "t0 \<le> time c" "place ?x \<noteq> Idle \<Longrightarrow> wf_lockdata (ldata (daemon ?x))"
    using assms(1) by (auto simp: lone_at_def Let_def)
  have wr: "wf_lockdata r" using r by (simp add: record_on_def)
  have n: "valid_name i" using configured_name[OF g(1)] by simp
  have pw: "lock_timeout st' = lock_time t \<and> collision_timeout st' = collision_time t" if "settled t cd ix i r' st'" for r' st'
    using that by (simp add: settled_def configured_def)
  consider (idle) "place ?x = Idle" | (wait) "place ?x = Waiting" | (reserve) "place ?x = Reserving" | (detect) "place ?x = Colliding"
    | (wrt) "place ?x = Extending \<or> place ?x = Updating" | (hold) "place ?x = Holding"
    using s by (auto simp: lone_stage_def Let_def)
  then show ?thesis
  proof cases
    case idle
    obtain st' where st': "segment Idle (on_disk (shared c) (daemon ?x)) = (Ret (if other_holds i r then Waiting else Reserving), st')"
      "settled t cd ix i r st'" "ldata st' = r"
      using run_Idle[OF g(1) r] by blast
    with s idle wr g(2) pw[OF st'(2)] show ?thesis
      by (intro exI[of _ "if other_holds i r then Waiting else Reserving"] exI[of _ st'] exI[of _ r]) (auto simp: lone_stage_def Let_def)
  next
    case wait
    have e: "r = l" "ldata (daemon ?x) = l" using s wait by (auto simp: lone_stage_def Let_def)
    obtain st' where st': "segment Waiting (on_disk (shared c) (daemon ?x)) = (Ret Reserving, st')" "settled t cd ix i r st'" "ldata st' = l"
      using run_Waiting[OF g(1) r] e by auto
    with s wait wr e assms(2) pw[OF st'(2)] show ?thesis
      by (intro exI[of _ Reserving] exI[of _ st'] exI[of _ r]) (auto simp: lone_stage_def Let_def)
  next
    case reserve
    have w: "wf_lockdata (ldata (daemon ?x))" using g(3) reserve by simp
    obtain st' where st': "segment Reserving (on_disk (shared c) (daemon ?x)) = (Ret Colliding, st')" "settled t cd ix i (ldata st') st'"
      "ldata st' = taken_by i (ldata (daemon ?x))"
      using run_Reserving[OF g(1) r w] by blast
    have "held_by i (ldata st')" "wf_lockdata (ldata st')" using st'(3) held_taken[OF n] wf_taken_by[OF w n] by simp_all
    with s reserve assms(2) st' pw[OF st'(2)] show ?thesis
      by (intro exI[of _ Colliding] exI[of _ st'] exI[of _ "ldata st'"]) (auto simp: lone_stage_def Let_def)
  next
    case detect
    have w: "wf_lockdata (ldata (daemon ?x))" and h: "held_by i (ldata (daemon ?x))" "r = ldata (daemon ?x)"
      using g(3) s detect by (auto simp: lone_stage_def Let_def)
    obtain st' where st': "segment Colliding (on_disk (shared c) (daemon ?x)) = (Ret Extending, st')" "settled t cd ix i r st'"
      "ldata st' = ldata (daemon ?x)"
      using run_Colliding[OF g(1) r w h(1)] h by (auto simp: held_by_def)
    with s detect assms(2) w h pw[OF st'(2)] show ?thesis
      by (intro exI[of _ Extending] exI[of _ st'] exI[of _ r]) (auto simp: lone_stage_def Let_def)
  next
    case wrt
    have w: "wf_lockdata (ldata (daemon ?x))" using g(3) wrt by auto
    obtain st' where st': "segment (place ?x) (on_disk (shared c) (daemon ?x)) = (Ret Holding, st')" "settled t cd ix i (ldata st') st'"
      "ldata st' = (ldata (daemon ?x))\<lparr>count := SFEX_NEXT_COUNT (count (ldata (daemon ?x)))\<rparr>"
      using run_write[OF g(1) r w wrt] by blast
    have "held_by i (ldata st')" "wf_lockdata (ldata st')" using st'(3) s wrt wf_lockdata_bump[OF w] by (auto simp: lone_stage_def held_by_def Let_def)
    with s wrt assms(2) st' pw[OF st'(2)] show ?thesis
      by (intro exI[of _ Holding] exI[of _ st'] exI[of _ "ldata st'"]) (auto simp: lone_stage_def Let_def)
  next
    case hold
    have h: "held_by i r" using s hold by (auto simp: lone_stage_def Let_def)
    obtain st' where st': "segment Holding (on_disk (shared c) (daemon ?x)) = (Ret Updating, st')" "record_on cd ix (disk (io st')) r"
      "configured t cd ix i st'" "ldata st' = r"
      using run_Holding[OF g(1) r] h by auto
    then have "settled t cd ix i r st'" by (simp add: settled_def)
    with s hold assms(2) st' h wr pw[OF this] show ?thesis
      by (intro exI[of _ Updating] exI[of _ st'] exI[of _ r]) (auto simp: lone_stage_def Let_def)
  qed
qed

lemma lone_run_at:
  assumes "lone_run t i c n c'" and "lone_at t cd ix i l t0 0 c"
  shows "lone_at t cd ix i l t0 n c'"
  using assms(1)
proof (induction rule: lone_run.induct)
  case lone_start
  show ?case by (rule assms(2))
next
  case (lone_tick n c')
  have "lone_stage t i l t0 n p r m e u \<Longrightarrow> lone_stage t i l t0 n p r m e (u + 1)" for p r m e u
    unfolding lone_stage_def Let_def by linarith
  with lone_tick.IH show ?case unfolding lone_at_def Let_def by simp blast
next
  case (lone_segment n c')
  obtain q st' r where s: "segment (place (seat_at c' i)) (on_disk (shared c') (daemon (seat_at c' i))) = (Ret q, st')"
    and f: "settled t cd ix i r st'" "q \<noteq> Idle" "q \<noteq> Gone" "wf_lockdata (ldata st')" "q = Waiting \<longrightarrow> writing (place (seat_at c' i)) = 0"
      "lone_stage t i l t0 (Suc n) q r (ldata st') (time c' + pause t q st') (time c')"
    using lone_next[OF lone_segment.IH lone_segment.hyps(3)] by blast
  show ?case unfolding ran_eq[where f = "segment (place (seat_at c' i))", OF s] using lone_moved[OF lone_segment.IH f(1-4) _ f(6)] f(5) by simp
qed

text \<open>The node is never stuck: its next segment is possible as soon as its sleep is over.\<close>

lemma lone_sleep:
  assumes "lone_run t i c n c'" and "\<forall>j. j \<noteq> i \<longrightarrow> place (seat_at c' j) = Idle \<or> place (seat_at c' j) = Gone"
    and "place (seat_at c' i) \<notin> {Idle, Waiting, Gone} \<Longrightarrow> time c' + k \<le> limit (seat_at c' i)"
  shows "lone_run t i c n (c'\<lparr>time := time c' + k\<rparr>)"
  using assms(3)
proof (induction k)
  case 0
  then show ?case using assms(1) by simp
next
  case (Suc k)
  let ?c = "c'\<lparr>time := time c' + k\<rparr>"
  have "lone_run t i c n ?c" by (rule Suc.IH) (use Suc.prems in auto)
  then have "lone_run t i c n (?c\<lparr>time := time ?c + 1\<rparr>)"
  proof (rule lone_tick)
    fix j
    assume "place (seat_at ?c j) \<notin> {Idle, Waiting, Gone}"
    then show "time ?c < limit (seat_at ?c j)" using assms(2) Suc.prems by (cases "j = i") auto
  qed
  then show ?case by simp
qed

lemma lone_goes_on:
  assumes "lone_run t i c n c'" and "lone_at t cd ix i l t0 n c'"
  shows "\<exists>c''. lone_run t i c (Suc n) c'' \<and> time c'' = max (time c') (wakes (seat_at c' i))"
proof -
  let ?k = "wakes (seat_at c' i) - time c'" let ?c = "c'\<lparr>time := time c' + ?k\<rparr>"
  have f: "\<forall>j. j \<noteq> i \<longrightarrow> place (seat_at c' j) = Idle \<or> place (seat_at c' j) = Gone" "place (seat_at c' i) \<noteq> Gone"
    "place (seat_at c' i) \<noteq> Idle \<Longrightarrow> wakes (seat_at c' i) \<le> limit (seat_at c' i)"
    "place (seat_at c' i) = Waiting \<Longrightarrow> writes c' = writes_then (seat_at c' i)"
    using assms(2) by (auto simp: lone_at_def lone_stage_def Let_def)
  show ?thesis
  proof (cases "wakes (seat_at c' i) \<le> time c'")
    case True
    with f(2,4) have "lone_run t i c (Suc n) (ran t i (writing (place (seat_at c' i))) (segment (place (seat_at c' i))) c')"
      by (intro lone_segment[OF assms(1)]) auto
    moreover have "time (ran t i k f c') = time c'" for k f by (simp add: ran_def moved_def split: prod.split)
    ultimately show ?thesis using True by (auto simp: max_def)
  next
    case False
    have "lone_run t i c n ?c" using f False by (intro lone_sleep[OF assms(1)]) auto
    then have "lone_run t i c (Suc n) (ran t i (writing (place (seat_at ?c i))) (segment (place (seat_at ?c i))) ?c)"
      using f by (intro lone_segment) auto
    moreover have "time (ran t i k f ?c) = time ?c" for k f by (simp add: ran_def moved_def split: prod.split)
    ultimately show ?thesis using False by (intro exI) (auto simp: max_def)
  qed
qed

section \<open>Properties\<close>

definition demo_timing :: timing where
  "demo_timing = \<lparr>slack = 0, collision_time = 1, lock_time = 60, monitor_time = 10\<rparr>"

text \<open>Two nodes start on a disk with a lock that \<open>node1\<close> left behind; all other names are not in use.\<close>

definition demo_cluster :: cluster where
  "demo_cluster = \<lparr>shared = disk (io (demo_daemon ''node1'' demo_ldata)), time = 0, writes = 0,
     seat_at = \<lambda>i. \<lparr>daemon = demo_daemon i demo_ldata, place = (if i = ''node1'' \<or> i = ''node2'' then Idle else Gone),
       wakes = 0, limit = 0, writes_then = 0\<rparr>\<rparr>"

lemma demo_configured: "valid_name n \<Longrightarrow> configured demo_timing demo_cdata 1 n (demo_daemon n l)"
  using demo_quiet[of l n] by (simp add: configured_def quiet_with_def demo_timing_def demo_daemon_def)

lemma demo_record: "record_on demo_cdata 1 (shared demo_cluster) demo_ldata"
  using demo_quiet[of demo_ldata "''node1''"] demo_facts(3)
  by (simp add: record_on_def quiet_with_def demo_cluster_def lock_in_range_def demo_daemon_def)

lemma demo_started:
  "start_cluster demo_timing demo_cdata 1 demo_cluster" "timing_ok demo_timing"
  using demo_record demo_configured demo_names
  by (auto simp: start_cluster_def demo_cluster_def timing_ok_def demo_timing_def)

lemma demo_stands: "stands demo_cluster ''node2'' Idle (demo_daemon ''node2'' demo_ldata)"
  by (simp add: stands_def demo_cluster_def)

text \<open>
  The segments of the cluster are the daemon: run one after the other with nothing in between,
  they are \<open>acquire_lock\<close>, \<open>update_lock\<close> and \<open>release_lock\<close>, in every state and environment.
\<close>

theorem segments_compose:
  "acquire_lock = and_then check_first (\<lambda>other. and_then (if other then check_again else Pair (Ret ()))
      (\<lambda>_. and_then acquire_reserve (\<lambda>_. and_then acquire_detect (\<lambda>_. acquire_extend)))) \<and>
   update_lock = and_then update_begin (\<lambda>_. update_end) \<and> release_lock = and_then release_begin (\<lambda>_. release_end)"
  by (simp add: acquire_lock_def check_segments and_then_assoc update_segments release_segments)

text \<open>
  C1. Mutual exclusion: any number of nodes run the daemon on one disk, starting and crashing at any
  time, with their segments interleaved in any order.  When the delays between two accesses are
  bounded by \<open>slack\<close> and the timeouts leave room for them, a node that has the lock is the only
  one, and the record on the disk is locked in its name.
\<close>

theorem cluster_exclusion:
  assumes "timing_ok t" and "start_cluster t cd ix c" and "(cluster_step t cd ix)\<^sup>*\<^sup>* c c'" and "has_lock c' i"
  shows "(\<exists>l. record_on cd ix (shared c') l \<and> held_by i l) \<and> (\<forall>j. has_lock c' j \<longrightarrow> j = i)"
  by (rule owner_of[OF cluster_reachable[OF assms(1-3)] assms(4)])

theorem cluster_exclusion_witness:
  "\<exists>c'. (cluster_step demo_timing demo_cdata 1)\<^sup>*\<^sup>* demo_cluster c' \<and> time c' = 61 \<and>
     has_lock c' ''node2'' \<and> (\<forall>j. has_lock c' j \<longrightarrow> j = ''node2'')"
proof -
  have "other_holds ''node2'' demo_ldata" using demo_names by (simp add: other_holds_def)
  then obtain c' where c: "(cluster_step demo_timing demo_cdata 1)\<^sup>*\<^sup>* demo_cluster c'" "place (seat_at c' ''node2'') = Holding" "time c' = 61"
    using takes_lock[OF demo_stands demo_configured[OF demo_names(2)] demo_record]
    by (auto simp: demo_timing_def demo_cluster_def)
  then have "has_lock c' ''node2''" by (simp add: has_lock_def)
  with c cluster_exclusion[OF demo_started(2,1) c(1) this] show ?thesis by blast
qed

text \<open>
  C13. An unused lock is taken: when no other node is in the protocol, in every run in which a node goes on from the
  start of \<open>acquire_lock\<close>, whatever well-formed record is on the disk and however long it is delayed, the node has the lock
  after its third segment, or after its fourth when another node's lock has to expire, and keeps it in all
  further segments; it does not have it before these waits are over; and it is never stuck: its next
  segment follows when its sleep is over.
\<close>

theorem cluster_takes_lock:
  assumes "place (seat_at c i) = Idle" and "configured t cd ix i (daemon (seat_at c i))" and "record_on cd ix (shared c) l"
    and "\<forall>j. j \<noteq> i \<longrightarrow> place (seat_at c j) = Idle \<or> place (seat_at c j) = Gone" and "lone_run t i c n c'"
  shows "((if other_holds i l then 4 else 3) \<le> n \<longleftrightarrow> has_lock c' i) \<and>
    (has_lock c' i \<longrightarrow> time c + (if other_holds i l then lock_time t else 0) + collision_time t \<le> time c') \<and>
    (\<exists>c''. lone_run t i c (Suc n) c'' \<and> time c'' = max (time c') (wakes (seat_at c' i)))"
proof -
  have "lone_at t cd ix i l (time c) 0 c" using assms(1-4) by (auto simp: lone_at_def lone_stage_def Let_def)
  note a = lone_run_at[OF assms(5) this]
  then obtain r where r: "lone_stage t i l (time c) n (place (seat_at c' i)) r (ldata (daemon (seat_at c' i))) (wakes (seat_at c' i)) (time c')"
    by (auto simp: lone_at_def Let_def)
  show ?thesis using lone_goes_on[OF assms(5) a] r by (auto simp: has_lock_def lone_stage_def Let_def)
qed

theorem cluster_takes_lock_witness:
  "\<exists>c'. lone_run demo_timing ''node2'' demo_cluster 4 c' \<and> has_lock c' ''node2'' \<and> 61 \<le> time c'"
proof -
  have o: "other_holds ''node2'' demo_ldata" using demo_names by (simp add: other_holds_def)
  have h: "place (seat_at demo_cluster ''node2'') = Idle" "configured demo_timing demo_cdata 1 ''node2'' (daemon (seat_at demo_cluster ''node2''))"
    "\<forall>j. j \<noteq> ''node2'' \<longrightarrow> place (seat_at demo_cluster j) = Idle \<or> place (seat_at demo_cluster j) = Gone"
    using demo_configured[OF demo_names(2)] by (simp_all add: demo_cluster_def)
  note t = cluster_takes_lock[OF h(1,2) demo_record h(3)]
  have "\<exists>c'. lone_run demo_timing ''node2'' demo_cluster n c'" for n
  proof (induction n)
    case 0
    show ?case using lone_start by blast
  next
    case (Suc n)
    then show ?case using t by blast
  qed
  then obtain c' where c': "lone_run demo_timing ''node2'' demo_cluster 4 c'" by blast
  with t[OF c'] o show ?thesis by (auto simp: demo_timing_def demo_cluster_def)
qed

text \<open>
  C12. The cluster refines the protocol: every run of the daemons on the bytes of the disk is a run
  of the timed lock protocol, in which the record is who holds the lock and the number of its update.
\<close>

theorem cluster_refines_protocol:
  assumes "timing_ok t" and "start_cluster t cd ix c" and "(cluster_step t cd ix)\<^sup>*\<^sup>* c c'"
  shows "\<exists>s s'. protocol_start s \<and> simulates t cd ix c s \<and> (protocol_step t)\<^sup>*\<^sup>* s s' \<and> simulates t cd ix c' s'"
proof -
  obtain s where s: "protocol_start s" "simulates t cd ix c s" using start_simulates[OF assms(2)] by blast
  from assms(3) have "\<exists>s'. (protocol_step t)\<^sup>*\<^sup>* s s' \<and> simulates t cd ix c' s'"
  proof (induction rule: rtranclp_induct)
    case base
    then show ?case using s(2) by blast
  next
    case (step y z)
    then obtain s' where s': "(protocol_step t)\<^sup>*\<^sup>* s s'" "simulates t cd ix y s'" by blast
    have "protocol_inv t s'" by (rule protocol_reachable[OF assms(1) s(1) s'(1)])
    from cluster_match[OF step(2) s'(2) this] s'(1) show ?case
      unfolding matched_def by (meson rtranclp.rtrancl_into_rtrancl)
  qed
  with s show ?thesis by blast
qed

theorem cluster_refines_protocol_witness:
  "\<exists>c' s s'. (cluster_step demo_timing demo_cdata 1)\<^sup>*\<^sup>* demo_cluster c' \<and> has_lock c' ''node2'' \<and>
     protocol_start s \<and> (protocol_step demo_timing)\<^sup>*\<^sup>* s s' \<and> simulates demo_timing demo_cdata 1 c' s'"
proof -
  obtain c' where c: "(cluster_step demo_timing demo_cdata 1)\<^sup>*\<^sup>* demo_cluster c'" "has_lock c' ''node2''"
    using takes_lock[OF demo_stands demo_configured[OF demo_names(2)] demo_record] by (auto simp: has_lock_def)
  with cluster_refines_protocol[OF demo_started(2,1) c(1)] show ?thesis by blast
qed

end
