(* ===== verification/Sfex_Sigterm.thy ===== *)
theory Sfex_Sigterm
  imports Sfex_Cluster
begin

text \<open>
  SIGTERM while a daemon acquires the lock, in \<^verbatim>\<open>src/tools/sfex_daemon.c\<close>: the handler is installed before
  \<open>acquire_lock\<close>, so \<open>release_lock\<close> may run at every place but inside the handler itself, where the signal is
  blocked.  \<open>signal_step\<close> adds this to the steps of the cluster.  Runs are followed on a picture of the cluster that has of every record only whether it is locked, by
  whom, and its counter; \<open>play\<close> computes such runs.
\<close>

section \<open>Signals at every place\<close>

inductive signal_step :: "timing \<Rightarrow> sfex_controldata \<Rightarrow> int \<Rightarrow> cluster \<Rightarrow> cluster \<Rightarrow> bool" for t cd ix where
  signal_cluster: "cluster_step t cd ix c c' \<Longrightarrow> signal_step t cd ix c c'"
| signal_quit: "place (seat_at c i) \<notin> {Releasing, Gone} \<Longrightarrow> signal_step t cd ix c (ran t i 0 (then_at Releasing release_begin) c)"

section \<open>Pictures of a cluster\<close>

type_synonym lock_view = "bool \<times> string \<times> int"

definition view :: "sfex_lockdata \<Rightarrow> lock_view" where
  "view l = (status l = SFEX_STATUS_LOCK, cstr (nodename l), count l)"

definition own_view :: "string \<Rightarrow> lock_view \<Rightarrow> bool" where
  "own_view i v \<longleftrightarrow> fst v \<and> fst (snd v) = i"

definition next_view :: "lock_view \<Rightarrow> lock_view" where
  "next_view = (\<lambda>(l, n, k). (l, n, SFEX_NEXT_COUNT k))"

text \<open>A segment on pictures: the next place, the own copy and the record on the disk afterwards.\<close>

fun act :: "string \<Rightarrow> point \<Rightarrow> lock_view \<Rightarrow> lock_view \<Rightarrow> point \<times> lock_view \<times> lock_view" where
  "act i Idle cp v = (if fst v \<and> fst (snd v) \<noteq> i then Waiting else Reserving, v, v)"
| "act i Waiting cp v = (if snd (snd cp) = snd (snd v) then Reserving else Gone, cp, v)"
| "act i Reserving cp v = (let r = (True, i, SFEX_NEXT_COUNT (snd (snd cp))) in (Colliding, r, r))"
| "act i Colliding cp v = (if fst (snd v) = i then Extending else Gone, cp, v)"
| "act i Extending cp v = (Holding, next_view cp, next_view cp)"
| "act i Holding cp v = (if own_view i v then Updating else Gone, v, v)"
| "act i Updating cp v = (Holding, next_view cp, next_view cp)"
| "act i Releasing cp v = (Gone, (False, snd cp), (False, snd cp))"
| "act i Gone cp v = (Gone, cp, v)"

definition act_quit :: "string \<Rightarrow> lock_view \<Rightarrow> point \<times> lock_view \<times> lock_view" where
  "act_quit i v = (if own_view i v then Releasing else Gone, v, v)"

record shade =
  spot :: point
  copy :: lock_view
  till :: nat
  within :: nat
  since :: nat

record stage =
  stage_time :: nat
  written :: nat
  on_record :: lock_view
  cast :: "(string \<times> shade) list"

definition absent :: shade where
  "absent = \<lparr>spot = Gone, copy = (False, [], 0), till = 0, within = 0, since = 0\<rparr>"

definition shade_of :: "stage \<Rightarrow> string \<Rightarrow> shade" where
  "shade_of s i = (case map_of (cast s) i of None \<Rightarrow> absent | Some x \<Rightarrow> x)"

fun stay :: "timing \<Rightarrow> point \<Rightarrow> nat" where
  "stay t Waiting = lock_time t" | "stay t Colliding = collision_time t" | "stay t Holding = monitor_time t"
| "stay t Gone = slack t" | "stay t _ = 0"

definition put :: "timing \<Rightarrow> string \<Rightarrow> nat \<Rightarrow> point \<times> lock_view \<times> lock_view \<Rightarrow> stage \<Rightarrow> stage" where
  "put t i k r s = (case r of (p, cp, v) \<Rightarrow>
     s\<lparr>written := written s + k, on_record := v,
       cast := (i, \<lparr>spot = p, copy = cp, till = stage_time s + stay t p, within = stage_time s + stay t p + slack t, since = written s\<rparr>) # cast s\<rparr>)"

datatype move = Pass nat | Run string | Quit string

fun play_move :: "timing \<Rightarrow> move \<Rightarrow> stage \<Rightarrow> stage option" where
  "play_move t (Pass n) s =
     (if list_all (\<lambda>(i, _). spot (shade_of s i) \<in> {Idle, Waiting, Gone} \<or> stage_time s + n \<le> within (shade_of s i)) (cast s)
      then Some (s\<lparr>stage_time := stage_time s + n\<rparr>) else None)"
| "play_move t (Run i) s =
     (let x = shade_of s i in
      if spot x \<noteq> Gone \<and> till x \<le> stage_time s \<and> (spot x = Waiting \<longrightarrow> written s < since x + 1000) \<and>
         (spot x = Colliding \<longrightarrow> own_view i (copy x))
      then Some (put t i (writing (spot x)) (act i (spot x) (copy x) (on_record s)) s) else None)"
| "play_move t (Quit i) s =
     (if spot (shade_of s i) \<notin> {Releasing, Gone} then Some (put t i 0 (act_quit i (on_record s)) s) else None)"

fun play :: "timing \<Rightarrow> move list \<Rightarrow> stage \<Rightarrow> stage option" where
  "play t [] s = Some s"
| "play t (m # ms) s = (case play_move t m s of None \<Rightarrow> None | Some s' \<Rightarrow> play t ms s')"

section \<open>The cluster follows its picture\<close>

definition seat_pic :: "timing \<Rightarrow> sfex_controldata \<Rightarrow> int \<Rightarrow> string \<Rightarrow> seat \<Rightarrow> shade \<Rightarrow> bool" where
  "seat_pic t cd ix i x y \<longleftrightarrow> place x = spot y \<and>
     (spot y \<noteq> Gone \<longrightarrow> wakes x = till y \<and> limit x = within y \<and> writes_then x = since y \<and> configured t cd ix i (daemon x)) \<and>
     (spot y \<noteq> Gone \<and> spot y \<noteq> Idle \<longrightarrow> wf_lockdata (ldata (daemon x)) \<and> view (ldata (daemon x)) = copy y)"

definition pictured :: "timing \<Rightarrow> sfex_controldata \<Rightarrow> int \<Rightarrow> cluster \<Rightarrow> stage \<Rightarrow> bool" where
  "pictured t cd ix c s \<longleftrightarrow> time c = stage_time s \<and> writes c = written s \<and>
     (\<exists>l. record_on cd ix (shared c) l \<and> view l = on_record s) \<and> (\<forall>i. seat_pic t cd ix i (seat_at c i) (shade_of s i))"

lemma shade_of_put: "shade_of (put t i k (p, cp, v) s) j = (if j = i
    then \<lparr>spot = p, copy = cp, till = stage_time s + stay t p, within = stage_time s + stay t p + slack t, since = written s\<rparr> else shade_of s j)"
  by (simp add: shade_of_def put_def)

lemma stay_pause: "configured t cd ix i st \<Longrightarrow> p \<noteq> Gone \<Longrightarrow> pause t p st = stay t p"
  by (cases p) (simp_all add: configured_def)

text \<open>After a segment that leaves record \<open>l\<close> on the disk.\<close>

lemma pictured_moved:
  assumes "pictured t cd ix c s" and "record_on cd ix (disk (io st)) l" and "view l = v"
    and "p \<noteq> Gone \<Longrightarrow> configured t cd ix i st \<and> wf_lockdata (ldata st) \<and> view (ldata st) = cp"
  shows "pictured t cd ix (moved t i k p st c) (put t i k (p, cp, v) s)"
proof -
  have "seat_pic t cd ix i (seat_at (moved t i k p st c) i) (shade_of (put t i k (p, cp, v) s) i)"
    using assms(1,4) stay_pause[of t cd ix i st p] by (auto simp: seat_pic_def shade_of_put moved_def pictured_def)
  moreover have "seat_pic t cd ix j (seat_at (moved t i k p st c) j) (shade_of (put t i k (p, cp, v) s) j)" if "j \<noteq> i" for j
    using assms(1) that by (simp add: shade_of_put moved_def pictured_def)
  ultimately have "seat_pic t cd ix j (seat_at (moved t i k p st c) j) (shade_of (put t i k (p, cp, v) s) j)" for j by metis
  moreover have "time (moved t i k p st c) = stage_time (put t i k (p, cp, v) s)" "writes (moved t i k p st c) = written (put t i k (p, cp, v) s)"
    "shared (moved t i k p st c) = disk (io st)" "on_record (put t i k (p, cp, v) s) = v"
    using assms(1) by (simp_all add: pictured_def moved_def put_def)
  ultimately show ?thesis using assms(2,3) unfolding pictured_def by metis
qed

lemma view_simps:
  "valid_name n \<Longrightarrow> view (taken_by n l) = (True, n, SFEX_NEXT_COUNT (count l))"
  "view (l\<lparr>count := SFEX_NEXT_COUNT (count l)\<rparr>) = next_view (view l)"
  "view (l\<lparr>status := SFEX_STATUS_UNLOCK\<rparr>) = (False, snd (view l))"
  "held_by n l = own_view n (view l)" "other_holds n l \<longleftrightarrow> fst (view l) \<and> fst (snd (view l)) \<noteq> n"
  using held_taken[of n l]
  by (simp_all add: view_def taken_by_def held_by_def next_view_def own_view_def other_holds_def SFEX_STATUS_UNLOCK_def SFEX_STATUS_LOCK_def)

text \<open>One segment, whatever its place.\<close>

lemma segment_act:
  assumes "configured t cd ix i st" and "record_on cd ix d l" and "p \<noteq> Gone"
    and "p \<noteq> Idle \<Longrightarrow> wf_lockdata (ldata st) \<and> view (ldata st) = cp" and "p = Colliding \<Longrightarrow> own_view i cp"
    and "act i p cp (view l) = (q, cp', v')"
  shows "\<exists>r st' l'. segment p (on_disk d st) = (r, st') \<and> (case r of Ret p' \<Rightarrow> p' | _ \<Rightarrow> Gone) = q \<and>
    record_on cd ix (disk (io st')) l' \<and> view l' = v' \<and>
    (q \<noteq> Gone \<longrightarrow> configured t cd ix i st' \<and> wf_lockdata (ldata st') \<and> view (ldata st') = cp')"
proof -
  have n: "valid_name i" using configured_name[OF assms(1)] by simp
  have wl: "wf_lockdata l" using assms(2) by (simp add: record_on_def)
  note u = settled_def view_simps n
  show ?thesis
  proof (cases p)
    case Idle
    from run_Idle[OF assms(1,2)] assms(6) wl show ?thesis unfolding Idle by (auto simp: u)
  next
    case Waiting
    then have "wf_lockdata (ldata st)" "view (ldata st) = cp" using assms(4) by auto
    with run_Waiting[OF assms(1,2)] assms(6) show ?thesis unfolding Waiting by (auto simp: u view_def split: if_splits)
  next
    case Reserving
    then have h: "wf_lockdata (ldata st)" "view (ldata st) = cp" using assms(4) by auto
    then obtain st' where "segment p (on_disk d st) = (Ret Colliding, st')" "settled t cd ix i (ldata st') st'" "ldata st' = taken_by i (ldata st)"
      using run_Reserving[OF assms(1,2) h(1)] Reserving by auto
    moreover have "view (taken_by i (ldata st)) = (True, i, SFEX_NEXT_COUNT (snd (snd cp)))"
      using view_simps(1)[OF n, of "ldata st"] h(2) by (auto simp: view_def)
    ultimately show ?thesis using assms(6) Reserving wf_taken_by[OF h(1) n] by (auto simp: settled_def Let_def)
  next
    case Colliding
    then have h: "wf_lockdata (ldata st)" "view (ldata st) = cp" "held_by i (ldata st)" using assms(4,5) by (auto simp: view_simps)
    with run_Colliding[OF assms(1,2) h(1,3)] assms(6) show ?thesis unfolding Colliding by (auto simp: u view_def split: if_splits)
  next
    case Extending
    then have h: "wf_lockdata (ldata st)" "view (ldata st) = cp" using assms(4) by auto
    with run_write[OF assms(1,2) h(1), of p] assms(6) wf_lockdata_bump[OF h(1)] Extending show ?thesis by (fastforce simp: u)
  next
    case Updating
    then have h: "wf_lockdata (ldata st)" "view (ldata st) = cp" using assms(4) by auto
    with run_write[OF assms(1,2) h(1), of p] assms(6) wf_lockdata_bump[OF h(1)] Updating show ?thesis by (fastforce simp: u)
  next
    case Holding
    with run_Holding[OF assms(1,2)] assms(6) wl show ?thesis unfolding Holding by (auto simp: u split: if_splits)
  next
    case Releasing
    then have h: "wf_lockdata (ldata st)" "view (ldata st) = cp" using assms(4) by auto
    with run_Releasing[OF assms(1,2) h(1)] assms(6) Releasing show ?thesis by (fastforce simp: u)
  qed (use assms(3) in simp)
qed

lemma quit_act:
  assumes "configured t cd ix i st" and "record_on cd ix d l" and "act_quit i (view l) = (q, cp', v')"
  shows "\<exists>r st' l'. then_at Releasing release_begin (on_disk d st) = (r, st') \<and> (case r of Ret p' \<Rightarrow> p' | _ \<Rightarrow> Gone) = q \<and>
    record_on cd ix (disk (io st')) l' \<and> view l' = v' \<and>
    (q \<noteq> Gone \<longrightarrow> configured t cd ix i st' \<and> wf_lockdata (ldata st') \<and> view (ldata st') = cp')"
proof -
  have "wf_lockdata l" using assms(2) by (simp add: record_on_def)
  with run_quit[OF assms(1,2)] assms(3) show ?thesis by (auto simp: act_quit_def view_simps split: if_splits)
qed

lemma pictured_ran:
  assumes "pictured t cd ix c s" and "f (on_disk (shared c) (daemon (seat_at c i))) = (r, st)" and "(case r of Ret p \<Rightarrow> p | _ \<Rightarrow> Gone) = q"
    and "record_on cd ix (disk (io st)) l" and "view l = v"
    and "q \<noteq> Gone \<longrightarrow> configured t cd ix i st \<and> wf_lockdata (ldata st) \<and> view (ldata st) = cp"
  shows "pictured t cd ix (ran t i k f c) (put t i k (q, cp, v) s)"
  unfolding ran_eq[where f = f, OF assms(2)] assms(3) using assms(6) by (intro pictured_moved[OF assms(1,4,5)]) simp

text \<open>Moves of the picture are steps of the cluster.\<close>

lemma follow_run:
  assumes "pictured t cd ix c s" and "play_move t (Run i) s = Some s'"
  shows "\<exists>c'. cluster_step t cd ix c c' \<and> pictured t cd ix c' s'"
proof -
  let ?x = "shade_of s i" and ?p = "place (seat_at c i)"
  have g: "spot ?x \<noteq> Gone" "till ?x \<le> stage_time s" "spot ?x = Waiting \<Longrightarrow> written s < since ?x + 1000"
    "spot ?x = Colliding \<Longrightarrow> own_view i (copy ?x)" and s': "s' = put t i (writing (spot ?x)) (act i (spot ?x) (copy ?x) (on_record s)) s"
    using assms(2) by (simp_all add: Let_def split: if_splits)
  obtain q cp v where a: "act i (spot ?x) (copy ?x) (on_record s) = (q, cp, v)" by (cases "act i (spot ?x) (copy ?x) (on_record s)") auto
  obtain l where l: "record_on cd ix (shared c) l" "view l = on_record s" using assms(1) by (auto simp: pictured_def)
  have x: "seat_pic t cd ix i (seat_at c i) ?x" using assms(1) by (simp add: pictured_def)
  then have e: "?p = spot ?x" "configured t cd ix i (daemon (seat_at c i))" "wakes (seat_at c i) \<le> time c"
    "?p = Waiting \<Longrightarrow> writes c < writes_then (seat_at c i) + 1000"
    "?p \<noteq> Idle \<Longrightarrow> wf_lockdata (ldata (daemon (seat_at c i))) \<and> view (ldata (daemon (seat_at c i))) = copy ?x"
    using g assms(1) by (auto simp: seat_pic_def pictured_def)
  obtain r st' l' where "segment ?p (on_disk (shared c) (daemon (seat_at c i))) = (r, st')" "(case r of Ret p' \<Rightarrow> p' | _ \<Rightarrow> Gone) = q"
    "record_on cd ix (disk (io st')) l'" "view l' = v"
    "q \<noteq> Gone \<longrightarrow> configured t cd ix i st' \<and> wf_lockdata (ldata st') \<and> view (ldata st') = cp"
    using segment_act[OF e(2) l(1), of ?p "copy ?x" q cp v] e(1,5) g(1,4) a l(2) by auto
  from pictured_ran[where f = "segment ?p", OF assms(1) this, of "writing ?p"]
  have "pictured t cd ix (ran t i (writing ?p) (segment ?p) c) s'" using s' a e(1) by simp
  moreover have "cluster_step t cd ix c (ran t i (writing ?p) (segment ?p) c)" using g(1) e by (intro cluster_run) simp_all
  ultimately show ?thesis by blast
qed

lemma follow_quit:
  assumes "pictured t cd ix c s" and "play_move t (Quit i) s = Some s'"
  shows "\<exists>c'. signal_step t cd ix c c' \<and> pictured t cd ix c' s'"
proof -
  let ?x = "shade_of s i"
  have g: "spot ?x \<notin> {Releasing, Gone}" and s': "s' = put t i 0 (act_quit i (on_record s)) s" using assms(2) by (simp_all split: if_splits)
  obtain q cp v where a: "act_quit i (on_record s) = (q, cp, v)" by (cases "act_quit i (on_record s)") auto
  obtain l where l: "record_on cd ix (shared c) l" "view l = on_record s" using assms(1) by (auto simp: pictured_def)
  have e: "place (seat_at c i) = spot ?x" "configured t cd ix i (daemon (seat_at c i))"
    using assms(1) g by (auto simp: seat_pic_def pictured_def)
  obtain r st' l' where "then_at Releasing release_begin (on_disk (shared c) (daemon (seat_at c i))) = (r, st')"
    "(case r of Ret p' \<Rightarrow> p' | _ \<Rightarrow> Gone) = q" "record_on cd ix (disk (io st')) l'" "view l' = v"
    "q \<noteq> Gone \<longrightarrow> configured t cd ix i st' \<and> wf_lockdata (ldata st') \<and> view (ldata st') = cp"
    using quit_act[OF e(2) l(1)] a l(2) by metis
  from pictured_ran[where f = "then_at Releasing release_begin", OF assms(1) this, of 0] s' a
  show ?thesis using signal_quit[of c i t cd ix] e(1) g by auto
qed

lemma passes:
  assumes "\<And>j. place (seat_at c j) \<notin> {Idle, Waiting, Gone} \<Longrightarrow> time c + n \<le> limit (seat_at c j)"
  shows "(cluster_step t cd ix)\<^sup>*\<^sup>* c (c\<lparr>time := time c + n\<rparr>)"
  using assms
proof (induction n)
  case (Suc n)
  let ?c = "c\<lparr>time := time c + n\<rparr>"
  have "cluster_step t cd ix ?c (?c\<lparr>time := time ?c + 1\<rparr>)" using Suc.prems by (intro cluster_tick) (simp add: Suc_le_eq)
  moreover have "(cluster_step t cd ix)\<^sup>*\<^sup>* c ?c" by (rule Suc.IH) (use Suc.prems in fastforce)
  ultimately show ?case by simp
qed simp

lemma follow_pass:
  assumes "pictured t cd ix c s" and "play_move t (Pass n) s = Some s'"
  shows "\<exists>c'. (cluster_step t cd ix)\<^sup>*\<^sup>* c c' \<and> pictured t cd ix c' s'"
proof -
  have g: "list_all (\<lambda>(i, _). spot (shade_of s i) \<in> {Idle, Waiting, Gone} \<or> stage_time s + n \<le> within (shade_of s i)) (cast s)"
    and s': "s' = s\<lparr>stage_time := stage_time s + n\<rparr>" using assms(2) by (simp_all split: if_splits)
  have p: "time c = stage_time s" "\<And>j. seat_pic t cd ix j (seat_at c j) (shade_of s j)" using assms(1) by (auto simp: pictured_def)
  have "time c + n \<le> limit (seat_at c j)" if "place (seat_at c j) \<notin> {Idle, Waiting, Gone}" for j
  proof -
    have k: "spot (shade_of s j) \<notin> {Idle, Waiting, Gone}" "limit (seat_at c j) = within (shade_of s j)"
      using p(2)[of j] that by (auto simp: seat_pic_def)
    then have "map_of (cast s) j \<noteq> None" by (auto simp: shade_of_def absent_def split: option.splits)
    then obtain y where "(j, y) \<in> set (cast s)" by (auto dest: map_of_SomeD)
    then show ?thesis using g k p(1) by (auto simp: list_all_iff)
  qed
  from passes[OF this, of t cd ix] have "(cluster_step t cd ix)\<^sup>*\<^sup>* c (c\<lparr>time := time c + n\<rparr>)" by blast
  moreover have "pictured t cd ix (c\<lparr>time := time c + n\<rparr>) s'" using assms(1) s' by (simp add: pictured_def shade_of_def)
  ultimately show ?thesis by blast
qed

lemma signal_cluster_steps: "(cluster_step t cd ix)\<^sup>*\<^sup>* c c' \<Longrightarrow> (signal_step t cd ix)\<^sup>*\<^sup>* c c'"
  by (induction rule: rtranclp_induct) (auto intro: signal_cluster rtranclp.rtrancl_into_rtrancl)

lemma follow:
  assumes "pictured t cd ix c s" and "play t ms s = Some s'"
  shows "\<exists>c'. (signal_step t cd ix)\<^sup>*\<^sup>* c c' \<and> pictured t cd ix c' s'"
  using assms
proof (induction ms arbitrary: c s)
  case (Cons m ms)
  obtain s1 where m: "play_move t m s = Some s1" "play t ms s1 = Some s'" using Cons.prems(2) by (auto split: option.splits)
  have "\<exists>c'. (signal_step t cd ix)\<^sup>*\<^sup>* c c' \<and> pictured t cd ix c' s1"
  proof (cases m)
    case (Pass n)
    then show ?thesis using follow_pass[OF Cons.prems(1)] m(1) signal_cluster_steps by blast
  next
    case (Run i)
    then show ?thesis using follow_run[OF Cons.prems(1)] m(1) signal_cluster by blast
  next
    case (Quit i)
    then show ?thesis using follow_quit[OF Cons.prems(1)] m(1) by blast
  qed
  then obtain c1 where "(signal_step t cd ix)\<^sup>*\<^sup>* c c1" "pictured t cd ix c1 s1" by blast
  with Cons.IH[OF this(2) m(2)] show ?case by (meson rtranclp_trans)
qed auto

section \<open>A run with two holders\<close>

text \<open>Four daemons start on a disk whose lock \<open>node1\<close> left behind when it stopped.\<close>

definition four_nodes :: "string list" where
  "four_nodes = [''node1'', ''node2'', ''node3'', ''node4'']"

definition aba_cluster :: cluster where
  "aba_cluster = \<lparr>shared = shared demo_cluster, time = 0, writes = 0,
     seat_at = \<lambda>i. \<lparr>daemon = demo_daemon i demo_ldata, place = (if i \<in> set four_nodes then Idle else Gone),
       wakes = 0, limit = 0, writes_then = 0\<rparr>\<rparr>"

definition aba_stage :: stage where
  "aba_stage = \<lparr>stage_time = 0, written = 0, on_record = (True, ''node1'', 7),
     cast = map (\<lambda>i. (i, \<lparr>spot = Idle, copy = (False, [], 0), till = 0, within = 0, since = 0\<rparr>)) four_nodes\<rparr>"

text \<open>
  The stale record of \<open>node1\<close> carries counter 7.  \<open>node2\<close> reserves the lock with 8, which \<open>node3\<close> sees;
  the handler of \<open>node1\<close> then writes back 7, unlocked, and \<open>node4\<close> takes the lock with 8 again: to \<open>node3\<close> the
  record looks as if it had not been updated.
\<close>

definition aba_moves :: "move list" where
  "aba_moves =
     [Run ''node2'', Pass 60, Quit ''node1'', Run ''node2'', Run ''node2'', Run ''node3'', Run ''node1'',
      Pass 1, Run ''node2'', Pass 58, Run ''node4'', Run ''node4'', Pass 1, Run ''node4'', Run ''node3'',
      Run ''node4'', Run ''node3'', Pass 1, Run ''node3'']"

lemma aba_start: "start_cluster demo_timing demo_cdata 1 aba_cluster" "pictured demo_timing demo_cdata 1 aba_cluster aba_stage"
proof -
  have n: "configured demo_timing demo_cdata 1 i (demo_daemon i demo_ldata)" if "i \<in> set four_nodes" for i
    using that by (intro demo_configured) (auto simp: four_nodes_def valid_name_def c_string_def SFEX_MAX_NODENAME_def)
  have r: "record_on demo_cdata 1 (shared aba_cluster) demo_ldata" "view demo_ldata = (True, ''node1'', 7)"
    using demo_record demo_names by (simp_all add: aba_cluster_def view_def)
  show "start_cluster demo_timing demo_cdata 1 aba_cluster" using n r(1) by (auto simp: start_cluster_def aba_cluster_def)
  have "shade_of aba_stage i = (if i \<in> set four_nodes then \<lparr>spot = Idle, copy = (False, [], 0), till = 0, within = 0, since = 0\<rparr> else absent)" for i
    by (simp add: shade_of_def aba_stage_def map_of_map_restrict restrict_map_def)
  then have "seat_pic demo_timing demo_cdata 1 i (seat_at aba_cluster i) (shade_of aba_stage i)" for i
    using n by (simp add: seat_pic_def aba_cluster_def absent_def)
  then show "pictured demo_timing demo_cdata 1 aba_cluster aba_stage"
    using r by (auto simp: pictured_def aba_cluster_def aba_stage_def)
qed

lemma aba_plays:
  "(case play demo_timing aba_moves aba_stage of None \<Rightarrow> False
    | Some s \<Rightarrow> spot (shade_of s ''node3'') = Extending \<and> spot (shade_of s ''node4'') = Holding \<and> stage_time s = 121)"
  by code_simp

section \<open>Properties\<close>

text \<open>
  C14. Mutual exclusion is lost to SIGTERM during acquisition: with timeouts that give mutual exclusion otherwise, a
  SIGTERM that reaches a starting daemon while the record on the disk is its own stale lock lets two other
  daemons hold the lock at the same time, 121 seconds after the start.
\<close>

theorem sigterm_breaks_exclusion:
  "timing_ok demo_timing \<and> start_cluster demo_timing demo_cdata 1 aba_cluster \<and>
   (\<exists>c'. (signal_step demo_timing demo_cdata 1)\<^sup>*\<^sup>* aba_cluster c' \<and> has_lock c' ''node3'' \<and> has_lock c' ''node4'' \<and> time c' = 121)"
proof -
  obtain s where s: "play demo_timing aba_moves aba_stage = Some s"
    "spot (shade_of s ''node3'') = Extending" "spot (shade_of s ''node4'') = Holding" "stage_time s = 121"
    using aba_plays by (auto split: option.splits)
  obtain c' where c: "(signal_step demo_timing demo_cdata 1)\<^sup>*\<^sup>* aba_cluster c'" "pictured demo_timing demo_cdata 1 c' s"
    using follow[OF aba_start(2) s(1)] by blast
  then have "place (seat_at c' ''node3'') = Extending" "place (seat_at c' ''node4'') = Holding" "time c' = 121"
    using s by (auto simp: pictured_def seat_pic_def)
  with c(1) show ?thesis using demo_started(2) aba_start(1) by (auto simp: has_lock_def)
qed

end
