(* ===== verification/Storage_Mon.thy ===== *)
theory Storage_Mon
  imports C_Lib
begin

text \<open>
  The device monitor \<^verbatim>\<open>src/tools/storage_mon.c\<close>: its global variables as one record, the test
  of one device as the child process runs it, the signal and timer handlers of the daemon, and the
  foreground test.  The event loop is libqb's: what the program asks of it is recorded in
  \<open>requests\<close>, and whether the timeout timer is running is an argument of the handler that asks.
  Results of \<open>fork\<close>, \<open>waitpid\<close>, \<open>clock_gettime\<close> and of the calls on a device are
  arguments too.
\<close>

definition MAX_DEVICES :: nat where "MAX_DEVICES = 25"
definition DEFAULT_TIMEOUT :: int where "DEFAULT_TIMEOUT = 10"
definition DEFAULT_INTERVAL :: int where "DEFAULT_INTERVAL = 30"

datatype timer_kind = Test_Timer bool | Expire_Timer

text \<open>
  \<open>Test_Timer b\<close> calls \<open>wrap_test_device_main\<close>, with timer data when \<open>b\<close>; \<open>Timer_Del\<close>
  removes the test timer.
\<close>

datatype loop_request = Timer_Add int timer_kind | Timer_Del | Loop_Stop

record storage_mon =
  devices :: "string list"
  scores :: "int list"
  timeout :: int
  timer_interval :: int
  daemonize :: bool
  shutting_down :: bool
  final_score :: int
  response_final_score :: int
  test_forks :: "int list"
  finished_count :: nat
  daemon_check_first_all_devices :: bool
  requests :: "loop_request list"
  killed :: "(int \<times> int) list"

abbreviation device_count :: "storage_mon \<Rightarrow> nat" where
  "device_count st \<equiv> length (devices st)"

section \<open>The test of one device\<close>

text \<open>What the system answers to the child, in the order of the calls.\<close>

record device_env =
  open_direct :: "int option"
  open_plain_ok :: bool
  size_ok :: bool
  devsize :: "64 word"
  rand_value :: "32 word"
  seek_ok :: bool
  sector_ok :: bool
  sec_size :: int
  memalign_ok :: bool
  read_result :: int
  rand_inject :: int
  close_ok :: bool

definition EINVAL :: int where "EINVAL = 22"

text \<open>
  \<open>open_direct\<close> is the error of the first \<open>open\<close>, if any.  \<open>rand\<close> returns a non-negative
  \<open>int\<close>, converted to \<open>uint64_t\<close> by the arithmetic of the expression; a remainder by 0 kills the
  child.
\<close>

definition seek_spot :: "device_env \<Rightarrow> 64 word option" where
  "seek_spot e =
     (let m = devsize e - 1024 in
      if m = 0 then None
      else Some (and (scast (rand_value e) mod m) 0xFFFFFFFFFFFFFE00))"

definition sector_read_ok :: "device_env \<Rightarrow> bool \<Rightarrow> bool" where
  "sector_read_ok e direct \<longleftrightarrow>
     (if direct then sector_ok e \<and> memalign_ok e \<and> read_result e \<ge> 0 \<and> read_result e \<ge> sec_size e
      else read_result e \<ge> 0 \<and> read_result e \<ge> 512)"

text \<open>\<open>lseek\<close> returns the position, which the code stores in an \<open>int\<close>.\<close>

definition test_device :: "device_env \<Rightarrow> int \<Rightarrow> unit result" where
  "test_device e inject_error_percent =
     (let direct = (open_direct e = None) in
      if \<not> direct \<and> open_direct e \<noteq> Some EINVAL then Exit (- 1)
      else if \<not> direct \<and> \<not> open_plain_ok e then Exit (- 1)
      else if \<not> size_ok e then Exit (- 1)
      else case seek_spot e of
        None \<Rightarrow> Fault
      | Some spot \<Rightarrow>
          let res = (if seek_ok e then sint (ucast spot :: 32 word) else - 1) in
          if res < 0 then Exit (- 1)
          else if \<not> sector_read_ok e direct then Exit (- 1)
          else if inject_error_percent \<noteq> 0 \<and> rand_inject e mod 100 < inject_error_percent then Exit (- 1)
          else if \<not> close_ok e then Exit (- 1)
          else Exit 0)"

section \<open>The children\<close>

definition is_child_runnning :: "storage_mon \<Rightarrow> bool" where
  "is_child_runnning st \<longleftrightarrow> list_ex (\<lambda>i. test_forks st ! i \<noteq> 0) [0..<device_count st]"

text \<open>\<open>find_child_pid\<close> returns a \<open>size_t\<close>: not found is the largest value of the type.\<close>

definition SIZE_MAX :: nat where "SIZE_MAX = 18446744073709551615"

fun find_from :: "int \<Rightarrow> int list \<Rightarrow> nat \<Rightarrow> nat \<Rightarrow> nat" where
  "find_from pid forks i 0 = SIZE_MAX"
| "find_from pid forks i (Suc k) =
     (if forks ! i > 0 \<and> forks ! i = pid then i else find_from pid forks (i + 1) k)"

definition find_child_pid :: "int \<Rightarrow> storage_mon \<Rightarrow> nat" where
  "find_child_pid pid st = find_from pid (test_forks st) 0 (device_count st)"

definition SIGTERM :: int where "SIGTERM = 15"

definition stop_child :: "int \<Rightarrow> int \<Rightarrow> storage_mon \<Rightarrow> storage_mon" where
  "stop_child pid sig st = st\<lparr>killed := killed st @ [(pid, sig)]\<rparr>"

definition sigterm_handler :: "storage_mon \<Rightarrow> storage_mon" where
  "sigterm_handler st =
     (let st1 = st\<lparr>shutting_down := True, requests := requests st @ [Timer_Del]\<rparr>;
          st2 = (if is_child_runnning st1
                 then fold (\<lambda>i s. if test_forks s ! i > 0 then stop_child (test_forks s ! i) SIGTERM s else s)
                        [0..<device_count st1] st1
                 else st1)
      in st2\<lparr>requests := requests st2 @ [Timer_Add 0 (Test_Timer False)]\<rparr>)"

text \<open>A result of \<open>waitpid\<close>: the child ended with a code, or it ended otherwise (by a signal).\<close>

datatype wait_result = Exited int int | Not_Exited int

text \<open>
  The accounting for a reaped child; the guard \<open>index >= 0\<close> of the code holds for every
  \<open>size_t\<close>, so an index outside the arrays is an access out of bounds.
\<close>

definition add_score :: "nat \<Rightarrow> storage_mon \<Rightarrow> storage_mon" where
  "add_score i st =
     (let f = final_score st + scores st ! i
      in st\<lparr>final_score := f, response_final_score := f, daemon_check_first_all_devices := True\<rparr>)"

definition child_finished :: "nat \<Rightarrow> storage_mon \<Rightarrow> storage_mon" where
  "child_finished i st =
     (let st1 = st\<lparr>finished_count := finished_count st + 1, test_forks := (test_forks st)[i := 0]\<rparr>
      in if device_count st1 = finished_count st1
         then st1\<lparr>response_final_score := final_score st1, daemon_check_first_all_devices := True\<rparr>
         else st1)"

definition reap_child :: "bool \<Rightarrow> wait_result \<Rightarrow> storage_mon \<Rightarrow> unit result \<times> storage_mon" where
  "reap_child expire_running w st =
     (case w of
        Not_Exited pid \<Rightarrow> (Ret (), st)
      | Exited pid code \<Rightarrow>
          let index = find_child_pid pid st in
          if index \<ge> MAX_DEVICES then (Fault, st)
          else (Ret (), child_finished index
                 (if expire_running \<and> code \<noteq> 0 then add_score index st else st)))"

fun reap_loop :: "bool \<Rightarrow> wait_result list \<Rightarrow> storage_mon \<Rightarrow> unit result \<times> storage_mon" where
  "reap_loop running [] st = (Ret (), st)"
| "reap_loop running (w # ws) st = and_then (reap_child running w) (\<lambda>_. reap_loop running ws) st"

definition sigchld_handler :: "bool \<Rightarrow> wait_result list \<Rightarrow> storage_mon \<Rightarrow> unit result \<times> storage_mon" where
  "sigchld_handler running ws st = (if is_child_runnning st then reap_loop running ws st else (Ret (), st))"

definition child_timeout_handler :: "storage_mon \<Rightarrow> storage_mon" where
  "child_timeout_handler st =
     (if is_child_runnning st
      then fold (\<lambda>i s. if test_forks s ! i > 0 then add_score i s else s) [0..<device_count st] st
      else st)"

section \<open>A round of tests\<close>

text \<open>The results of \<open>fork\<close> for the devices in order; the loop ends at the first failure.\<close>

fun fork_loop :: "nat \<Rightarrow> int list \<Rightarrow> storage_mon \<Rightarrow> storage_mon" where
  "fork_loop i [] st = st"
| "fork_loop i (pid # pids) st =
     (if i < device_count st
      then let st1 = st\<lparr>test_forks := (test_forks st)[i := pid]\<rparr>
           in if pid < 0 then st1 else fork_loop (i + 1) pids st1
      else st)"

definition start_round :: "int list \<Rightarrow> storage_mon \<Rightarrow> storage_mon" where
  "start_round pids st =
     fork_loop 0 pids (st\<lparr>final_score := 0, finished_count := 0, test_forks := replicate MAX_DEVICES 0\<rparr>)"

text \<open>\<open>test_device_main\<close> of the daemon; the first argument is whether \<open>data\<close> is non-null.\<close>

definition test_device_main_daemon :: "bool \<Rightarrow> int list \<Rightarrow> storage_mon \<Rightarrow> bool \<times> storage_mon" where
  "test_device_main_daemon has_data pids st =
     (if shutting_down st then (False, st\<lparr>requests := requests st @ [Loop_Stop]\<rparr>)
      else
        let st1 = (if is_child_runnning st then st
                   else (let s = start_round pids st
                         in s\<lparr>requests := requests s @ [Timer_Add (timeout s) Expire_Timer]\<rparr>));
            st2 = (if has_data
                   then st1\<lparr>requests := requests st1 @ [Timer_Add (timer_interval st1) (Test_Timer True)]\<rparr>
                   else st1)
        in (True, st2))"

text \<open>\<open>waitpid\<close> of one child in the foreground loop.\<close>

datatype poll_answer = Wait_Error | Wait_None | Wait_Exited int | Wait_Other

fun poll_children :: "nat \<Rightarrow> poll_answer list \<Rightarrow> storage_mon \<Rightarrow> bool \<times> storage_mon" where
  "poll_children i [] st = (True, st)"
| "poll_children i (a # as) st =
     (if i < device_count st then
        (if test_forks st ! i > 0 then
           (case a of
              Wait_Error \<Rightarrow> (False, st)
            | Wait_Exited code \<Rightarrow>
                poll_children (i + 1) as
                  (st\<lparr>final_score := final_score st + (if code \<noteq> 0 then scores st ! i else 0),
                      finished_count := finished_count st + 1, test_forks := (test_forks st)[i := 0]\<rparr>)
            | _ \<Rightarrow> poll_children (i + 1) as st)
         else poll_children (i + 1) as st)
      else (True, st))"

text \<open>
  The waiting loop: each entry holds the answers of one pass over the devices and the time read
  after it.  \<open>None\<close>: the entries did not suffice to leave the loop.
\<close>

fun wait_loop :: "int \<Rightarrow> int \<Rightarrow> (poll_answer list \<times> int) list \<Rightarrow> storage_mon \<Rightarrow> (bool \<times> storage_mon) option" where
  "wait_loop start now polls st =
     (if finished_count st < device_count st \<and> start + timeout st > now then
        (case polls of
           [] \<Rightarrow> None
         | (as, now') # ps \<Rightarrow>
             (case poll_children 0 as st of (ok, st1) \<Rightarrow>
                if ok then wait_loop start now' ps st1 else Some (False, st1)))
      else Some (True, st))"

declare wait_loop.simps [simp del]

definition unfinished_score :: "storage_mon \<Rightarrow> storage_mon" where
  "unfinished_score st =
     fold (\<lambda>i s. if test_forks s ! i \<noteq> 0 then s\<lparr>final_score := final_score s + scores s ! i\<rparr> else s)
       [0..<device_count st] st"

definition test_device_main_foreground ::
  "int list \<Rightarrow> int \<Rightarrow> (poll_answer list \<times> int) list \<Rightarrow> storage_mon \<Rightarrow> (int \<times> storage_mon) option" where
  "test_device_main_foreground pids start polls st =
     (case wait_loop start start polls (start_round pids st) of
        None \<Rightarrow> None
      | Some (ok, st1) \<Rightarrow>
          if ok then (let st2 = unfinished_score st1 in Some (final_score st2, st2)) else Some (- 1, st1))"

section \<open>Reaping children\<close>

lemma find_from_found:
  assumes "i \<le> j" and "j < i + k" and "forks ! j = pid" and "pid > 0"
    and "\<forall>m. i \<le> m \<and> m < j \<longrightarrow> forks ! m \<noteq> pid"
  shows "find_from pid forks i k = j"
  using assms
proof (induction pid forks i k rule: find_from.induct)
  case (2 pid forks i k)
  show ?case
  proof (cases "forks ! i = pid")
    case True
    then have "i = j" using 2 by (metis le_neq_implies_less order_refl)
    with True 2 show ?thesis by simp
  next
    case False
    then have "i \<noteq> j" using 2 by auto
    with 2 False show ?thesis by simp
  qed
qed simp

text \<open>
  A state of a round: the children \<open>pids\<close> were started for the devices, and the array holds for
  each device its child or 0.
\<close>

definition in_round :: "int list \<Rightarrow> storage_mon \<Rightarrow> bool" where
  "in_round pids st \<longleftrightarrow>
     length pids = device_count st \<and> device_count st \<le> MAX_DEVICES \<and> length (test_forks st) = MAX_DEVICES \<and>
     distinct pids \<and> (\<forall>p\<in>set pids. p > 0) \<and>
     (\<forall>i < device_count st. test_forks st ! i = pids ! i \<or> test_forks st ! i = 0)"

lemma find_child_round:
  assumes "in_round pids st" and "i < device_count st" and "test_forks st ! i = pids ! i"
  shows "find_child_pid (pids ! i) st = i"
proof -
  have p: "pids ! m \<noteq> pids ! i" "pids ! i > 0" if "m < i" for m
    using assms(1,2) that nth_eq_iff_index_eq[of pids m i] by (auto simp: in_round_def)
  moreover have "pids ! i > 0" using assms(1,2) by (auto simp: in_round_def)
  moreover have "\<forall>m. 0 \<le> m \<and> m < i \<longrightarrow> test_forks st ! m \<noteq> pids ! i"
  proof (intro allI impI)
    fix m assume m: "0 \<le> m \<and> m < i"
    then have "test_forks st ! m = pids ! m \<or> test_forks st ! m = 0"
      using assms(1,2) by (auto simp: in_round_def)
    then show "test_forks st ! m \<noteq> pids ! i" using p[of m] m calculation by auto
  qed
  ultimately show ?thesis
    unfolding find_child_pid_def using assms(2,3) by (intro find_from_found) auto
qed

lemmas handler_defs = add_score_def child_finished_def Let_def

text \<open>Reaping the children of the devices \<open>fst ` set ics\<close>, with their exit codes.\<close>

definition exits :: "int list \<Rightarrow> (nat \<times> int) list \<Rightarrow> wait_result list" where
  "exits pids ics = map (\<lambda>(i, c). Exited (pids ! i) c) ics"

definition failing :: "int list \<Rightarrow> (nat \<times> int) list \<Rightarrow> int" where
  "failing sc ics = (\<Sum>(i, c)\<leftarrow>ics. if c \<noteq> 0 then sc ! i else 0)"

lemma reap_one:
  assumes "in_round pids st" and "i < device_count st" and "test_forks st ! i = pids ! i"
  shows "\<exists>st'. reap_child running (Exited (pids ! i) c) st = (Ret (), st') \<and> in_round pids st' \<and>
    devices st' = devices st \<and> scores st' = scores st \<and>
    test_forks st' = (test_forks st)[i := 0] \<and> finished_count st' = finished_count st + 1 \<and>
    final_score st' = final_score st + (if running \<and> c \<noteq> 0 then scores st ! i else 0) \<and>
    (finished_count st' = device_count st \<longrightarrow>
       response_final_score st' = final_score st' \<and> daemon_check_first_all_devices st')"
proof -
  have f: "find_child_pid (pids ! i) st = i" by (rule find_child_round[OF assms])
  have "i < MAX_DEVICES" using assms(1,2) by (simp add: in_round_def)
  with f have r: "reap_child running (Exited (pids ! i) c) st =
      (Ret (), child_finished i (if running \<and> c \<noteq> 0 then add_score i st else st))"
    by (simp add: reap_child_def)
  have "in_round pids (child_finished i (if running \<and> c \<noteq> 0 then add_score i st else st))"
    using assms by (auto simp: in_round_def handler_defs nth_list_update)
  with r show ?thesis by (auto simp: handler_defs)
qed

definition reaped :: "bool \<Rightarrow> (nat \<times> int) list \<Rightarrow> storage_mon \<Rightarrow> storage_mon \<Rightarrow> bool" where
  "reaped running ics st st' \<longleftrightarrow>
     devices st' = devices st \<and> scores st' = scores st \<and>
     (\<forall>i < device_count st. test_forks st' ! i = (if i \<in> fst ` set ics then 0 else test_forks st ! i)) \<and>
     finished_count st' = finished_count st + length ics \<and>
     final_score st' = final_score st + (if running then failing (scores st) ics else 0) \<and>
     (ics \<noteq> [] \<and> finished_count st' = device_count st \<longrightarrow>
        response_final_score st' = final_score st' \<and> daemon_check_first_all_devices st')"

lemma reap_all:
  assumes "in_round pids st" and "distinct (map fst ics)"
    and "\<forall>(i, c)\<in>set ics. i < device_count st \<and> test_forks st ! i = pids ! i"
  shows "\<exists>st'. reap_loop running (exits pids ics) st = (Ret (), st') \<and> in_round pids st' \<and>
    reaped running ics st st'"
  using assms
proof (induction ics arbitrary: st)
  case Nil
  then show ?case by (simp add: exits_def failing_def reaped_def)
next
  case (Cons ic ics)
  obtain i c where ic: "ic = (i, c)" by (cases ic)
  obtain s1 where s1: "reap_child running (Exited (pids ! i) c) st = (Ret (), s1)" "in_round pids s1"
    "devices s1 = devices st" "scores s1 = scores st"
    "test_forks s1 = (test_forks st)[i := 0]" "finished_count s1 = finished_count st + 1"
    "final_score s1 = final_score st + (if running \<and> c \<noteq> 0 then scores st ! i else 0)"
    "finished_count s1 = device_count st \<longrightarrow> response_final_score s1 = final_score s1 \<and> daemon_check_first_all_devices s1"
    using reap_one[of pids st i running c] Cons.prems ic by auto
  have i: "i < length (test_forks st)" using Cons.prems ic by (auto simp: in_round_def)
  have "\<forall>(j, c)\<in>set ics. j < device_count s1 \<and> test_forks s1 ! j = pids ! j"
  proof (clarify)
    fix j d assume j: "(j, d) \<in> set ics"
    then have "j \<noteq> i" using Cons.prems(2) ic by force
    with j show "j < device_count s1 \<and> test_forks s1 ! j = pids ! j"
      using Cons.prems(3) s1(3,5) by (auto simp: nth_list_update)
  qed
  then obtain st' where s2: "reap_loop running (exits pids ics) s1 = (Ret (), st')" "in_round pids st'"
    "reaped running ics s1 st'"
    using Cons.IH[OF s1(2)] Cons.prems(2) ic by auto
  have "reap_loop running (exits pids (ic # ics)) st = (Ret (), st')"
    using s1(1) s2(1) ic by (simp add: exits_def)
  moreover have "response_final_score st' = final_score st' \<and> daemon_check_first_all_devices st'"
    if "finished_count st' = device_count st"
    using that s1 s2 by (cases ics) (auto simp: exits_def reaped_def)
  then have "reaped running (ic # ics) st st'"
    using s2(3) s1 ic i unfolding reaped_def by (simp add: failing_def nth_list_update)
  ultimately show ?case using s2(2) by blast
qed

text \<open>Starting a round: every child the kernel grants.\<close>

lemma fork_loop_frame:
  "devices (fork_loop i pids st) = devices st \<and> scores (fork_loop i pids st) = scores st \<and>
   final_score (fork_loop i pids st) = final_score st \<and> finished_count (fork_loop i pids st) = finished_count st \<and>
   length (test_forks (fork_loop i pids st)) = length (test_forks st) \<and>
   timeout (fork_loop i pids st) = timeout st \<and> shutting_down (fork_loop i pids st) = shutting_down st"
  by (induction i pids st rule: fork_loop.induct) (simp_all add: Let_def)

lemma fork_loop_all:
  assumes "\<forall>p\<in>set pids. p > 0" and "i + length pids \<le> device_count st" and "device_count st \<le> length (test_forks st)"
  shows "test_forks (fork_loop i pids st) ! j =
    (if i \<le> j \<and> j < i + length pids then pids ! (j - i) else test_forks st ! j)"
  using assms
proof (induction i pids st arbitrary: j rule: fork_loop.induct)
  case (2 i pid pids st)
  let ?st = "st\<lparr>test_forks := (test_forks st)[i := pid]\<rparr>"
  have "test_forks (fork_loop (i + 1) pids ?st) ! j =
      (if i + 1 \<le> j \<and> j < i + 1 + length pids then pids ! (j - (i + 1)) else test_forks ?st ! j)"
    using 2 by (simp add: Let_def)
  then show ?case
    using 2 by (auto simp: Let_def nth_list_update nth_Cons' not_less_eq_eq le_Suc_eq)
qed simp

lemma start_round_in_round:
  assumes "length pids = device_count st" and "device_count st \<le> MAX_DEVICES" and "distinct pids"
    and "\<forall>p\<in>set pids. p > 0"
  shows "in_round pids (start_round pids st)" "final_score (start_round pids st) = 0"
    "finished_count (start_round pids st) = 0" "scores (start_round pids st) = scores st"
    "devices (start_round pids st) = devices st"
    "\<forall>i < device_count st. test_forks (start_round pids st) ! i = pids ! i"
proof -
  let ?s = "st\<lparr>final_score := 0, finished_count := 0, test_forks := replicate MAX_DEVICES 0\<rparr>"
  note f = fork_loop_frame[of 0 pids ?s]
  show t: "\<forall>i < device_count st. test_forks (start_round pids st) ! i = pids ! i"
    using fork_loop_all[of pids 0 ?s] assms by (simp add: start_round_def)
  show "final_score (start_round pids st) = 0" "finished_count (start_round pids st) = 0"
    "scores (start_round pids st) = scores st" and d: "devices (start_round pids st) = devices st"
    using f by (simp_all add: start_round_def)
  show "in_round pids (start_round pids st)"
    using t d f assms by (simp add: in_round_def start_round_def)
qed

text \<open>The timeout handler adds the scores of the children still running.\<close>

lemma sum_list_none: "\<forall>i\<in>set xs. \<not> P i \<Longrightarrow> (\<Sum>i\<leftarrow>xs. if P i then f i else (0::int)) = 0"
  by (induction xs) auto

definition running_sum :: "int list \<Rightarrow> int list \<Rightarrow> nat list \<Rightarrow> int" where
  "running_sum sc forks is = (\<Sum>i\<leftarrow>is. if forks ! i > 0 then sc ! i else 0)"

lemma running_sum_rec:
  "running_sum sc forks [] = 0"
  "running_sum sc forks (i # is) = (if forks ! i > 0 then sc ! i else 0) + running_sum sc forks is"
  "\<forall>i\<in>set is. \<not> forks ! i > 0 \<Longrightarrow> running_sum sc forks is = 0"
  by (simp_all add: running_sum_def sum_list_none)

lemma add_scores_fold:
  "fold (\<lambda>i s. if test_forks s ! i > 0 then add_score i s else s) is st =
   (if \<exists>i\<in>set is. test_forks st ! i > 0
    then st\<lparr>final_score := final_score st + running_sum (scores st) (test_forks st) is,
            response_final_score := final_score st + running_sum (scores st) (test_forks st) is,
            daemon_check_first_all_devices := True\<rparr>
    else st)"
  by (induction "is" arbitrary: st) (auto simp: add_score_def Let_def add.assoc running_sum_rec)

lemma timeout_round:
  assumes "in_round pids st"
  shows "final_score (child_timeout_handler st) = final_score st +
      (\<Sum>i<device_count st. if test_forks st ! i \<noteq> 0 then scores st ! i else 0)"
    and "in_round pids (child_timeout_handler st)"
    and "test_forks (child_timeout_handler st) = test_forks st" "devices (child_timeout_handler st) = devices st"
      "scores (child_timeout_handler st) = scores st" "finished_count (child_timeout_handler st) = finished_count st"
proof -
  have "(\<Sum>i<device_count st. if test_forks st ! i \<noteq> 0 then scores st ! i else 0) =
      (\<Sum>i<device_count st. if test_forks st ! i > 0 then scores st ! i else 0)"
    using assms by (intro sum.cong) (auto simp: in_round_def)
  also have "\<dots> = running_sum (scores st) (test_forks st) [0..<device_count st]"
    by (simp add: running_sum_def interv_sum_list_conv_sum_set_nat atLeast0LessThan)
  finally show "final_score (child_timeout_handler st) = final_score st +
      (\<Sum>i<device_count st. if test_forks st ! i \<noteq> 0 then scores st ! i else 0)"
    by (auto simp: child_timeout_handler_def add_scores_fold is_child_runnning_def list_ex_iff
        running_sum_def sum_list_none)
  show "in_round pids (child_timeout_handler st)" "test_forks (child_timeout_handler st) = test_forks st"
    "devices (child_timeout_handler st) = devices st" "scores (child_timeout_handler st) = scores st"
    "finished_count (child_timeout_handler st) = finished_count st"
    using assms by (auto simp: child_timeout_handler_def add_scores_fold in_round_def)
qed

text \<open>As long as a child of the round is unreaped, the SIGCHLD handler reaps.\<close>

lemma sigchld_reaps:
  assumes "in_round pids st" and "\<forall>(i, c)\<in>set ics. i < device_count st \<and> test_forks st ! i = pids ! i"
  shows "sigchld_handler running (exits pids ics) st = reap_loop running (exits pids ics) st"
proof (cases ics)
  case Nil
  then show ?thesis by (simp add: sigchld_handler_def exits_def)
next
  case (Cons ic r)
  then obtain i c where "i < device_count st" "test_forks st ! i = pids ! i"
    using assms(2) by (cases ic) auto
  moreover have "pids ! i \<noteq> 0" using calculation(1) assms(1) nth_mem[of i pids] by (force simp: in_round_def)
  ultimately have "is_child_runnning st"
    by (auto simp: is_child_runnning_def list_ex_iff intro!: bexI[of _ i])
  then show ?thesis by (simp add: sigchld_handler_def)
qed

text \<open>
  One round of the daemon: children end before the timeout (\<open>ics\<close>), the timeout handler runs, the
  remaining children end later (\<open>late\<close>).
\<close>

definition daemon_round ::
  "int list \<Rightarrow> (nat \<times> int) list \<Rightarrow> (nat \<times> int) list \<Rightarrow> storage_mon \<Rightarrow> unit result \<times> storage_mon" where
  "daemon_round pids ics late st =
     and_then (and_then (sigchld_handler True (exits pids ics)) (\<lambda>_ s. (Ret (), child_timeout_handler s)))
       (\<lambda>_. sigchld_handler False (exits pids late)) (start_round pids st)"

lemma failing_sum:
  assumes "distinct (map fst ics)" and "\<forall>(i, c)\<in>set ics. i < n"
  shows "failing sc ics = (\<Sum>i<n. if i \<in> fst ` set ics \<and> map_of ics i \<noteq> Some 0 then sc ! i else 0)"
  using assms
proof (induction ics)
  case Nil
  then show ?case by (simp add: failing_def)
next
  case (Cons ic ics)
  obtain j c where ic: "ic = (j, c)" by (cases ic)
  have j: "j < n" "j \<notin> fst ` set ics" using Cons.prems ic by auto
  let ?f = "\<lambda>i. if i \<in> fst ` set ics \<and> map_of ics i \<noteq> Some 0 then sc ! i else 0"
  have "(\<Sum>i<n. if i \<in> fst ` set (ic # ics) \<and> map_of (ic # ics) i \<noteq> Some 0 then sc ! i else 0)
      = (\<Sum>i<n. ?f i + (if i = j then (if c \<noteq> 0 then sc ! j else 0) else 0))"
    using ic j by (intro sum.cong) auto
  also have "\<dots> = (\<Sum>i<n. ?f i) + (if c \<noteq> 0 then sc ! j else 0)"
    using j by (simp add: sum.distrib)
  finally show ?case using Cons ic by (simp add: failing_def)
qed

lemma round_sum:
  assumes "distinct (map fst ics)" and "\<forall>ic\<in>set ics. fst ic < n"
  shows "failing sc ics + (\<Sum>i<n. if i \<notin> fst ` set ics then sc ! i else 0)
    = (\<Sum>i<n. if map_of ics i = Some 0 then 0 else sc ! i)"
proof -
  let ?g = "\<lambda>i. if i \<in> fst ` set ics \<and> map_of ics i \<noteq> Some 0 then sc ! i else 0"
  have "failing sc ics = (\<Sum>i<n. ?g i)" using assms by (intro failing_sum) auto
  moreover have "?g i + (if i \<notin> fst ` set ics then sc ! i else 0) = (if map_of ics i = Some 0 then 0 else sc ! i)" for i
    using map_of_eq_None_iff[of ics i] by (cases "map_of ics i") auto
  ultimately show ?thesis by (simp add: sum.distrib[symmetric])
qed

lemma daemon_round_score:
  assumes "length pids = device_count st" and "device_count st \<le> MAX_DEVICES" and "distinct pids"
    and "\<forall>p\<in>set pids. p > 0"
    and "distinct (map fst (ics @ late))" and "\<forall>i\<in>fst ` set (ics @ late). i < device_count st"
  shows "\<exists>st'. daemon_round pids ics late st = (Ret (), st') \<and>
    final_score st' = (\<Sum>i<device_count st. if map_of ics i = Some 0 then 0 else scores st ! i) \<and>
    (length (ics @ late) = device_count st \<and> late \<noteq> [] \<longrightarrow>
       response_final_score st' = final_score st' \<and> daemon_check_first_all_devices st' \<and>
       \<not> is_child_runnning st')"
proof -
  let ?s0 = "start_round pids st" and ?n = "device_count st"
  note f0 = start_round_in_round[OF assms(1-4)]
  have k0: "\<forall>(i, c)\<in>set ics. i < device_count ?s0 \<and> test_forks ?s0 ! i = pids ! i"
    using assms(6) f0(5,6) by force
  have "distinct (map fst ics)" using assms(5) by simp
  then obtain s1 where s1: "reap_loop True (exits pids ics) ?s0 = (Ret (), s1)" "in_round pids s1"
    "reaped True ics ?s0 s1"
    using reap_all[OF f0(1) _ k0] by blast
  then have c1: "devices s1 = devices st" "scores s1 = scores st" "finished_count s1 = length ics"
    "final_score s1 = failing (scores st) ics"
    and t1: "\<forall>i<?n. test_forks s1 ! i = (if i \<in> fst ` set ics then 0 else pids ! i)"
    using f0(2-6) by (simp_all add: reaped_def)
  note f2 = timeout_round[OF s1(2)]
  let ?s2 = "child_timeout_handler s1"
  have k2: "\<forall>(i, c)\<in>set late. i < device_count ?s2 \<and> test_forks ?s2 ! i = pids ! i"
  proof (clarify)
    fix i c assume "(i, c) \<in> set late"
    then have "i \<in> fst ` set late" by force
    then have "i < ?n" "i \<notin> fst ` set ics" using assms(5,6) by auto
    then show "i < device_count ?s2 \<and> test_forks ?s2 ! i = pids ! i" using f2(3,4) c1(1) t1 by simp
  qed
  have "distinct (map fst late)" using assms(5) by simp
  then obtain s3 where s3: "reap_loop False (exits pids late) ?s2 = (Ret (), s3)" "reaped False late ?s2 s3"
    using reap_all[OF f2(2) _ k2] by blast
  then have t3: "final_score s3 = final_score ?s2" "devices s3 = devices st"
    "\<forall>i<?n. test_forks s3 ! i = (if i \<in> fst ` set late then 0 else test_forks s1 ! i)"
    "late \<noteq> [] \<and> finished_count s3 = ?n \<longrightarrow> response_final_score s3 = final_score s3 \<and> daemon_check_first_all_devices s3"
    "finished_count s3 = length ics + length late"
    using f2(3-6) c1(1,3) by (simp_all add: reaped_def)
  have "daemon_round pids ics late st = (Ret (), s3)"
    using s1(1) s3(1) sigchld_reaps[OF f0(1) k0] sigchld_reaps[OF f2(2) k2] by (simp add: daemon_round_def)
  moreover have "test_forks s1 ! i \<noteq> 0 \<longleftrightarrow> i \<notin> fst ` set ics" if "i < ?n" for i
  proof -
    have "pids ! i \<in> set pids" using that assms(1) by simp
    with assms(4) have "pids ! i > 0" by blast
    with t1 that show ?thesis by simp
  qed
  then have "(\<Sum>i<?n. if test_forks s1 ! i \<noteq> 0 then scores st ! i else 0)
      = (\<Sum>i<?n. if i \<notin> fst ` set ics then scores st ! i else 0)"
    by (intro sum.cong) simp_all
  moreover have "final_score s3 = failing (scores st) ics + (\<Sum>i<?n. if test_forks s1 ! i \<noteq> 0 then scores st ! i else 0)"
    using t3(1) f2(1) c1 by (simp cong: if_cong)
  moreover have "distinct (map fst ics)" "\<forall>ic\<in>set ics. fst ic < ?n" using assms(5,6) by auto
  note round_sum[OF this, of "scores st"]
  ultimately have "daemon_round pids ics late st = (Ret (), s3)"
    "final_score s3 = (\<Sum>i<?n. if map_of ics i = Some 0 then 0 else scores st ! i)"
    by linarith+
  moreover have "\<not> is_child_runnning s3" if "length (ics @ late) = ?n"
  proof -
    have "card (fst ` set (ics @ late)) = ?n"
      using distinct_card[OF assms(5)] that by (simp add: image_Un)
    then have "fst ` set (ics @ late) = {..<?n}"
      using assms(6) by (intro card_subset_eq) auto
    then have "test_forks s3 ! i = 0" if "i < ?n" for i
      using t1 t3(3) that by auto
    then show ?thesis using t3(2) by (auto simp: is_child_runnning_def list_ex_iff)
  qed
  ultimately show ?thesis using t3(4,5) by auto
qed

section \<open>Properties of the daemon\<close>

text \<open>
  The score of a monitoring round: when all children could be started, for every order in which
  they end and every split into those that end before and after the timeout, the round's final score
  is the sum of the scores of exactly the devices whose test did not exit with 0 before the timeout;
  a device is counted once, also when its child fails after having timed out.  When all children
  have ended, that score is what clients are told and the next round can start.
\<close>

theorem round_score:
  assumes "length pids = device_count st" and "device_count st \<le> MAX_DEVICES" and "distinct pids"
    and "\<forall>p\<in>set pids. p > 0"
    and "distinct (map fst (ics @ late))" and "\<forall>i\<in>fst ` set (ics @ late). i < device_count st"
  shows "\<exists>st'. daemon_round pids ics late st = (Ret (), st') \<and>
    final_score st' = (\<Sum>i<device_count st. if map_of ics i = Some 0 then 0 else scores st ! i) \<and>
    (length (ics @ late) = device_count st \<and> late \<noteq> [] \<longrightarrow>
       response_final_score st' = final_score st' \<and> daemon_check_first_all_devices st' \<and>
       \<not> is_child_runnning st')"
  using daemon_round_score[OF assms] .

definition demo_mon :: storage_mon where
  "demo_mon = \<lparr>devices = [''/dev/sda'', ''/dev/sdb'', ''/dev/sdc''], scores = [1, 5, 10], timeout = 10,
     timer_interval = 30, daemonize = True, shutting_down = False, final_score = 0, response_final_score = 0,
     test_forks = replicate 25 0, finished_count = 0, daemon_check_first_all_devices = False,
     requests = [], killed = []\<rparr>"

theorem round_score_witness:
  "\<exists>st'. daemon_round [100, 101, 102] [(2, 0), (0, 255)] [(1, 0)] demo_mon = (Ret (), st') \<and>
     final_score st' = 6 \<and> response_final_score st' = 6"
proof -
  have d: "device_count demo_mon = 3" "scores demo_mon = [1, 5, 10]" by (simp_all add: demo_mon_def)
  then have "\<exists>st'. daemon_round [100, 101, 102] [(2, 0), (0, 255)] [(1, 0)] demo_mon = (Ret (), st') \<and>
    final_score st' = (\<Sum>i<3. if map_of [(2, 0), (0, 255::int)] i = Some 0 then 0 else [1, 5, 10] ! i) \<and>
    response_final_score st' = final_score st'"
    using round_score[of "[100, 101, 102]" demo_mon "[(2, 0), (0, 255)]" "[(1, 0)]"]
    by (auto simp: MAX_DEVICES_def cong: if_cong)
  then show ?thesis by (simp add: eval_nat_numeral lessThan_Suc) metis
qed

text \<open>
  The documented range: with scores from 1 to 10 for at most 25 devices the score of a round is
  between 0 and 250, and it is 0 exactly when every device was read successfully in time.
\<close>

theorem round_score_range:
  assumes "length pids = device_count st" and "device_count st \<le> MAX_DEVICES" and "distinct pids"
    and "\<forall>p\<in>set pids. p > 0"
    and "distinct (map fst (ics @ late))" and "\<forall>i\<in>fst ` set (ics @ late). i < device_count st"
    and "\<forall>i < device_count st. 1 \<le> scores st ! i \<and> scores st ! i \<le> 10"
  shows "0 \<le> final_score (snd (daemon_round pids ics late st)) \<and>
    final_score (snd (daemon_round pids ics late st)) \<le> 250 \<and>
    (final_score (snd (daemon_round pids ics late st)) = 0 \<longleftrightarrow> (\<forall>i < device_count st. map_of ics i = Some 0))"
proof -
  let ?n = "device_count st" and ?f = "\<lambda>i. if map_of ics i = Some 0 then 0 else scores st ! i"
  have f: "final_score (snd (daemon_round pids ics late st)) = (\<Sum>i<?n. ?f i)"
    using daemon_round_score[OF assms(1-6)] by auto
  have p: "0 \<le> ?f i" "?f i \<le> 10" if "i < ?n" for i using assms(7) that by auto
  have "(\<Sum>i<?n. ?f i) \<le> (\<Sum>i<?n. 10)" using p by (intro sum_mono) auto
  also have "\<dots> \<le> 250" using assms(2) by (simp add: MAX_DEVICES_def)
  finally have "(\<Sum>i<?n. ?f i) \<le> 250" .
  moreover have "0 \<le> (\<Sum>i<?n. ?f i)" using p by (intro sum_nonneg) auto
  moreover have "(\<Sum>i<?n. ?f i) = 0 \<longleftrightarrow> (\<forall>i\<in>{..<?n}. ?f i = 0)"
    using p by (intro sum_nonneg_eq_0_iff) auto
  moreover have "(\<forall>i\<in>{..<?n}. ?f i = 0) \<longleftrightarrow> (\<forall>i < ?n. map_of ics i = Some 0)"
    using assms(7) by force
  ultimately show ?thesis by (simp add: f)
qed

theorem round_score_range_witness:
  "final_score (snd (daemon_round [100, 101, 102] [(2, 0), (0, 0), (1, 0)] [] demo_mon)) = 0"
proof -
  have d: "device_count demo_mon = 3" "scores demo_mon = [1, 5, 10]" by (simp_all add: demo_mon_def)
  have "\<forall>i<3::nat. 1 \<le> [1, 5, 10::int] ! i \<and> [1, 5, 10::int] ! i \<le> 10"
    "\<forall>i<3::nat. map_of [(2, 0), (0, 0), (1, 0::int)] i = Some 0"
    by (simp_all add: eval_nat_numeral All_less_Suc)
  then show ?thesis
    using round_score_range[of "[100, 101, 102]" demo_mon "[(2, 0), (0, 0), (1, 0)]" "[]"] d
    by (simp add: MAX_DEVICES_def)
qed

section \<open>When a child cannot be started\<close>

text \<open>
  The daemon as a transition system: any handler may run next, with any results of \<open>waitpid\<close> and
  \<open>fork\<close> and any state of the timers.
\<close>

inductive daemon_step :: "storage_mon \<Rightarrow> storage_mon \<Rightarrow> bool" where
  step_chld: "sigchld_handler running ws st = (Ret (), st') \<Longrightarrow> daemon_step st st'"
| step_timeout: "daemon_step st (child_timeout_handler st)"
| step_test: "test_device_main_daemon has_data pids st = (True, st') \<Longrightarrow> daemon_step st st'"
| step_term: "daemon_step st (sigterm_handler st)"

inductive_cases daemon_stepE: "daemon_step st st'"

text \<open>The devices whose \<open>fork\<close> failed.\<close>

definition unstarted :: "storage_mon \<Rightarrow> nat set" where
  "unstarted st = {i. i < device_count st \<and> i < length (test_forks st) \<and> test_forks st ! i < 0}"

lemma unstarted_running: "i \<in> unstarted st \<Longrightarrow> is_child_runnning st"
  by (auto simp: unstarted_def is_child_runnning_def list_ex_iff intro!: bexI[of _ i])

lemma find_from_cases:
  "find_from pid forks i k = SIZE_MAX \<or> (i \<le> find_from pid forks i k \<and> forks ! find_from pid forks i k = pid \<and> pid > 0)"
  by (induction pid forks i k rule: find_from.induct) auto

lemma reap_child_unstarted:
  assumes "reap_child running w st = (Ret (), st')" and "i \<in> unstarted st"
  shows "i \<in> unstarted st'"
proof (cases w)
  case (Exited pid code)
  let ?j = "find_child_pid pid st"
  have "?j < MAX_DEVICES" using assms(1) Exited by (auto simp: reap_child_def Let_def split: if_splits)
  then have "test_forks st ! ?j > 0"
    using find_from_cases[of pid "test_forks st" 0 "device_count st"]
    by (auto simp: find_child_pid_def MAX_DEVICES_def SIZE_MAX_def)
  then have "?j \<noteq> i" using assms(2) by (auto simp: unstarted_def)
  then show ?thesis
    using assms Exited by (auto simp: reap_child_def unstarted_def handler_defs split: if_splits)
next
  case (Not_Exited pid)
  then show ?thesis using assms by (simp add: reap_child_def)
qed

lemma reap_loop_unstarted:
  "reap_loop running ws st = (Ret (), st') \<Longrightarrow> i \<in> unstarted st \<Longrightarrow> i \<in> unstarted st'"
  by (induction running ws st rule: reap_loop.induct) (auto simp: and_then_Ret dest: reap_child_unstarted)

lemma sigterm_frame:
  "test_forks (sigterm_handler st) = test_forks st \<and> devices (sigterm_handler st) = devices st"
proof -
  have "test_forks (fold (\<lambda>i s. if test_forks s ! i > 0 then stop_child (test_forks s ! i) SIGTERM s else s) is s)
      = test_forks s \<and>
      devices (fold (\<lambda>i s. if test_forks s ! i > 0 then stop_child (test_forks s ! i) SIGTERM s else s) is s)
      = devices s" for "is" s
    by (induction "is" arbitrary: s) (auto simp: stop_child_def)
  then show ?thesis by (simp add: sigterm_handler_def Let_def)
qed

lemma timeout_frame:
  "test_forks (child_timeout_handler st) = test_forks st \<and> devices (child_timeout_handler st) = devices st"
  by (simp add: child_timeout_handler_def add_scores_fold)

interpretation unstarted_stays: step_invariant daemon_step "\<lambda>st. i \<in> unstarted st" for i
proof unfold_locales
  fix s s' assume "i \<in> unstarted s" and "daemon_step s s'"
  from this(2,1) show "i \<in> unstarted s'"
  proof (cases rule: daemon_step.cases)
    case (step_test has_data pids)
    then show ?thesis
      using \<open>i \<in> unstarted s\<close> unstarted_running[of i s]
      by (auto simp: test_device_main_daemon_def unstarted_def Let_def split: if_splits)
  qed (use timeout_frame[of s] sigterm_frame[of s] in
      \<open>auto simp: sigchld_handler_def unstarted_def split: if_splits dest: reap_loop_unstarted[where i = i, unfolded unstarted_def]\<close>)
qed

text \<open>
  A failing \<open>fork\<close> ends the monitoring for good: once the entry of a device is negative, it stays
  so whatever happens (children ending, timeouts, timers), and every later \<open>test_device_main\<close> leaves
  the children and the score as they are, so no device is tested again while the daemon keeps
  answering its clients.
\<close>

theorem fork_failure_stops_monitoring:
  assumes "i \<in> unstarted st" and "daemon_step\<^sup>*\<^sup>* st st'"
  shows "i \<in> unstarted st' \<and>
    (\<forall>has_data pids. test_forks (snd (test_device_main_daemon has_data pids st')) = test_forks st' \<and>
       final_score (snd (test_device_main_daemon has_data pids st')) = final_score st' \<and>
       response_final_score (snd (test_device_main_daemon has_data pids st')) = response_final_score st')"
proof -
  have "i \<in> unstarted st'" using unstarted_stays.steps_inv[OF assms(2,1)] .
  moreover from this have "is_child_runnning st'" by (rule unstarted_running)
  ultimately show ?thesis by (simp add: test_device_main_daemon_def Let_def)
qed

lemma demo_unstarted: "1 \<in> unstarted (start_round [100, - 1, 102] demo_mon)"
  by (simp add: unstarted_def start_round_def demo_mon_def MAX_DEVICES_def Let_def eval_nat_numeral)

theorem fork_failure_stops_monitoring_witness:
  "\<exists>st'. daemon_step\<^sup>*\<^sup>* (start_round [100, - 1, 102] demo_mon) st' \<and>
     test_forks (snd (test_device_main_daemon True [200, 201, 202] st')) = test_forks st'"
  using fork_failure_stops_monitoring[OF demo_unstarted rtranclp.rtrancl_refl] by blast

text \<open>
  A timeout timer left over from an earlier round (possible when the timeout exceeds the
  interval, which the options allow) counts devices twice: when it fires while the child of device
  \<open>i\<close> is running and that child then fails while the timer of its own round is still running, the
  final score contains the score of \<open>i\<close> twice.
\<close>

theorem stale_timeout_counts_twice:
  assumes "in_round pids st" and "i < device_count st" and "test_forks st ! i = pids ! i" and "c \<noteq> 0"
  shows "\<exists>st'. sigchld_handler True [Exited (pids ! i) c] (child_timeout_handler st) = (Ret (), st') \<and>
    final_score st' = final_score st
      + (\<Sum>j<device_count st. if test_forks st ! j \<noteq> 0 then scores st ! j else 0) + scores st ! i"
proof -
  note f = timeout_round[OF assms(1)]
  obtain st' where r: "reap_child True (Exited (pids ! i) c) (child_timeout_handler st) = (Ret (), st')"
    "final_score st' = final_score (child_timeout_handler st) + scores st ! i"
    using reap_one[OF f(2), of i True c] f(3-5) assms(2-4) by auto
  have "sigchld_handler True (exits pids [(i, c)]) (child_timeout_handler st)
      = reap_loop True (exits pids [(i, c)]) (child_timeout_handler st)"
    using assms(2,3) f(3,4) by (intro sigchld_reaps[OF f(2)]) simp
  with r f(1) show ?thesis by (simp add: exits_def)
qed

theorem stale_timeout_counts_twice_witness:
  "\<exists>st'. sigchld_handler True [Exited 101 1] (child_timeout_handler (start_round [100, 101, 102] demo_mon))
     = (Ret (), st') \<and> final_score st' = 21"
proof -
  let ?st = "start_round [100, 101, 102] demo_mon"
  have d: "device_count demo_mon = 3" "scores demo_mon = [1, 5, 10]" by (simp_all add: demo_mon_def)
  note f = start_round_in_round[of "[100, 101, 102]" demo_mon]
  have r: "in_round [100, 101, 102] ?st" "final_score ?st = 0" "device_count ?st = 3" "scores ?st = [1, 5, 10]"
    and t: "\<forall>i<3. test_forks ?st ! i = [100, 101, 102] ! i"
    using f d by (simp_all add: MAX_DEVICES_def)
  have "(\<Sum>j<3. if test_forks ?st ! j \<noteq> 0 then scores ?st ! j else 0) = 16"
    using t r(4) by (simp add: eval_nat_numeral lessThan_Suc)
  then show ?thesis
    using stale_timeout_counts_twice[OF r(1), of 1 1] r t by auto
qed

text \<open>
  The guard on the index of a reaped child does not guard: \<open>index >= 0\<close> holds for every
  \<open>size_t\<close>, so a child that is in no entry of \<open>test_forks\<close> makes the handler access the arrays
  at index \<open>(size_t) -1\<close>.
\<close>

theorem unknown_child_out_of_bounds:
  assumes "is_child_runnning st" and "\<forall>i < device_count st. test_forks st ! i \<noteq> pid"
  shows "find_child_pid pid st = SIZE_MAX \<and> fst (sigchld_handler running [Exited pid c] st) = Fault"
proof -
  have "find_from pid forks i k = SIZE_MAX" if "\<forall>j. i \<le> j \<and> j < i + k \<longrightarrow> forks ! j \<noteq> pid" for forks i k
    using that by (induction pid forks i k rule: find_from.induct) auto
  from this[of 0 "device_count st" "test_forks st"] assms(2) have "find_child_pid pid st = SIZE_MAX"
    by (simp add: find_child_pid_def)
  then show ?thesis
    using assms(1) by (simp add: sigchld_handler_def reap_child_def MAX_DEVICES_def SIZE_MAX_def and_then_Fault)
qed

theorem unknown_child_out_of_bounds_witness:
  "fst (sigchld_handler True [Exited 7 0] (demo_mon\<lparr>test_forks := 100 # replicate 24 0\<rparr>)) = Fault"
proof -
  let ?st = "demo_mon\<lparr>test_forks := 100 # replicate 24 0\<rparr>"
  have "is_child_runnning ?st" by (simp add: is_child_runnning_def demo_mon_def eval_nat_numeral)
  moreover have "\<forall>i < device_count ?st. test_forks ?st ! i \<noteq> 7"
    by (simp add: demo_mon_def eval_nat_numeral All_less_Suc)
  ultimately show ?thesis using unknown_child_out_of_bounds[of ?st 7 True 0] by blast
qed

section \<open>The foreground test\<close>

text \<open>
  The accounting of the foreground loop: \<open>P\<close> is the set of devices whose child ended with an error,
  \<open>E\<close> the set of devices \<open>waitpid\<close> reported with exit code 0.
\<close>

definition foreground_inv :: "int list \<Rightarrow> nat set \<Rightarrow> storage_mon \<Rightarrow> bool" where
  "foreground_inv sc E st \<longleftrightarrow>
     scores st = sc \<and> device_count st \<le> MAX_DEVICES \<and> length (test_forks st) = MAX_DEVICES \<and>
     (\<exists>P. P \<subseteq> {..<device_count st} \<and> (\<forall>i\<in>P. test_forks st ! i = 0) \<and> final_score st = (\<Sum>i\<in>P. sc ! i) \<and>
        (\<forall>i < device_count st. test_forks st ! i = 0 \<longrightarrow>
           i \<in> P \<or> i \<in> E \<or> (\<exists>j < device_count st. test_forks st ! j < 0)))"

lemma foreground_exit:
  assumes "foreground_inv sc E st" and "i < device_count st" and "test_forks st ! i > 0"
  shows "foreground_inv sc (if code = 0 then insert i E else E)
    (st\<lparr>final_score := final_score st + (if code \<noteq> 0 then scores st ! i else 0),
        finished_count := f, test_forks := (test_forks st)[i := 0]\<rparr>)"
proof -
  obtain P where P: "P \<subseteq> {..<device_count st}" "\<forall>i\<in>P. test_forks st ! i = 0" "final_score st = (\<Sum>i\<in>P. sc ! i)"
    "\<forall>i < device_count st. test_forks st ! i = 0 \<longrightarrow> i \<in> P \<or> i \<in> E \<or> (\<exists>j < device_count st. test_forks st ! j < 0)"
    and l: "scores st = sc" "device_count st \<le> MAX_DEVICES" "length (test_forks st) = MAX_DEVICES"
    using assms(1) by (auto simp: foreground_inv_def)
  let ?P = "if code \<noteq> 0 then insert i P else P" and ?t = "(test_forks st)[i := 0]"
  have i: "i \<notin> P" "finite P" "i < length (test_forks st)"
    using P(1,2) l assms(2,3) finite_subset by fastforce+
  have "(\<exists>j < device_count st. ?t ! j < 0) = (\<exists>j < device_count st. test_forks st ! j < 0)"
    using assms(3) i(3) by (metis less_irrefl not_less_iff_gr_or_eq nth_list_update)
  moreover have "?P \<subseteq> {..<device_count st}" "\<forall>j\<in>?P. ?t ! j = 0"
    "final_score st + (if code \<noteq> 0 then scores st ! i else 0) = (\<Sum>j\<in>?P. sc ! j)"
    using P(1-3) i l assms(2) by (auto simp: nth_list_update)
  ultimately show ?thesis
    using P(4) l i unfolding foreground_inv_def
    by (auto intro!: exI[of _ ?P] simp: nth_list_update split: if_splits)
qed

lemma foreground_mono: "foreground_inv sc E st \<Longrightarrow> E \<subseteq> E' \<Longrightarrow> foreground_inv sc E' st"
  unfolding foreground_inv_def by blast

definition passed :: "nat \<Rightarrow> poll_answer list \<Rightarrow> nat set" where
  "passed i as = {i + k | k. k < length as \<and> as ! k = Wait_Exited 0}"

lemma passed_Cons: "passed i (a # as) = (if a = Wait_Exited 0 then {i} else {}) \<union> passed (i + 1) as"
proof -
  have "passed i (a # as) = {i + k | k. k = 0 \<and> a = Wait_Exited 0} \<union> {i + Suc k | k. k < length as \<and> as ! k = Wait_Exited 0}"
    by (force simp: passed_def less_Suc_eq_0_disj)
  then show ?thesis by (auto simp: passed_def)
qed

lemma poll_children_inv:
  assumes "poll_children i as st = (ok, st')" and "foreground_inv sc E st"
  shows "foreground_inv sc (E \<union> passed i as) st' \<and> devices st' = devices st \<and> timeout st' = timeout st"
  using assms
proof (induction i as st arbitrary: E rule: poll_children.induct)
  case (1 i st)
  then show ?case by (auto intro: foreground_mono)
next
  case (2 i a as st)
  have sub: "E \<union> passed (i + 1) as \<subseteq> E \<union> passed i (a # as)" by (auto simp: passed_Cons)
  have mono: "foreground_inv sc E s \<Longrightarrow> foreground_inv sc (E \<union> X) s" for s X
    by (erule foreground_mono) simp
  have skip: ?case
    if "foreground_inv sc (E \<union> passed (i + 1) as) st' \<and> devices st' = devices st \<and> timeout st' = timeout st"
    using that foreground_mono[of sc _ st', OF _ sub] by blast
  consider (over) "\<not> i < device_count st" | (none) "i < device_count st" "\<not> test_forks st ! i > 0"
    | (run) "i < device_count st" "test_forks st ! i > 0" by blast
  then show ?case
  proof cases
    case over
    then show ?thesis using "2.prems" mono by simp
  next
    case none
    then show ?thesis using "2.IH"(4)[OF none _ "2.prems"(2)] "2.prems"(1) by (intro skip) simp
  next
    case run
    show ?thesis
    proof (cases a)
      case Wait_Error
      then show ?thesis using "2.prems" run mono by simp
    next
      case Wait_None
      then show ?thesis using "2.IH"(1)[OF run Wait_None _ "2.prems"(2)] "2.prems"(1) run by (intro skip) simp
    next
      case Wait_Other
      then show ?thesis using "2.IH"(3)[OF run Wait_Other _ "2.prems"(2)] "2.prems"(1) run by (intro skip) simp
    next
      case (Wait_Exited code)
      let ?E = "if code = 0 then insert i E else E"
      have "?E \<union> passed (i + 1) as = E \<union> passed i (a # as)" using Wait_Exited by (simp add: passed_Cons)
      then show ?thesis
        using "2.IH"(2)[OF run Wait_Exited _ foreground_exit[OF "2.prems"(2) run, of code]] "2.prems"(1) run Wait_Exited
        by simp
    qed
  qed
qed

definition polled :: "(poll_answer list \<times> int) list \<Rightarrow> nat set" where
  "polled polls = (\<Union>(as, t)\<in>set polls. passed 0 as)"

lemma wait_loop_inv:
  assumes "wait_loop start now polls st = Some (ok, st')" and "foreground_inv sc E st"
  shows "foreground_inv sc (E \<union> polled polls) st' \<and> devices st' = devices st"
  using assms
proof (induction polls arbitrary: now st E)
  case Nil
  then show ?case by (auto simp: polled_def wait_loop.simps[of start now] split: if_splits)
next
  case (Cons p ps)
  obtain as t where p: "p = (as, t)" by (cases p)
  obtain okp s1 where pc: "poll_children 0 as st = (okp, s1)" by (cases "poll_children 0 as st")
  note i1 = poll_children_inv[OF pc Cons.prems(2)]
  have e: "polled (p # ps) = passed 0 as \<union> polled ps" by (simp add: polled_def p)
  show ?case
  proof (cases "finished_count st < device_count st \<and> start + timeout st > now")
    case False
    then show ?thesis using Cons.prems foreground_mono by (auto simp: wait_loop.simps[of start now])
  next
    case True
    then have w: "(if okp then wait_loop start t ps s1 else Some (False, s1)) = Some (ok, st')"
      using Cons.prems(1) p pc by (simp add: wait_loop.simps[of start now])
    show ?thesis
    proof (cases okp)
      case True
      then show ?thesis using Cons.IH[of t s1 "E \<union> passed 0 as"] i1 w e by (simp add: Un_assoc)
    next
      case False
      then show ?thesis using i1 w foreground_mono[of sc "E \<union> passed 0 as" s1 "E \<union> polled (p # ps)"]
        by (auto simp: e)
    qed
  qed
qed

text \<open>The loop ends no later than the first pass after which the clock reaches the deadline.\<close>

lemma wait_loop_returns:
  assumes "\<exists>(as, t)\<in>set polls. start + timeout st \<le> t"
  shows "wait_loop start now polls st \<noteq> None"
  using assms
proof (induction polls arbitrary: now st)
  case (Cons p ps)
  obtain as t where p: "p = (as, t)" by (cases p)
  obtain okp s1 where pc: "poll_children 0 as st = (okp, s1)" by (cases "poll_children 0 as st")
  have t: "timeout s1 = timeout st"
  proof -
    have "timeout (snd (poll_children i bs s)) = timeout s" for i bs s
      by (induction i bs s rule: poll_children.induct) (auto split: poll_answer.splits)
    from this[of 0 as st] pc show ?thesis by simp
  qed
  show ?case
  proof (cases "start + timeout st \<le> t")
    case True
    then show ?thesis using p pc t by (auto simp: wait_loop.simps[of start now] wait_loop.simps[of start t])
  next
    case False
    then show ?thesis
      using Cons p pc t by (auto simp: wait_loop.simps[of start now])
  qed
qed simp

lemma unfinished_fold:
  "final_score (fold (\<lambda>i s. if test_forks s ! i \<noteq> 0 then s\<lparr>final_score := final_score s + scores s ! i\<rparr> else s) is st)
   = final_score st + (\<Sum>i\<leftarrow>is. if test_forks st ! i \<noteq> 0 then scores st ! i else 0)"
  by (induction "is" arbitrary: st) (auto cong: if_cong)

text \<open>The final score is the sum over the devices that failed or did not finish.\<close>

lemma unfinished_score_sum:
  assumes "foreground_inv sc E st"
  shows "\<exists>F \<subseteq> {..<device_count st}. final_score (unfinished_score st) = (\<Sum>i\<in>F. sc ! i) \<and>
    (F = {} \<longrightarrow> {..<device_count st} \<subseteq> E)"
proof -
  obtain P where P: "P \<subseteq> {..<device_count st}" "\<forall>i\<in>P. test_forks st ! i = 0" "final_score st = (\<Sum>i\<in>P. sc ! i)"
    "\<forall>i < device_count st. test_forks st ! i = 0 \<longrightarrow> i \<in> P \<or> i \<in> E \<or> (\<exists>j < device_count st. test_forks st ! j < 0)"
    and l: "scores st = sc"
    using assms by (auto simp: foreground_inv_def)
  let ?U = "{i. i < device_count st \<and> test_forks st ! i \<noteq> 0}"
  have "final_score (unfinished_score st) = (\<Sum>i\<in>P. sc ! i) + (\<Sum>i<device_count st. if test_forks st ! i \<noteq> 0 then sc ! i else 0)"
    using P(3) l by (simp add: unfinished_score_def unfinished_fold interv_sum_list_conv_sum_set_nat atLeast0LessThan cong: if_cong)
  also have "(\<Sum>i<device_count st. if test_forks st ! i \<noteq> 0 then sc ! i else 0) = (\<Sum>i\<in>?U. sc ! i)"
    by (simp add: sum.inter_filter[symmetric] lessThan_def)
  also have "(\<Sum>i\<in>P. sc ! i) + (\<Sum>i\<in>?U. sc ! i) = (\<Sum>i\<in>P \<union> ?U. sc ! i)"
    using P(1,2) finite_subset by (intro sum.union_disjoint[symmetric]) auto
  finally have "final_score (unfinished_score st) = (\<Sum>i\<in>P \<union> ?U. sc ! i)" .
  moreover have "{..<device_count st} \<subseteq> E" if "P \<union> ?U = {}" using that P(4) by force
  ultimately show ?thesis using P(1) by (intro exI[of _ "P \<union> ?U"]) auto
qed

lemma fork_loop_negative:
  assumes "\<exists>p\<in>set pids. p < 0" and "i + length pids \<le> device_count st" and "device_count st \<le> length (test_forks st)"
  shows "\<exists>j < device_count st. test_forks (fork_loop i pids st) ! j < 0"
  using assms
proof (induction i pids st rule: fork_loop.induct)
  case (2 i pid pids st)
  show ?case
  proof (cases "pid < 0")
    case True
    then show ?thesis using "2.prems" by (auto simp: Let_def intro!: exI[of _ i])
  next
    case False
    then show ?thesis using 2 by (auto simp: Let_def)
  qed
qed simp

lemma start_round_foreground:
  assumes "length pids = device_count st" and "device_count st \<le> MAX_DEVICES" and "\<forall>p\<in>set pids. p \<noteq> 0"
  shows "foreground_inv (scores st) {} (start_round pids st)" "devices (start_round pids st) = devices st"
proof -
  let ?s = "st\<lparr>final_score := 0, finished_count := 0, test_forks := replicate MAX_DEVICES 0\<rparr>"
  have "(\<exists>j < device_count st. test_forks (start_round pids st) ! j < 0) \<or>
      (\<forall>j < device_count st. test_forks (start_round pids st) ! j \<noteq> 0)"
  proof (cases "\<exists>p\<in>set pids. p < 0")
    case True
    then show ?thesis using fork_loop_negative[of pids 0 ?s] assms by (simp add: start_round_def)
  next
    case False
    then have "\<forall>p\<in>set pids. p > 0" using assms(3) by force
    then show ?thesis
      using fork_loop_all[of pids 0 ?s] assms by (simp add: start_round_def)
  qed
  then show "foreground_inv (scores st) {} (start_round pids st)"
    using fork_loop_frame[of 0 pids ?s] assms(2)
    unfolding foreground_inv_def by (intro conjI exI[of _ "{}"]) (auto simp: start_round_def)
  show "devices (start_round pids st) = devices st"
    using fork_loop_frame[of 0 pids ?s] by (simp add: start_round_def)
qed

text \<open>
  The foreground test returns and its result can be trusted: with at most 25 devices scored 1 to
  10 and any results of \<open>fork\<close> and \<open>waitpid\<close>, once the clock passes the deadline there is a
  result; it is -1 (a \<open>waitpid\<close> error) or lies between 0 and 250, so that it survives as an exit
  status; and it is 0 only if every device's test was reported to have exited with 0.
\<close>

lemma foreground_result:
  assumes "length pids = device_count st" and "device_count st \<le> MAX_DEVICES" and "\<forall>p\<in>set pids. p \<noteq> 0"
    and "\<forall>i < device_count st. 1 \<le> scores st ! i \<and> scores st ! i \<le> 10"
    and "\<exists>(as, t)\<in>set polls. start + timeout st \<le> t"
  shows "\<exists>r st'. test_device_main_foreground pids start polls st = Some (r, st') \<and>
    (r = - 1 \<or> (0 \<le> r \<and> r \<le> 250)) \<and>
    (r = 0 \<longrightarrow> (\<forall>i < device_count st. i \<in> polled polls))"
proof -
  let ?s = "start_round pids st" and ?n = "device_count st"
  note f = start_round_foreground[OF assms(1-3)]
  have "timeout ?s = timeout st" using fork_loop_frame by (simp add: start_round_def)
  then obtain ok s1 where w: "wait_loop start start polls ?s = Some (ok, s1)"
    using wait_loop_returns[of polls start ?s start] assms(5) by auto
  have i1: "foreground_inv (scores st) (polled polls) s1" "devices s1 = devices st"
    using wait_loop_inv[OF w f(1)] f(2) by simp_all
  obtain F where F: "F \<subseteq> {..<?n}" "final_score (unfinished_score s1) = (\<Sum>i\<in>F. scores st ! i)"
    "F = {} \<longrightarrow> {..<?n} \<subseteq> polled polls"
    using unfinished_score_sum[OF i1(1)] i1(2) by auto
  have p: "1 \<le> scores st ! i" "scores st ! i \<le> 10" if "i \<in> F" for i using that F(1) assms(4) by auto
  have fin: "finite F" "card F \<le> ?n" using F(1) finite_subset card_mono[of "{..<?n}" F] by auto
  have "(\<Sum>i\<in>F. scores st ! i) \<le> (\<Sum>i\<in>F. 10)" using p by (intro sum_mono) auto
  then have "(\<Sum>i\<in>F. scores st ! i) \<le> 250" using fin assms(2) by (simp add: MAX_DEVICES_def)
  moreover have "(\<Sum>i\<in>F. 1) \<le> (\<Sum>i\<in>F. scores st ! i)" using p by (intro sum_mono) auto
  then have "int (card F) \<le> (\<Sum>i\<in>F. scores st ! i)" by simp
  ultimately show ?thesis
    using w F(2,3) fin by (cases ok) (auto simp: test_device_main_foreground_def Let_def)
qed

text \<open>Clearing the low nine bits.\<close>

lemma and_sector: "unat (and x 0xFFFFFFFFFFFFFE00 :: 64 word) = unat x div 512 * 512"
proof -
  have c: "(0xFFFFFFFFFFFFFE00 :: 64 word) = not (mask 9)" by (simp add: mask_eq_exp_minus_1)
  have "and x (not (mask 9)) = push_bit 9 (drop_bit 9 x)"
    by (rule bit_word_eqI) (auto simp: bit_simps)
  moreover have u: "unat x < 2 ^ 64" using unsigned_less[of x, where ?'a = nat] by simp
  then have t: "take_bit 64 (unat x) = unat x" by (simp only: take_bit_nat_eq_self_iff)
  have "push_bit 9 (drop_bit 9 (unat x)) < 2 ^ 64"
    using u by (simp add: push_bit_eq_mult drop_bit_eq_div)
  then have "take_bit 64 (push_bit 9 (drop_bit 9 (unat x))) = push_bit 9 (drop_bit 9 (unat x))"
    by (simp only: take_bit_nat_eq_self_iff)
  then have "unat (push_bit 9 (drop_bit 9 x)) = push_bit 9 (drop_bit 9 (unat x))"
    by (simp only: unsigned_push_bit_eq unsigned_drop_bit_eq) (simp add: t)
  then have "unat (push_bit 9 (drop_bit 9 x)) = unat x div 512 * 512"
    by (simp only: push_bit_eq_mult[of 9 "_ :: nat"] drop_bit_eq_div[of 9 "_ :: nat"]) simp
  ultimately show ?thesis unfolding c by simp
qed

text \<open>
  Where a device is read: for a device larger than 1024 bytes the position is a multiple of 512,
  leaves at least two sectors of 512 bytes before the end of the device, and fits the \<open>int\<close> that
  stores the result of \<open>lseek\<close>, since \<open>rand\<close> returns less than 2 to the 31; hence no position
  from 2 GiB on is ever read.  For a device of exactly 1024 bytes the remainder is by 0 and
  the child dies of a signal.
\<close>

theorem seek_spot_bounds:
  assumes "1024 < unat (devsize e)" and "0 \<le> sint (rand_value e)"
  shows "\<exists>p. seek_spot e = Some p \<and> 512 dvd unat p \<and> unat p + 1024 \<le> unat (devsize e) \<and>
    unat p < 2 ^ 31 \<and> sint (ucast p :: 32 word) = int (unat p) \<and>
    (unat (devsize e') = 1024 \<longrightarrow> seek_spot e' = None)"
proof -
  let ?m = "devsize e - 1024" and ?r = "scast (rand_value e) :: 64 word"
  have m: "unat ?m = unat (devsize e) - 1024" using assms(1) by (subst unat_sub) (simp_all add: word_le_nat_alt)
  then have nz: "?m \<noteq> 0" using assms(1) by (auto simp: unat_eq_0[symmetric] simp del: unat_eq_0)
  let ?p = "and (?r mod ?m) 0xFFFFFFFFFFFFFE00"
  have s: "seek_spot e = Some ?p" using nz by (simp add: seek_spot_def Let_def)
  have u: "unat ?p = unat (?r mod ?m) div 512 * 512" by (rule and_sector)
  have r: "unat (?r mod ?m) = unat ?r mod unat ?m" by (rule unat_mod_distrib)
  have "unat ?r mod unat ?m < unat ?m" using m assms(1) by simp
  moreover have "unat ?r < 2 ^ 31" using unat_scast_nonneg[OF assms(2)] sint_less[of "rand_value e"] assms(2) by simp
  then have "unat ?r mod unat ?m < 2 ^ 31" using mod_less_eq_dividend[of "unat ?r" "unat ?m"] by linarith
  ultimately have b: "unat ?p + 1024 \<le> unat (devsize e)" "unat ?p < 2 ^ 31"
    using u r m div_times_less_eq_dividend[of "unat ?r mod unat ?m" 512] by linarith+
  have "devsize e' - 1024 = 0" if "unat (devsize e') = 1024"
    using that unsigned_word_eqI[where ?'a = nat, of "devsize e'" 1024] by simp
  then have "unat (devsize e') = 1024 \<longrightarrow> seek_spot e' = None" by (simp add: seek_spot_def Let_def)
  with s u b show ?thesis using sint_ucast_small[OF b(2)] by (intro exI[of _ ?p]) simp
qed

definition demo_dev :: device_env where
  "demo_dev = \<lparr>open_direct = None, open_plain_ok = True, size_ok = True, devsize = 10000000000,
     rand_value = 2147483647, seek_ok = True, sector_ok = True, sec_size = 512, memalign_ok = True,
     read_result = 512, rand_inject = 0, close_ok = True\<rparr>"

theorem seek_spot_bounds_witness:
  "\<exists>p. seek_spot demo_dev = Some p \<and> 512 dvd unat p \<and> unat p + 1024 \<le> 10000000000 \<and> unat p < 2 ^ 31 \<and>
     seek_spot (demo_dev\<lparr>devsize := 1024\<rparr>) = None"
  using seek_spot_bounds[of demo_dev "demo_dev\<lparr>devsize := 1024\<rparr>"] by (auto simp: demo_dev_def)

end
