(* ===== verification/Storage_Mon_Main.thy ===== *)
theory Storage_Mon_Main
  imports Storage_Mon
begin

text \<open>
  The programs around the monitoring rounds of \<^verbatim>\<open>src/tools/storage_mon.c\<close>: the command line, the
  pid file, the start of the daemon, the daemon's answer to a client and the client itself.  libqb's
  connection calls are arguments.
\<close>

section \<open>Client and server\<close>

definition SMON_GET_RESULT_COMMAND :: string where "SMON_GET_RESULT_COMMAND = ''get_check_value''"
definition SMON_MAX_IPCSNAME :: nat where "SMON_MAX_IPCSNAME = 256"
definition SMON_MAX_MSGSIZE :: nat where "SMON_MAX_MSGSIZE = 128"
definition SMON_MAX_RESP_SIZE :: nat where "SMON_MAX_RESP_SIZE = 100"

definition ipcs_name :: "string \<Rightarrow> char list" where
  "ipcs_name attrname = snprintf_bytes SMON_MAX_IPCSNAME (''storage_mon_'' @ attrname)"

text \<open>The text the server sends behind the response header.\<close>

definition send_score :: "char list \<Rightarrow> storage_mon \<Rightarrow> int" where
  "send_score message st =
     (if \<not> strcmp_eq message SMON_GET_RESULT_COMMAND then - 1
      else if \<not> daemon_check_first_all_devices st then - 2
      else response_final_score st)"

definition storage_mon_ipcs_msg_process_fn :: "char list \<Rightarrow> storage_mon \<Rightarrow> char list" where
  "storage_mon_ipcs_msg_process_fn message st =
     snprintf_bytes SMON_MAX_RESP_SIZE (show_int (send_score message st))"

text \<open>
  The client: \<open>connect\<close> whether the connection was made, \<open>exchange\<close> what the server answers to
  the request (\<open>Inl rc\<close> an error of sending or receiving, \<open>Inr None\<close> nothing sent).
\<close>

definition request_message :: "char list" where
  "request_message = snprintf_bytes SMON_MAX_MSGSIZE SMON_GET_RESULT_COMMAND"

definition received :: "char list \<Rightarrow> char list" where
  "received bytes = take SMON_MAX_MSGSIZE (bytes @ replicate SMON_MAX_MSGSIZE NUL)"

definition storage_mon_client :: "bool \<Rightarrow> (char list \<Rightarrow> int + char list option) \<Rightarrow> int" where
  "storage_mon_client connect exchange =
     (if \<not> connect then - 1
      else case exchange request_message of
        Inl rc \<Rightarrow> - 1
      | Inr answer \<Rightarrow>
          let m = (case answer of None \<Rightarrow> received [] | Some bytes \<Rightarrow> received bytes)
          in if m ! 0 \<noteq> NUL then atoi m else - 1)"

section \<open>The pid file\<close>

definition strip_slashes :: "string \<Rightarrow> string" where
  "strip_slashes s = rev (dropWhile (\<lambda>c. c = CHR ''/'') (rev s))"

definition dirname :: "string \<Rightarrow> string" where
  "dirname s =
     (let t = strip_slashes s in
      if t = [] then (if s = [] then ''.'' else ''/'')
      else if CHR ''/'' \<notin> set t then ''.''
      else let d = strip_slashes (rev (dropWhile (\<lambda>c. c \<noteq> CHR ''/'') (rev t)))
           in if d = [] then ''/'' else d)"

text \<open>The directories \<open>write_pid_file\<close> makes, in order.\<close>

definition pid_dirs :: "string \<Rightarrow> string list" where
  "pid_dirs pidfile =
     (let dir = dirname pidfile
      in map (\<lambda>i. take i dir) (filter (\<lambda>i. dir ! i = CHR ''/'') [1..<length dir]) @ [dir])"

text \<open>
  \<open>mkdir_ok\<close>: the call succeeded or the directory exists; \<open>old\<close>: what the file held before it was
  opened (with \<open>O_CREAT | O_WRONLY\<close>, so the contents stay); \<open>written\<close>: the number of bytes
  \<open>write\<close> accepted.  The result is the return value and the contents of the file, if it was opened.
\<close>

definition write_pid_file ::
  "bool \<Rightarrow> bool \<Rightarrow> (string \<Rightarrow> bool) \<Rightarrow> bool \<Rightarrow> nat \<Rightarrow> string \<Rightarrow> nat \<Rightarrow> string \<Rightarrow> int \<times> string option" where
  "write_pid_file asprintf_ok strdup_ok mkdir_ok open_ok written old pid pidfile =
     (let text = show_nat pid; n = min written (length text); contents = take n text @ drop n old in
      if \<not> asprintf_ok then (- 1, None)
      else if \<not> strdup_ok then (- 1, None)
      else if \<not> list_all mkdir_ok (pid_dirs pidfile) then (- 1, None)
      else if \<not> open_ok then (- 1, None)
      else if n \<noteq> length text then (- 1, Some contents)
      else (0, Some contents))"

section \<open>The command line\<close>

definition smon_long_options :: "long_option list" where
  "smon_long_options =
     [(''timeout'', True, CHR ''t''), (''device'', True, CHR ''d''), (''score'', True, CHR ''s''),
      (''inject-errors-percent'', True, NUL), (''daemonize'', False, NUL), (''client'', False, NUL),
      (''interval'', True, CHR ''i''), (''pidfile'', True, CHR ''p''), (''attrname'', True, CHR ''a''),
      (''verbose'', False, CHR ''v''), (''help'', False, CHR ''h'')]"

record smon_args =
  arg_devices :: "string list"
  arg_scores :: "int list"
  arg_timeout :: int
  arg_verbose :: nat
  arg_inject :: int
  arg_attrname :: string
  arg_daemonize :: bool
  arg_client :: bool
  arg_interval :: int
  arg_pidfile :: string

definition default_args :: "string \<Rightarrow> smon_args" where
  "default_args rundir =
     \<lparr>arg_devices = [], arg_scores = [], arg_timeout = DEFAULT_TIMEOUT, arg_verbose = 0, arg_inject = 0,
      arg_attrname = ''#health-storage_mon'', arg_daemonize = False, arg_client = False,
      arg_interval = DEFAULT_INTERVAL, arg_pidfile = rundir @ ''storage_mon.pid''\<rparr>"

text \<open>The long-only options (value 0).\<close>

definition long_only :: "string \<Rightarrow> string \<Rightarrow> smon_args \<Rightarrow> unit result \<times> smon_args" where
  "long_only name optarg a =
     (let a1 = (if name = ''inject-errors-percent'' then a\<lparr>arg_inject := atoi optarg\<rparr> else a);
          a2 = (if name = ''daemonize'' then a1\<lparr>arg_daemonize := True\<rparr> else a1);
          a3 = (if name = ''client'' then a2\<lparr>arg_client := True\<rparr> else a2)
      in if name = ''inject-errors-percent'' \<and> (arg_inject a1 < 1 \<or> arg_inject a1 > 100) then (Exit (- 1), a1)
         else if arg_daemonize a3 \<and> arg_client a3 then (Exit (- 1), a3)
         else (Ret (), a3))"

definition smon_option :: "char \<times> string \<times> string \<Rightarrow> smon_args \<Rightarrow> unit result \<times> smon_args" where
  "smon_option e a =
     (case e of (opt, name, optarg) \<Rightarrow>
        if opt = NUL then long_only name optarg a
        else if opt = CHR ''d'' then
          (if length (arg_devices a) < MAX_DEVICES then (Ret (), a\<lparr>arg_devices := arg_devices a @ [optarg]\<rparr>)
           else (Exit (- 1), a))
        else if opt = CHR ''s'' then
          (if length (arg_scores a) < MAX_DEVICES then
             (if atoi optarg < 1 \<or> atoi optarg > 10 then (Exit (- 1), a)
              else (Ret (), a\<lparr>arg_scores := arg_scores a @ [atoi optarg]\<rparr>))
           else (Exit (- 1), a))
        else if opt = CHR ''v'' then (Ret (), a\<lparr>arg_verbose := arg_verbose a + 1\<rparr>)
        else if opt = CHR ''t'' then
          (if atoi optarg < 1 then (Exit (- 1), a\<lparr>arg_timeout := atoi optarg\<rparr>)
           else (Ret (), a\<lparr>arg_timeout := atoi optarg\<rparr>))
        else if opt = CHR ''h'' then (Exit 0, a)
        else if opt = CHR ''i'' then
          (if atoi optarg < 1 then (Exit (- 1), a\<lparr>arg_interval := atoi optarg\<rparr>)
           else (Ret (), a\<lparr>arg_interval := atoi optarg\<rparr>))
        else if opt = CHR ''p'' then (Ret (), a\<lparr>arg_pidfile := optarg\<rparr>)
        else if opt = CHR ''a'' then (Ret (), a\<lparr>arg_attrname := optarg\<rparr>)
        else (Exit (- 1), a))"

fun smon_options :: "(char \<times> string \<times> string) list \<Rightarrow> smon_args \<Rightarrow> unit result \<times> smon_args" where
  "smon_options [] a = (Ret (), a)"
| "smon_options (e # es) a = and_then (smon_option e) (\<lambda>_. smon_options es) a"

section \<open>The main program\<close>

text \<open>What the system and libqb answer.\<close>

record smon_env =
  run_dir :: string
  fork_results :: "int list"
  start_clock :: int
  poll_results :: "(poll_answer list \<times> int) list"
  daemon_ok :: bool
  pidfile_rc :: int
  ipcs_create_ok :: bool
  ipcs_run_rc :: int
  client_connects :: bool
  client_exchange :: "char list \<Rightarrow> int + char list option"

definition initial_mon :: "smon_args \<Rightarrow> storage_mon" where
  "initial_mon a =
     \<lparr>devices = arg_devices a, scores = arg_scores a, timeout = arg_timeout a, timer_interval = 0,
      daemonize = arg_daemonize a, shutting_down = False, final_score = 0, response_final_score = 0,
      test_forks = replicate MAX_DEVICES 0, finished_count = 0, daemon_check_first_all_devices = False,
      requests = [], killed = []\<rparr>"

text \<open>\<open>storage_mon_daemon\<close> up to the event loop; \<open>None\<close>: the loop runs.\<close>

definition storage_mon_daemon :: "smon_env \<Rightarrow> int \<Rightarrow> storage_mon \<Rightarrow> int option \<times> storage_mon" where
  "storage_mon_daemon env interval st =
     (if \<not> daemon_ok env then (Some (- 1), st)
      else if pidfile_rc env < 0 then (Some (- 1), st)
      else if \<not> ipcs_create_ok env then (Some (- 1), st)
      else if ipcs_run_rc env \<noteq> 0 then (Some (- 1), st)
      else (None, st\<lparr>timer_interval := interval, requests := requests st @ [Timer_Add 0 (Test_Timer True)]\<rparr>))"

text \<open>The value \<open>main\<close> returns and the final state; no value while it is still running.\<close>

definition storage_mon_run :: "smon_env \<Rightarrow> smon_args \<Rightarrow> int option \<times> storage_mon" where
  "storage_mon_run env a =
     (let st = initial_mon a in
      if arg_client a then (Some (storage_mon_client (client_connects env) (client_exchange env)), st)
      else if arg_devices a = [] then (Some (- 1), st)
      else if length (arg_devices a) \<noteq> length (arg_scores a) then (Some (- 1), st)
      else if \<not> arg_daemonize a then
        (case test_device_main_foreground (fork_results env) (start_clock env) (poll_results env) st of
           None \<Rightarrow> (None, st)
         | Some (r, st') \<Rightarrow> (Some r, st'\<lparr>final_score := r\<rparr>))
      else storage_mon_daemon env (arg_interval a) st)"

definition storage_mon_main :: "smon_env \<Rightarrow> string list \<Rightarrow> int option \<times> storage_mon" where
  "storage_mon_main env args =
     (case smon_options (fst (getopt_long_all ''hvt:d:s:i:p:a:'' smon_long_options args)) (default_args (run_dir env)) of
        (r, a) \<Rightarrow> (case r of
           Ret _ \<Rightarrow> storage_mon_run env a
         | Exit e \<Rightarrow> (Some e, initial_mon a)
         | Fault \<Rightarrow> (None, initial_mon a)))"

section \<open>Lemmas\<close>

definition args_ok :: "smon_args \<Rightarrow> bool" where
  "args_ok a \<longleftrightarrow> length (arg_devices a) \<le> MAX_DEVICES \<and> length (arg_scores a) \<le> MAX_DEVICES \<and>
     (\<forall>s\<in>set (arg_scores a). 1 \<le> s \<and> s \<le> 10) \<and> 1 \<le> arg_timeout a \<and> 1 \<le> arg_interval a \<and>
     0 \<le> arg_inject a \<and> arg_inject a \<le> 100 \<and> \<not> (arg_daemonize a \<and> arg_client a)"

lemma long_only_ok: "long_only n x a = (Ret (), a') \<Longrightarrow> args_ok a \<Longrightarrow> args_ok a'"
  by (auto simp: long_only_def args_ok_def Let_def split: if_splits)

lemma smon_option_ok: "smon_option e a = (Ret (), a') \<Longrightarrow> args_ok a \<Longrightarrow> args_ok a'"
  using long_only_ok[of "fst (snd e)" "snd (snd e)" a a']
  by (cases e) (simp add: smon_option_def split: if_split_asm; auto simp: args_ok_def)

lemma smon_options_ok: "smon_options es a = (Ret (), a') \<Longrightarrow> args_ok a \<Longrightarrow> args_ok a'"
  by (induction es arbitrary: a) (auto simp: and_then_Ret dest: smon_option_ok)

lemma default_args_ok: "args_ok (default_args d)"
  by (simp add: args_ok_def default_args_def DEFAULT_TIMEOUT_def DEFAULT_INTERVAL_def)

lemma length_show_int_le:
  assumes "- 2147483648 \<le> i" and "i \<le> INT_MAX"
  shows "length (show_int i) \<le> 11"
proof -
  have "nat i < 10 ^ 10" "nat (- i) < 10 ^ 10" using assms by (simp_all add: INT_MAX_def)
  then have "length (show_nat (nat i)) \<le> 10" "length (show_nat (nat (- i))) \<le> 10"
    using length_show_nat[of _ 10] by simp_all
  then show ?thesis by (simp add: show_int_def)
qed

lemma show_int_hd: "\<exists>c r. show_int i = c # r \<and> c \<noteq> NUL"
proof -
  have "c_string (show_int i)" by simp
  moreover have "show_int i \<noteq> []" by (simp add: show_int_def)
  ultimately show ?thesis by (cases "show_int i") (auto simp: c_string_def)
qed

lemma client_reads_int:
  assumes "- 2147483648 \<le> i" and "i \<le> INT_MAX"
  shows "storage_mon_client True (\<lambda>m. Inr (Some (snprintf_bytes SMON_MAX_RESP_SIZE (show_int i)))) = i"
proof -
  let ?b = "snprintf_bytes SMON_MAX_RESP_SIZE (show_int i)"
  have l: "length (show_int i) \<le> 11" by (rule length_show_int_le[OF assms])
  then have b: "?b = show_int i @ [NUL]" by (simp add: snprintf_bytes_def SMON_MAX_RESP_SIZE_def)
  have e: "128 - length (show_int i) = Suc (127 - length (show_int i))" using l by simp
  have r: "received ?b = show_int i @ NUL # take (127 - length (show_int i)) (replicate 128 NUL)"
    using l by (simp add: b received_def SMON_MAX_MSGSIZE_def e)
  obtain c t where "show_int i = c # t" "c \<noteq> NUL" using show_int_hd by blast
  then have "received ?b ! 0 \<noteq> NUL" unfolding r by simp
  moreover have "atoi (received ?b) = i"
    using atoi_show_int[OF assms] atoi_cong_cstr[of "received ?b" "show_int i"] by (simp add: r)
  ultimately show ?thesis by (simp add: storage_mon_client_def)
qed

lemma client_asks:
  assumes "- 2147483648 \<le> response_final_score st" and "response_final_score st \<le> INT_MAX"
  shows "storage_mon_client True (\<lambda>m. Inr (Some (storage_mon_ipcs_msg_process_fn m st))) =
    (if daemon_check_first_all_devices st then response_final_score st else - 2)"
proof -
  have "strcmp_eq request_message SMON_GET_RESULT_COMMAND"
    by (simp add: strcmp_eq_def request_message_def SMON_GET_RESULT_COMMAND_def SMON_MAX_MSGSIZE_def
        snprintf_bytes_def cstr_Cons)
  then have "send_score request_message st = (if daemon_check_first_all_devices st then response_final_score st else - 2)"
    by (simp add: send_score_def)
  then have "storage_mon_client True (\<lambda>m. Inr (Some (storage_mon_ipcs_msg_process_fn m st))) =
      storage_mon_client True (\<lambda>m. Inr (Some (snprintf_bytes SMON_MAX_RESP_SIZE
        (show_int (if daemon_check_first_all_devices st then response_final_score st else - 2)))))"
    by (simp add: storage_mon_client_def storage_mon_ipcs_msg_process_fn_def)
  also have "\<dots> = (if daemon_check_first_all_devices st then response_final_score st else - 2)"
    using assms by (intro client_reads_int) (simp_all add: INT_MAX_def)
  finally show ?thesis .
qed

section \<open>Properties\<close>

text \<open>
  What a client learns: its request is the one command the server knows; the value the client
  returns is the daemon's current score once the first check is complete and -2 before, for every
  score an \<open>int\<close> can hold; the text passes through two buffers without loss.
\<close>

theorem client_roundtrip:
  assumes "- 2147483648 \<le> response_final_score st" and "response_final_score st \<le> INT_MAX"
  shows "storage_mon_client True (\<lambda>m. Inr (Some (storage_mon_ipcs_msg_process_fn m st))) =
    (if daemon_check_first_all_devices st then response_final_score st else - 2)"
  using client_asks[OF assms] .

theorem client_roundtrip_witness:
  "storage_mon_client True (\<lambda>m. Inr (Some (storage_mon_ipcs_msg_process_fn m
     (demo_mon\<lparr>response_final_score := 15, daemon_check_first_all_devices := True\<rparr>)))) = 15 \<and>
   storage_mon_client True (\<lambda>m. Inr (Some (storage_mon_ipcs_msg_process_fn m demo_mon))) = - 2"
  using client_roundtrip[of "demo_mon\<lparr>response_final_score := 15, daemon_check_first_all_devices := True\<rparr>"]
    client_roundtrip[of demo_mon] by (simp add: INT_MAX_def demo_mon_def)

text \<open>
  C31. The foreground program, from the command line on: for every command line that asks for a
  foreground test with as many scores as devices, and any results of \<open>fork\<close> and \<open>waitpid\<close>, the
  program returns once the clock passes the deadline; its value is -1 or between 0 and 250, and it is
  0 only if every device's test was reported to have exited with 0.
\<close>

theorem foreground_main:
  assumes "smon_options (fst (getopt_long_all ''hvt:d:s:i:p:a:'' smon_long_options args)) (default_args (run_dir env)) = (Ret (), a)"
    and "\<not> arg_client a" "\<not> arg_daemonize a" "arg_devices a \<noteq> []" "length (arg_devices a) = length (arg_scores a)"
    and "length (fork_results env) = length (arg_devices a)" "\<forall>p\<in>set (fork_results env). p \<noteq> 0"
    and "\<exists>(as, t)\<in>set (poll_results env). start_clock env + arg_timeout a \<le> t"
  shows "\<exists>r. fst (storage_mon_main env args) = Some r \<and> (r = - 1 \<or> (0 \<le> r \<and> r \<le> 250)) \<and>
    (r = 0 \<longrightarrow> (\<forall>i < length (arg_devices a). i \<in> polled (poll_results env)))"
proof -
  have ok: "args_ok a" using smon_options_ok[OF assms(1) default_args_ok] .
  let ?st = "initial_mon a"
  have f: "devices ?st = arg_devices a" "scores ?st = arg_scores a" "timeout ?st = arg_timeout a"
    by (simp_all add: initial_mon_def)
  have "\<forall>i < device_count ?st. 1 \<le> scores ?st ! i \<and> scores ?st ! i \<le> 10"
    using ok f assms(5) nth_mem by (auto simp: args_ok_def)
  then obtain r st' where "test_device_main_foreground (fork_results env) (start_clock env) (poll_results env) ?st = Some (r, st')"
    "r = - 1 \<or> (0 \<le> r \<and> r \<le> 250)" "r = 0 \<longrightarrow> (\<forall>i < device_count ?st. i \<in> polled (poll_results env))"
    using foreground_result[of "fork_results env" ?st "poll_results env" "start_clock env"] f assms(6-8) ok
    by (auto simp: args_ok_def)
  moreover from calculation(1) have "fst (storage_mon_main env args) = Some r"
    using assms(1-5) by (simp add: storage_mon_main_def storage_mon_run_def)
  ultimately show ?thesis using f by auto
qed

definition demo_smon_env :: smon_env where
  "demo_smon_env = \<lparr>run_dir = ''/run/'', fork_results = [100], start_clock = 0,
     poll_results = [([Wait_None], 5), ([Wait_Exited 255], 11)], daemon_ok = True, pidfile_rc = 0,
     ipcs_create_ok = True, ipcs_run_rc = 0, client_connects = True, client_exchange = (\<lambda>_. Inl 0)\<rparr>"

lemma demo_smon_args:
  "smon_options (fst (getopt_long_all ''hvt:d:s:i:p:a:'' smon_long_options [''-d'', ''/dev/sda'', ''-s'', show_int 3]))
     (default_args (run_dir demo_smon_env)) =
   (Ret (), (default_args ''/run/'')\<lparr>arg_devices := [''/dev/sda''], arg_scores := [3]\<rparr>)"
proof -
  have "fst (getopt_long_all ''hvt:d:s:i:p:a:'' smon_long_options [''-d'', ''/dev/sda'', ''-s'', show_int 3])
      = [(CHR ''d'', [], ''/dev/sda''), (CHR ''s'', [], show_int 3)]"
    by (simp add: Let_def)
  moreover have "atoi (show_int 3) = 3" by (rule atoi_show_int) (simp_all add: INT_MAX_def)
  ultimately show ?thesis
    by (simp add: smon_option_def demo_smon_env_def default_args_def MAX_DEVICES_def and_then_def)
qed

theorem foreground_main_witness:
  "\<exists>r. fst (storage_mon_main demo_smon_env [''-d'', ''/dev/sda'', ''-s'', show_int 3]) = Some r \<and> r \<noteq> 0 \<and> r \<le> 250"
proof -
  let ?a = "(default_args ''/run/'')\<lparr>arg_devices := [''/dev/sda''], arg_scores := [3]\<rparr>"
  have "0 \<notin> polled (poll_results demo_smon_env)"
    by (auto simp: polled_def passed_def demo_smon_env_def)
  then show ?thesis
    using foreground_main[OF demo_smon_args]
    by (force simp: default_args_def demo_smon_env_def DEFAULT_TIMEOUT_def)
qed

text \<open>
  The pid file of an earlier daemon is not truncated: when it holds more digits than the new
  process id has, \<open>write_pid_file\<close> reports success and the file ends with the old digits.
\<close>

theorem pid_file_keeps_old_digits:
  assumes "list_all mkdir_ok (pid_dirs pidfile)" and "length (show_nat pid) \<le> written"
  shows "write_pid_file True True mkdir_ok True written old pid pidfile =
    (0, Some (show_nat pid @ drop (length (show_nat pid)) old))"
  using assms by (simp add: write_pid_file_def Let_def)

theorem pid_file_keeps_old_digits_witness:
  "write_pid_file True True (\<lambda>_. True) True 1 ''54321'' 7 ''/run/storage_mon.pid'' = (0, Some ''74321'')"
proof -
  have "show_nat 7 = ''7''" by code_simp
  then show ?thesis
    using pid_file_keeps_old_digits[of "\<lambda>_. True" "''/run/storage_mon.pid''" 7 1 "''54321''"]
    by (simp add: list_all_iff)
qed

end
