(* ===== verification/Storage_Mon_Loop.thy ===== *)
theory Storage_Mon_Loop
  imports Storage_Mon_Main
begin

text \<open>
  The daemon of \<^verbatim>\<open>src/tools/storage_mon.c\<close> in its event loop.  The loop is libqb's; of it the state has the
  pending timers with their handles, and a step is one callback.  Of libqb the steps have that a timer fires when it
  is due, the earliest first and however late, and that \<open>qb_loop_timer_is_running\<close> tells whether the timer of a
  handle is pending; of the kernel, that \<open>waitpid\<close> reports each child once.  The last four components of the state
  are history, read by no callback: what the round has seen, to state what its score should be.
\<close>

section \<open>The event loop\<close>

datatype phase = No_Round | Timing | Expired

record mon_loop =
  mon :: storage_mon
  loop_time :: int
  test_timers :: "(nat \<times> int \<times> bool) list"   \<comment> \<open>handle, due, whether with timer data\<close>
  expire_timers :: "(nat \<times> int) list"
  timer_handle :: nat
  expire_handle :: nat
  next_handle :: nat
  stopped :: bool
  crashed :: bool
  children :: "int list"
  unwaited :: "nat set"                            \<comment> \<open>devices whose child was not yet waited for\<close>
  ended :: "(nat \<times> int) list"                     \<comment> \<open>exits before the round's timer\<close>
  phase :: phase

text \<open>What the loop does for a request of the program.\<close>

fun serve :: "loop_request \<Rightarrow> mon_loop \<Rightarrow> mon_loop" where
  "serve (Timer_Add d (Test_Timer b)) l =
     l\<lparr>test_timers := test_timers l @ [(next_handle l, loop_time l + d, b)], timer_handle := next_handle l, next_handle := next_handle l + 1\<rparr>"
| "serve (Timer_Add d Expire_Timer) l =
     l\<lparr>expire_timers := expire_timers l @ [(next_handle l, loop_time l + d)], expire_handle := next_handle l, next_handle := next_handle l + 1\<rparr>"
| "serve Timer_Del l = l\<lparr>test_timers := filter (\<lambda>(h, _). h \<noteq> timer_handle l) (test_timers l)\<rparr>"
| "serve Loop_Stop l = l\<lparr>stopped := True\<rparr>"

definition handled :: "storage_mon \<Rightarrow> mon_loop \<Rightarrow> mon_loop" where
  "handled st l = fold serve (drop (length (requests (mon l))) (requests st)) (l\<lparr>mon := st\<rparr>)"

definition expire_running :: "mon_loop \<Rightarrow> bool" where
  "expire_running l \<longleftrightarrow> list_ex (\<lambda>(h, _). h = expire_handle l) (expire_timers l)"

text \<open>The callbacks.  \<open>pids\<close> are the results of \<open>fork\<close>.\<close>

definition wrap_test_device_main :: "bool \<Rightarrow> int list \<Rightarrow> storage_mon \<Rightarrow> storage_mon" where
  "wrap_test_device_main has_data pids st = snd (test_device_main_daemon has_data pids st)"

definition fire_test :: "nat \<Rightarrow> bool \<Rightarrow> int list \<Rightarrow> mon_loop \<Rightarrow> mon_loop" where
  "fire_test h b pids l =
     (let l1 = l\<lparr>test_timers := filter (\<lambda>(h', _). h' \<noteq> h) (test_timers l)\<rparr>;
          l2 = (if shutting_down (mon l) \<or> is_child_runnning (mon l) then l1
                else l1\<lparr>children := pids, unwaited := {..<device_count (mon l)}, ended := [], phase := Timing\<rparr>)
      in handled (wrap_test_device_main b pids (mon l)) l2)"

definition fire_expire :: "nat \<Rightarrow> mon_loop \<Rightarrow> mon_loop" where
  "fire_expire h l =
     handled (child_timeout_handler (mon l))
       (l\<lparr>expire_timers := filter (\<lambda>(h', _). h' \<noteq> h) (expire_timers l), phase := Expired\<rparr>)"

text \<open>Children that ended, by their device: with an exit code or by a signal.\<close>

definition wait_results :: "int list \<Rightarrow> (nat \<times> int option) list \<Rightarrow> wait_result list" where
  "wait_results pids ws = map (\<lambda>(i, r). case r of Some c \<Rightarrow> Exited (pids ! i) c | None \<Rightarrow> Not_Exited (pids ! i)) ws"

definition exited :: "(nat \<times> int option) list \<Rightarrow> (nat \<times> int) list" where
  "exited ws = List.map_filter (\<lambda>(i, r). map_option (Pair i) r) ws"

definition take_sigchld :: "(nat \<times> int option) list \<Rightarrow> mon_loop \<Rightarrow> mon_loop" where
  "take_sigchld ws l =
     (case sigchld_handler (expire_running l) (wait_results (children l) ws) (mon l) of (r, st) \<Rightarrow>
        handled st
          (l\<lparr>crashed := (r \<noteq> Ret ()), unwaited := unwaited l - fst ` set ws,
             ended := (if phase l = Timing then ended l @ exited ws else ended l)\<rparr>))"

inductive loop_step :: "mon_loop \<Rightarrow> mon_loop \<Rightarrow> bool" where
  loop_pass: "\<not> stopped l \<Longrightarrow> loop_step l (l\<lparr>loop_time := loop_time l + 1\<rparr>)"
| loop_test: "\<not> stopped l \<Longrightarrow> (h, due, b) \<in> set (test_timers l) \<Longrightarrow> due \<le> loop_time l \<Longrightarrow>
    \<forall>(_, due')\<in>set (expire_timers l). due \<le> due' \<Longrightarrow>
    length pids = device_count (mon l) \<Longrightarrow> distinct pids \<Longrightarrow> \<forall>p\<in>set pids. p > 0 \<Longrightarrow>
    loop_step l (fire_test h b pids l)"
| loop_expire: "\<not> stopped l \<Longrightarrow> (h, due) \<in> set (expire_timers l) \<Longrightarrow> due \<le> loop_time l \<Longrightarrow>
    \<forall>(_, due', _)\<in>set (test_timers l). due \<le> due' \<Longrightarrow> loop_step l (fire_expire h l)"
| loop_chld: "\<not> stopped l \<Longrightarrow> distinct (map fst ws) \<Longrightarrow> fst ` set ws \<subseteq> unwaited l \<Longrightarrow> loop_step l (take_sigchld ws l)"
| loop_term: "\<not> stopped l \<Longrightarrow> loop_step l (handled (sigterm_handler (mon l)) l)"

text \<open>The loop as \<open>storage_mon_daemon\<close> enters it.\<close>

definition loop_boot :: "storage_mon \<Rightarrow> mon_loop" where
  "loop_boot st = fold serve (requests st)
     \<lparr>mon = st, loop_time = 0, test_timers = [], expire_timers = [], timer_handle = 0, expire_handle = 0, next_handle = 1,
      stopped = False, crashed = False, children = [], unwaited = {}, ended = [], phase = No_Round\<rparr>"

section \<open>What the score should be\<close>

fun score_of :: "phase \<Rightarrow> nat \<Rightarrow> int list \<Rightarrow> (nat \<times> int) list \<Rightarrow> int" where
  "score_of No_Round n sc es = 0"
| "score_of Timing n sc es = (\<Sum>i<n. if (\<exists>c. map_of es i = Some c \<and> c \<noteq> 0) then sc ! i else 0)"
| "score_of Expired n sc es = (\<Sum>i<n. if map_of es i = Some 0 then 0 else sc ! i)"

definition round_value :: "mon_loop \<Rightarrow> int" where
  "round_value l = score_of (phase l) (device_count (mon l)) (scores (mon l)) (ended l)"

section \<open>The invariant\<close>

text \<open>The types of the daemon's variables.\<close>

definition mon_wf :: "storage_mon \<Rightarrow> bool" where
  "mon_wf st \<longleftrightarrow> 0 < device_count st \<and> device_count st \<le> MAX_DEVICES \<and> length (scores st) = device_count st \<and>
     (\<forall>s\<in>set (scores st). 1 \<le> s \<and> s \<le> 10) \<and> length (test_forks st) = MAX_DEVICES \<and> 0 < timeout st \<and> timeout st < timer_interval st"

text \<open>One timer of each kind; the timer of the round is due before the next test.\<close>

definition loop_timers_ok :: "mon_loop \<Rightarrow> bool" where
  "loop_timers_ok l \<longleftrightarrow>
     (test_timers l = [] \<and> stopped l \<or>
      \<not> stopped l \<and> (\<exists>d. test_timers l = [(timer_handle l, d, \<not> shutting_down (mon l))] \<and>
        (shutting_down (mon l) \<or> (\<forall>(_, d')\<in>set (expire_timers l). d' < d)))) \<and>
     (stopped l \<longrightarrow> shutting_down (mon l)) \<and>
     (if phase l = Timing then \<exists>d. expire_timers l = [(expire_handle l, d)] else expire_timers l = [])"

definition round_inv :: "mon_loop \<Rightarrow> bool" where
  "round_inv l \<longleftrightarrow> (let st = mon l; n = device_count st in
     if phase l = No_Round then test_forks st = replicate MAX_DEVICES 0 \<and> unwaited l = {} \<and> ended l = [] \<and> finished_count st = 0
     else in_round (children l) st \<and> unwaited l \<subseteq> {..<n} \<and> (\<forall>i\<in>unwaited l. test_forks st ! i = children l ! i) \<and>
       distinct (map fst (ended l)) \<and> fst ` set (ended l) \<subseteq> {..<n} \<and>
       finished_count st = card {i. i < n \<and> test_forks st ! i = 0} \<and>
       (finished_count st = n \<longrightarrow> response_final_score st = final_score st \<and> daemon_check_first_all_devices st) \<and>
       (phase l = Timing \<longrightarrow> (\<forall>i < n. test_forks st ! i = 0 \<longleftrightarrow> i \<in> fst ` set (ended l))))"

definition told :: "storage_mon \<Rightarrow> bool" where
  "told st \<longleftrightarrow> (final_score st \<noteq> 0 \<longrightarrow> response_final_score st = final_score st \<and> daemon_check_first_all_devices st)"

definition loop_inv :: "mon_loop \<Rightarrow> bool" where
  "loop_inv l \<longleftrightarrow> mon_wf (mon l) \<and> loop_timers_ok l \<and> round_inv l \<and> told (mon l) \<and>
     final_score (mon l) = round_value l \<and> \<not> crashed l"

section \<open>What a callback leaves as it is\<close>

lemma handled_quiet: "requests st = requests (mon l) \<Longrightarrow> handled st l = l\<lparr>mon := st\<rparr>"
  by (simp add: handled_def)

lemma handled_asks: "requests st = requests (mon l) @ rs \<Longrightarrow> handled st l = fold serve rs (l\<lparr>mon := st\<rparr>)"
  by (simp add: handled_def)

lemma mon_handled: "mon (handled st l) = st"
proof -
  have "mon (serve r k) = mon k" for r k by (cases "(r, k)" rule: serve.cases) simp_all
  then have "mon (fold serve rs k) = mon k" for rs k by (induction rs arbitrary: k) simp_all
  then show ?thesis by (simp add: handled_def)
qed

lemma fork_loop_forks: "\<exists>f. fork_loop i pids st = st\<lparr>test_forks := f\<rparr>"
proof (induction i pids st rule: fork_loop.induct)
  case (1 i st)
  show ?case by (rule exI[of _ "test_forks st"]) simp
next
  case (2 i pid pids st)
  then show ?case by (cases "i < device_count st"; cases "pid < 0") (auto simp: Let_def intro: exI[of _ "test_forks st"])
qed

lemma start_round_forks: "\<exists>f. start_round pids st = st\<lparr>final_score := 0, finished_count := 0, test_forks := f\<rparr>"
proof -
  obtain f where "start_round pids st = (st\<lparr>final_score := 0, finished_count := 0, test_forks := replicate MAX_DEVICES 0\<rparr>)\<lparr>test_forks := f\<rparr>"
    unfolding start_round_def using fork_loop_forks by blast
  then show ?thesis by auto
qed

definition same_options :: "storage_mon \<Rightarrow> storage_mon \<Rightarrow> bool" where
  "same_options st st' \<longleftrightarrow> devices st' = devices st \<and> scores st' = scores st \<and> timeout st' = timeout st \<and>
     timer_interval st' = timer_interval st \<and> shutting_down st' = shutting_down st \<and> requests st' = requests st"

lemma same_options_trans: "same_options a b \<Longrightarrow> same_options b c \<Longrightarrow> same_options a c"
  by (simp add: same_options_def)

lemma reap_child_setup: "same_options st (snd (reap_child running w st)) \<and> (told st \<longrightarrow> told (snd (reap_child running w st)))"
  by (cases w) (auto simp: reap_child_def same_options_def told_def handler_defs)

lemma reap_loop_setup: "same_options st (snd (reap_loop running ws st)) \<and> (told st \<longrightarrow> told (snd (reap_loop running ws st)))"
proof (induction ws arbitrary: st)
  case Nil
  then show ?case by (simp add: same_options_def)
next
  case (Cons w ws)
  obtain r s1 where "reap_child running w st = (r, s1)" by (cases "reap_child running w st")
  with reap_child_setup[of st running w] Cons.IH[of s1] show ?case
    by (cases r) (auto simp: and_then_def intro: same_options_trans)
qed

lemma timeout_setup: "same_options st (child_timeout_handler st) \<and> (told st \<longrightarrow> told (child_timeout_handler st)) \<and>
    (response_final_score st = final_score st \<longrightarrow> response_final_score (child_timeout_handler st) = final_score (child_timeout_handler st)) \<and>
    (daemon_check_first_all_devices st \<longrightarrow> daemon_check_first_all_devices (child_timeout_handler st))"
  by (simp add: child_timeout_handler_def add_scores_fold same_options_def told_def)

lemma sigterm_asks:
  "\<exists>k. sigterm_handler st = st\<lparr>shutting_down := True, killed := k, requests := requests st @ [Timer_Del, Timer_Add 0 (Test_Timer False)]\<rparr>"
proof -
  have "\<exists>k. fold (\<lambda>i s. if test_forks s ! i > 0 then stop_child (test_forks s ! i) SIGTERM s else s) is s = s\<lparr>killed := k\<rparr>" for "is" s
  proof (induction "is" arbitrary: s)
    case Nil
    show ?case by (rule exI[of _ "killed s"]) simp
  next
    case (Cons i "is")
    then show ?case
    proof (cases "test_forks s ! i > 0")
      case True
      obtain k where "fold (\<lambda>i s. if test_forks s ! i > 0 then stop_child (test_forks s ! i) SIGTERM s else s) is (stop_child (test_forks s ! i) SIGTERM s)
          = (stop_child (test_forks s ! i) SIGTERM s)\<lparr>killed := k\<rparr>" using Cons by blast
      with True show ?thesis by (auto simp: stop_child_def)
    qed simp
  qed
  then obtain k where k: "fold (\<lambda>i s. if test_forks s ! i > 0 then stop_child (test_forks s ! i) SIGTERM s else s) [0..<device_count st]
      (st\<lparr>shutting_down := True, requests := requests st @ [Timer_Del]\<rparr>) = (st\<lparr>shutting_down := True, requests := requests st @ [Timer_Del]\<rparr>)\<lparr>killed := k\<rparr>"
    by blast
  show ?thesis
  proof (cases "is_child_runnning (st\<lparr>shutting_down := True, requests := requests st @ [Timer_Del]\<rparr>)")
    case True
    with k show ?thesis by (intro exI[of _ k]) (simp add: sigterm_handler_def Let_def)
  next
    case False
    then show ?thesis by (intro exI[of _ "killed st"]) (simp add: sigterm_handler_def Let_def)
  qed
qed

section \<open>Children and the score\<close>

lemma reap_signalled: "reap_loop running (wait_results pids ws) st = reap_loop running (exits pids (exited ws)) st"
proof (induction ws arbitrary: st)
  case (Cons w ws)
  obtain i r where w: "w = (i, r)" by (cases w)
  show ?case
  proof (cases r)
    case None
    have "exits pids (exited (w # ws)) = exits pids (exited ws)" using w None by (simp add: exited_def map_filter_simps)
    moreover have "wait_results pids (w # ws) = Not_Exited (pids ! i) # wait_results pids ws" using w None by (simp add: wait_results_def)
    ultimately show ?thesis using Cons by (simp add: reap_child_def and_then_def)
  next
    case (Some c)
    have "exits pids (exited (w # ws)) = Exited (pids ! i) c # exits pids (exited ws)"
      using w Some by (simp add: exited_def map_filter_simps exits_def)
    moreover have "wait_results pids (w # ws) = Exited (pids ! i) c # wait_results pids ws" using w Some by (simp add: wait_results_def)
    ultimately show ?thesis using Cons by (simp add: and_then_def split: prod.split result.split)
  qed
qed (simp add: wait_results_def exited_def exits_def map_filter_simps)

lemma exited_fst: "fst ` set (exited ws) \<subseteq> fst ` set ws" "distinct (map fst ws) \<Longrightarrow> distinct (map fst (exited ws))"
proof -
  have s: "fst ` set (exited vs) \<subseteq> fst ` set vs" for vs
    by (induction vs) (auto simp: exited_def map_filter_simps split: option.splits)
  then show "fst ` set (exited ws) \<subseteq> fst ` set ws" .
  show "distinct (map fst (exited ws))" if "distinct (map fst ws)"
    using that
  proof (induction ws)
    case (Cons w ws)
    obtain i r where "w = (i, r)" by (cases w)
    with Cons s[of ws] show ?case by (cases r) (auto simp: exited_def map_filter_simps)
  qed (simp add: exited_def map_filter_simps)
qed

lemma timing_value:
  assumes "distinct (map fst es)" and "fst ` set es \<subseteq> {..<n}"
  shows "score_of Timing n sc es = failing sc es"
proof -
  have "(\<exists>c. map_of es i = Some c \<and> c \<noteq> 0) \<longleftrightarrow> i \<in> fst ` set es \<and> map_of es i \<noteq> Some 0" for i
    using map_of_eq_None_iff[of es i] by (cases "map_of es i") auto
  moreover have "\<forall>(i, c)\<in>set es. i < n" using assms(2) by force
  ultimately show ?thesis using failing_sum[OF assms(1), of n sc] by simp
qed

lemma failing_append: "failing sc (xs @ ys) = failing sc xs + failing sc ys"
  by (simp add: failing_def)

section \<open>Every step keeps the invariant\<close>

lemma loop_invD:
  assumes "loop_inv l"
  shows "mon_wf (mon l)" "loop_timers_ok l" "round_inv l" "told (mon l)" "final_score (mon l) = round_value l" "\<not> crashed l"
  using assms by (auto simp: loop_inv_def)

lemma inv_pass: "loop_inv l \<Longrightarrow> loop_inv (l\<lparr>loop_time := t\<rparr>)"
  by (simp add: loop_inv_def loop_timers_ok_def round_inv_def round_value_def Let_def)

lemma wf_setup: "mon_wf st \<Longrightarrow> same_options st st' \<Longrightarrow> length (test_forks st') = MAX_DEVICES \<Longrightarrow> mon_wf st'"
  by (simp add: mon_wf_def same_options_def)

lemma inv_expire:
  assumes "loop_inv l" and "(h, due) \<in> set (expire_timers l)"
  shows "loop_inv (fire_expire h l)"
proof -
  let ?st = "mon l" and ?st' = "child_timeout_handler (mon l)"
  note inv = loop_invD[OF assms(1)]
  have p: "phase l = Timing" using inv(2) assms(2) by (auto simp: loop_timers_ok_def split: if_splits)
  then have e: "filter (\<lambda>(h', _). h' \<noteq> h) (expire_timers l) = []" using inv(2) assms(2) by (auto simp: loop_timers_ok_def)
  note s = timeout_setup[of ?st]
  have l': "fire_expire h l = l\<lparr>expire_timers := [], phase := Expired, mon := ?st'\<rparr>"
    using s e by (simp add: fire_expire_def handled_quiet same_options_def)
  have r: "in_round (children l) ?st" "\<forall>i < device_count ?st. test_forks ?st ! i = 0 \<longleftrightarrow> i \<in> fst ` set (ended l)"
    "distinct (map fst (ended l))" "fst ` set (ended l) \<subseteq> {..<device_count ?st}"
    using inv(3) p by (simp_all add: round_inv_def Let_def)
  note f = timeout_round[OF r(1)]
  have "(\<Sum>i<device_count ?st. if test_forks ?st ! i \<noteq> 0 then scores ?st ! i else 0) =
      (\<Sum>i<device_count ?st. if i \<notin> fst ` set (ended l) then scores ?st ! i else 0)"
    using r(2) by (intro sum.cong) auto
  moreover have "final_score ?st = failing (scores ?st) (ended l)"
    using inv(5) p timing_value[OF r(3,4)] by (simp add: round_value_def del: score_of.simps)
  moreover have "\<forall>ic\<in>set (ended l). fst ic < device_count ?st" using r(4) by auto
  ultimately have "final_score ?st' = round_value (fire_expire h l)"
    using f(1,4,5) round_sum[OF r(3), of "device_count ?st" "scores ?st"] unfolding l' by (simp add: round_value_def cong: if_cong)
  moreover have "round_inv (fire_expire h l)"
    using inv(3) p f s unfolding l' by (auto simp: round_inv_def Let_def)
  moreover have "loop_timers_ok (fire_expire h l)" using inv(2) p s unfolding l' by (auto simp: loop_timers_ok_def same_options_def)
  moreover have "mon_wf ?st'" by (rule wf_setup[OF inv(1) conjunct1[OF s]]) (use f(3) inv(1) in \<open>simp add: mon_wf_def\<close>)
  ultimately show ?thesis using inv(4,6) s unfolding l' by (simp add: loop_inv_def)
qed

text \<open>After children ended: what the handler does to the arrays and the score.\<close>

lemma sigchld_round:
  assumes "in_round pids st" and "distinct (map fst ws)" and "fst ` set ws \<subseteq> {..<device_count st}"
    and "\<forall>i\<in>fst ` set ws. test_forks st ! i = pids ! i"
  shows "\<exists>st'. sigchld_handler running (wait_results pids ws) st = (Ret (), st') \<and> in_round pids st' \<and> same_options st st' \<and>
    (told st \<longrightarrow> told st') \<and> reaped running (exited ws) st st' \<and> (exited ws = [] \<longrightarrow> st' = st)"
proof -
  have k: "\<forall>(i, c)\<in>set (exited ws). i < device_count st \<and> test_forks st ! i = pids ! i"
    using assms(3,4) exited_fst(1)[of ws] by force
  obtain st' where st': "reap_loop running (exits pids (exited ws)) st = (Ret (), st')" "in_round pids st'" "reaped running (exited ws) st st'"
    using reap_all[OF assms(1) exited_fst(2)[OF assms(2)] k] by blast
  have "sigchld_handler running (wait_results pids ws) st = sigchld_handler running (exits pids (exited ws)) st"
    by (simp add: sigchld_handler_def reap_signalled)
  also have "\<dots> = (Ret (), st')" using sigchld_reaps[OF assms(1) k] st'(1) by simp
  finally show ?thesis using st' reap_loop_setup[of st running "exits pids (exited ws)"] by (auto simp: exits_def)
qed

lemma round_running: "in_round pids st \<Longrightarrow> i < device_count st \<Longrightarrow> test_forks st ! i = pids ! i \<Longrightarrow> test_forks st ! i \<noteq> 0"
  using nth_mem[of i pids] by (force simp: in_round_def)

lemma reaped_card:
  assumes "reaped running es st st'" and "distinct (map fst es)" and "fst ` set es \<subseteq> {i. i < device_count st \<and> test_forks st ! i \<noteq> 0}"
  shows "card {i. i < device_count st' \<and> test_forks st' ! i = 0} = card {i. i < device_count st \<and> test_forks st ! i = 0} + length es"
proof -
  have "{i. i < device_count st' \<and> test_forks st' ! i = 0} = {i. i < device_count st \<and> test_forks st ! i = 0} \<union> fst ` set es"
    using assms(1,3) by (auto simp: reaped_def split: if_splits)
  moreover have "card ({i. i < device_count st \<and> test_forks st ! i = 0} \<union> fst ` set es) =
      card {i. i < device_count st \<and> test_forks st ! i = 0} + card (fst ` set es)"
    using assms(3) by (intro card_Un_disjoint) auto
  moreover have "card (fst ` set es) = length es" using distinct_card[OF assms(2)] by simp
  ultimately show ?thesis by simp
qed

lemma inv_chld:
  assumes "loop_inv l" and "distinct (map fst ws)" and "fst ` set ws \<subseteq> unwaited l"
  shows "loop_inv (take_sigchld ws l)"
proof (cases "phase l = No_Round")
  case True
  note inv = loop_invD[OF assms(1)]
  have "ws = []" using inv(3) True assms(3) by (auto simp: round_inv_def Let_def)
  then have "take_sigchld ws l = l\<lparr>crashed := False\<rparr>"
    by (simp add: take_sigchld_def sigchld_handler_def wait_results_def exited_def handled_quiet map_filter_simps)
  with inv show ?thesis by (simp add: loop_inv_def loop_timers_ok_def round_inv_def round_value_def Let_def)
next
  case False
  let ?st = "mon l" and ?es = "exited ws"
  note inv = loop_invD[OF assms(1)]
  have r: "in_round (children l) ?st" "unwaited l \<subseteq> {..<device_count ?st}" "\<forall>i\<in>unwaited l. test_forks ?st ! i = children l ! i"
    "distinct (map fst (ended l))" "fst ` set (ended l) \<subseteq> {..<device_count ?st}"
    "finished_count ?st = card {i. i < device_count ?st \<and> test_forks ?st ! i = 0}"
    using inv(3) False by (simp_all add: round_inv_def Let_def)
  obtain st' where st': "sigchld_handler (expire_running l) (wait_results (children l) ws) ?st = (Ret (), st')" "in_round (children l) st'"
    "same_options ?st st'" "told ?st \<longrightarrow> told st'" "reaped (expire_running l) ?es ?st st'" "?es = [] \<longrightarrow> st' = ?st"
    using sigchld_round[OF r(1) assms(2)] assms(3) r(2,3) by blast
  let ?l = "l\<lparr>crashed := False, unwaited := unwaited l - fst ` set ws, ended := (if phase l = Timing then ended l @ ?es else ended l), mon := st'\<rparr>"
  have l': "take_sigchld ws l = ?l" using st'(1,3) by (simp add: take_sigchld_def handled_quiet same_options_def)
  have e: "fst ` set ?es \<subseteq> unwaited l" "distinct (map fst ?es)" using exited_fst[of ws] assms(2,3) by auto
  have n: "\<forall>i\<in>fst ` set ?es. i < device_count ?st \<and> test_forks ?st ! i \<noteq> 0"
    using e(1) r(2,3) round_running[OF r(1)] by blast
  then have n': "fst ` set ?es \<subseteq> {i. i < device_count ?st \<and> test_forks ?st ! i \<noteq> 0}" by blast
  have x: "expire_running l \<longleftrightarrow> phase l = Timing" using inv(2) by (auto simp: loop_timers_ok_def expire_running_def split: if_splits)
  have q: "devices st' = devices ?st" "scores st' = scores ?st" "finished_count st' = finished_count ?st + length ?es"
    "final_score st' = final_score ?st + (if phase l = Timing then failing (scores ?st) ?es else 0)"
    "\<forall>i < device_count ?st. test_forks st' ! i = (if i \<in> fst ` set ?es then 0 else test_forks ?st ! i)"
    "?es \<noteq> [] \<and> finished_count st' = device_count ?st \<longrightarrow> response_final_score st' = final_score st' \<and> daemon_check_first_all_devices st'"
    using st'(5) x by (auto simp: reaped_def)
  have d: "distinct (map fst (ended l @ ?es))" "fst ` set (ended l @ ?es) \<subseteq> {..<device_count ?st}" if "phase l = Timing"
  proof -
    have "\<forall>i < device_count ?st. test_forks ?st ! i = 0 \<longleftrightarrow> i \<in> fst ` set (ended l)" using inv(3) that by (simp add: round_inv_def Let_def)
    with n have "fst ` set (ended l) \<inter> fst ` set ?es = {}" by blast
    with e(2) r(4) show "distinct (map fst (ended l @ ?es))" by simp
    show "fst ` set (ended l @ ?es) \<subseteq> {..<device_count ?st}" using n r(5) by auto
  qed
  have "round_value ?l = final_score st'"
  proof (cases "phase l = Timing")
    case True
    from timing_value[OF d[OF this]] timing_value[OF r(4,5)] show ?thesis
      using True inv(5) q(1,2,4) by (simp add: round_value_def failing_append del: score_of.simps)
  next
    case False
    with inv(5) q(1,2,4) show ?thesis by (simp add: round_value_def)
  qed
  moreover have "round_inv ?l"
  proof -
    have "finished_count st' = card {i. i < device_count st' \<and> test_forks st' ! i = 0}"
      using reaped_card[OF st'(5) e(2) n'] r(6) q(3) by simp
    moreover have "\<forall>i\<in>unwaited l - fst ` set ws. test_forks st' ! i = children l ! i"
      using q(5) r(2,3) exited_fst(1)[of ws] by (metis DiffE lessThan_iff subsetD)
    moreover have "finished_count st' = device_count st' \<longrightarrow> response_final_score st' = final_score st' \<and> daemon_check_first_all_devices st'"
      using q(1,6) st'(6) inv(3) False by (cases "?es = []") (auto simp: round_inv_def Let_def)
    moreover have "\<forall>i < device_count st'. test_forks st' ! i = 0 \<longleftrightarrow> i \<in> fst ` set (ended l @ ?es)" if "phase l = Timing"
      using that inv(3) q(1,5) by (auto simp: round_inv_def Let_def)
    ultimately show ?thesis using False st'(2) r(2,4,5) d q(1) by (auto simp: round_inv_def Let_def)
  qed
  moreover have "loop_timers_ok ?l" using inv(2) st'(3) by (auto simp: loop_timers_ok_def same_options_def)
  moreover have "mon_wf st'" using wf_setup[OF inv(1) st'(3)] st'(2) by (simp add: in_round_def)
  ultimately show ?thesis unfolding l' using st'(4) inv(4) by (simp add: loop_inv_def)
qed

text \<open>A callback that only asks the loop for something.\<close>

definition only_asked :: "storage_mon \<Rightarrow> storage_mon \<Rightarrow> bool" where
  "only_asked st st' \<longleftrightarrow> (\<exists>sh k r. st' = st\<lparr>shutting_down := sh, killed := k, requests := r\<rparr>)"

lemma only_requests: "only_asked st (st\<lparr>requests := r\<rparr>)"
  unfolding only_asked_def by (intro exI[of _ "shutting_down st"] exI[of _ "killed st"] exI[of _ r]) simp

lemma inv_asked:
  assumes "loop_inv l" and "loop_timers_ok l'" and "only_asked (mon l) (mon l')"
    and "children l' = children l" "unwaited l' = unwaited l" "ended l' = ended l" "phase l' = phase l" "crashed l' = crashed l"
  shows "loop_inv l'"
proof -
  note inv = loop_invD[OF assms(1)]
  obtain sh k r where m: "mon l' = (mon l)\<lparr>shutting_down := sh, killed := k, requests := r\<rparr>" using assms(3) by (auto simp: only_asked_def)
  have "round_inv l'" using inv(3) m assms(4-7) by (cases "phase l = No_Round") (simp_all add: round_inv_def Let_def in_round_def)
  with inv assms m show ?thesis by (simp add: loop_inv_def mon_wf_def told_def round_value_def)
qed

lemma inv_term:
  assumes "loop_inv l" and "\<not> stopped l"
  shows "loop_inv (handled (sigterm_handler (mon l)) l)"
proof -
  note inv = loop_invD[OF assms(1)]
  obtain k where k: "sigterm_handler (mon l) = (mon l)\<lparr>shutting_down := True, killed := k,
      requests := requests (mon l) @ [Timer_Del, Timer_Add 0 (Test_Timer False)]\<rparr>"
    using sigterm_asks by blast
  let ?st = "(mon l)\<lparr>shutting_down := True, killed := k, requests := requests (mon l) @ [Timer_Del, Timer_Add 0 (Test_Timer False)]\<rparr>"
  have t: "filter (\<lambda>(h, _). h \<noteq> timer_handle l) (test_timers l) = []" using inv(2) assms(2) by (auto simp: loop_timers_ok_def)
  have l': "handled (sigterm_handler (mon l)) l = l\<lparr>mon := ?st, test_timers := [(next_handle l, loop_time l, False)],
      timer_handle := next_handle l, next_handle := next_handle l + 1\<rparr>"
    unfolding k using t by (simp add: handled_asks[where rs = "[Timer_Del, Timer_Add 0 (Test_Timer False)]"])
  show ?thesis unfolding l' using inv(2) assms(2) by (intro inv_asked[OF assms(1)]) (auto simp: loop_timers_ok_def only_asked_def)
qed

lemma all_finished: "\<not> is_child_runnning st \<Longrightarrow> card {i. i < device_count st \<and> test_forks st ! i = 0} = device_count st"
proof -
  assume "\<not> is_child_runnning st"
  then have "{i. i < device_count st \<and> test_forks st ! i = 0} = {..<device_count st}"
    unfolding is_child_runnning_def list_ex_iff by fastforce
  then show ?thesis by simp
qed

text \<open>A test timer fires: the loop ends, or a round starts, or the children of the last round still run.\<close>

lemma inv_stop:
  assumes "loop_inv l" and "(h, due, b) \<in> set (test_timers l)" and "shutting_down (mon l)"
  shows "loop_inv (fire_test h b pids l)" "stopped (fire_test h b pids l)" "test_forks (mon (fire_test h b pids l)) = test_forks (mon l)"
proof -
  note inv = loop_invD[OF assms(1)]
  have t: "filter (\<lambda>(h', _). h' \<noteq> h) (test_timers l) = []" using inv(2) assms(2) by (auto simp: loop_timers_ok_def)
  have l': "fire_test h b pids l = l\<lparr>test_timers := [], mon := (mon l)\<lparr>requests := requests (mon l) @ [Loop_Stop]\<rparr>, stopped := True\<rparr>"
    using t assms(3) by (simp add: fire_test_def wrap_test_device_main_def test_device_main_daemon_def handled_asks[where rs = "[Loop_Stop]"])
  show "loop_inv (fire_test h b pids l)" unfolding l' using inv(2) assms(3)
    by (intro inv_asked[OF assms(1)]) (auto simp: loop_timers_ok_def only_requests)
  show "stopped (fire_test h b pids l)" "test_forks (mon (fire_test h b pids l)) = test_forks (mon l)" unfolding l' by simp_all
qed

lemma inv_skip:
  assumes "loop_inv l" and "(h, due, b) \<in> set (test_timers l)" and "due \<le> loop_time l" and "\<forall>(_, due')\<in>set (expire_timers l). due \<le> due'"
    and "\<not> shutting_down (mon l)" and "is_child_runnning (mon l)"
  shows "loop_inv (fire_test h b pids l)"
proof -
  note inv = loop_invD[OF assms(1)]
  have t: "filter (\<lambda>(h', _). h' \<noteq> h) (test_timers l) = []" "b" "\<forall>(_, d')\<in>set (expire_timers l). d' < due"
    using inv(2) assms(2,5) by (auto simp: loop_timers_ok_def)
  have e: "expire_timers l = []" using t(3) assms(4) by (cases "expire_timers l") auto
  let ?rs = "[Timer_Add (timer_interval (mon l)) (Test_Timer True)]"
  have l': "fire_test h b pids l = l\<lparr>mon := (mon l)\<lparr>requests := requests (mon l) @ ?rs\<rparr>,
      test_timers := [(next_handle l, loop_time l + timer_interval (mon l), True)], timer_handle := next_handle l, next_handle := next_handle l + 1\<rparr>"
    using t(1,2) assms(5,6) by (simp add: fire_test_def wrap_test_device_main_def test_device_main_daemon_def Let_def handled_asks[where rs = ?rs])
  show ?thesis unfolding l' using inv(2) assms(5) e
    by (intro inv_asked[OF assms(1)]) (auto simp: loop_timers_ok_def only_requests)
qed

lemma inv_round:
  assumes "loop_inv l" and "(h, due, b) \<in> set (test_timers l)" and "\<forall>(_, due')\<in>set (expire_timers l). due \<le> due'"
    and "\<not> shutting_down (mon l)" and "\<not> is_child_runnning (mon l)"
    and "length pids = device_count (mon l)" and "distinct pids" and "\<forall>p\<in>set pids. p > 0"
  shows "loop_inv (fire_test h b pids l)"
proof -
  note inv = loop_invD[OF assms(1)]
  have t: "filter (\<lambda>(h', _). h' \<noteq> h) (test_timers l) = []" "b" "\<forall>(_, d')\<in>set (expire_timers l). d' < due"
    using inv(2) assms(2,4) by (auto simp: loop_timers_ok_def)
  have e: "expire_timers l = []" using t(3) assms(3) by (cases "expire_timers l") auto
  have g: "\<not> stopped l" using inv(2) assms(4) by (auto simp: loop_timers_ok_def)
  let ?st = "start_round pids (mon l)"
  obtain f where f: "?st = (mon l)\<lparr>final_score := 0, finished_count := 0, test_forks := f\<rparr>" using start_round_forks by blast
  let ?rs = "[Timer_Add (timeout (mon l)) Expire_Timer, Timer_Add (timer_interval (mon l)) (Test_Timer True)]"
  let ?m = "(mon l)\<lparr>final_score := 0, finished_count := 0, test_forks := f, requests := requests (mon l) @ ?rs\<rparr>"
  have l': "fire_test h b pids l = l\<lparr>mon := ?m, children := pids, unwaited := {..<device_count (mon l)}, ended := [], phase := Timing,
      expire_timers := [(next_handle l, loop_time l + timeout (mon l))], expire_handle := next_handle l,
      test_timers := [(next_handle l + 1, loop_time l + timer_interval (mon l), True)], timer_handle := next_handle l + 1, next_handle := next_handle l + 2\<rparr>"
    using t(1,2) e assms(4,5)
    by (simp add: fire_test_def wrap_test_device_main_def test_device_main_daemon_def Let_def f handled_asks[where rs = ?rs])
  have n: "device_count (mon l) \<le> MAX_DEVICES" "0 < device_count (mon l)" using inv(1) by (simp_all add: mon_wf_def)
  note r = start_round_in_round[OF assms(6) n(1) assms(7,8)]
  have z: "test_forks ?m ! i = pids ! i" "pids ! i > 0" if "i < device_count (mon l)" for i
    using r(6) that f assms(6,8) by auto
  then have "{i. i < device_count ?m \<and> test_forks ?m ! i = 0} = {}" by fastforce
  moreover have "in_round pids ?m" using r(1) by (simp add: f in_round_def)
  ultimately have "round_inv (fire_test h b pids l)" unfolding l' using z n(2) by (fastforce simp: round_inv_def Let_def)
  moreover have "loop_timers_ok (fire_test h b pids l)" unfolding l' using assms(4) g inv(1) by (simp add: loop_timers_ok_def mon_wf_def)
  moreover have "mon_wf ?m" using inv(1) r(1) by (simp add: mon_wf_def f in_round_def)
  ultimately show ?thesis unfolding l' using inv(6) by (simp add: loop_inv_def round_value_def told_def)
qed

interpretation loop: step_invariant loop_step loop_inv
proof unfold_locales
  fix l l' assume "loop_inv l" and "loop_step l l'"
  from this(2,1) show "loop_inv l'"
  proof cases
    case (loop_test h due b pids)
    with \<open>loop_inv l\<close> show ?thesis
      by (cases "shutting_down (mon l)"; cases "is_child_runnning (mon l)") (auto intro: inv_stop(1) inv_skip inv_round)
  qed (auto intro: inv_pass inv_expire inv_chld inv_term)
qed

section \<open>From the command line on\<close>

lemma options_no_fault: "fst (smon_options es a) \<noteq> Fault"
proof (induction es arbitrary: a)
  case (Cons e es)
  obtain c n x where e: "e = (c, n, x)" by (cases e)
  have "fst (smon_option e a) \<noteq> Fault" by (simp add: e smon_option_def long_only_def Let_def)
  with Cons show ?case by (cases "smon_option e a"; cases "fst (smon_option e a)") (auto simp: and_then_def)
qed simp

lemma daemon_boots:
  assumes "storage_mon_main env args = (None, st)" and "daemonize st" and "timeout st < timer_interval st"
  shows "loop_inv (loop_boot st)"
proof -
  obtain r a where a: "smon_options (fst (getopt_long_all ''hvt:d:s:i:p:a:'' smon_long_options args)) (default_args (run_dir env)) = (r, a)"
    by (meson surj_pair)
  with options_no_fault[of _ "default_args (run_dir env)"] have "r \<noteq> Fault" by (metis fst_conv)
  with assms(1) a have r: "r = Ret ()" "storage_mon_run env a = (None, st)" by (cases r; auto simp: storage_mon_main_def)+
  have ok: "args_ok a" using smon_options_ok[OF _ default_args_ok] a r(1) by blast
  from r(2) assms(2) have g: "arg_devices a \<noteq> []" "length (arg_devices a) = length (arg_scores a)"
    "st = (initial_mon a)\<lparr>timer_interval := arg_interval a, requests := [Timer_Add 0 (Test_Timer True)]\<rparr>"
    by (auto simp: storage_mon_run_def storage_mon_daemon_def initial_mon_def Let_def split: if_splits option.splits)
  have "arg_scores a \<noteq> []" using g(1,2) by auto
  then show "loop_inv (loop_boot st)" using g ok assms(3)
    by (simp add: loop_boot_def initial_mon_def args_ok_def loop_inv_def mon_wf_def loop_timers_ok_def round_inv_def told_def round_value_def Let_def)
qed

lemma loop_reachable:
  "storage_mon_main env args = (None, st) \<Longrightarrow> daemonize st \<Longrightarrow> timeout st < timer_interval st \<Longrightarrow>
   loop_step\<^sup>*\<^sup>* (loop_boot st) l \<Longrightarrow> loop_inv l"
  using loop.steps_inv daemon_boots by blast

section \<open>An example\<close>

definition demo_daemon_args :: "string list" where
  "demo_daemon_args = [''--daemonize'', ''-d'', ''/dev/sda'', ''-s'', show_int 3]"

definition demo_daemon_mon :: storage_mon where
  "demo_daemon_mon = \<lparr>devices = [''/dev/sda''], scores = [3], timeout = 10, timer_interval = 30, daemonize = True,
     shutting_down = False, final_score = 0, response_final_score = 0, test_forks = replicate MAX_DEVICES 0,
     finished_count = 0, daemon_check_first_all_devices = False, requests = [Timer_Add 0 (Test_Timer True)], killed = []\<rparr>"

lemma demo_daemon_starts:
  "storage_mon_main demo_smon_env demo_daemon_args = (None, demo_daemon_mon)" "daemonize demo_daemon_mon"
  "timeout demo_daemon_mon < timer_interval demo_daemon_mon"
proof -
  have "fst (getopt_long_all ''hvt:d:s:i:p:a:'' smon_long_options demo_daemon_args)
      = [(NUL, ''daemonize'', []), (CHR ''d'', [], ''/dev/sda''), (CHR ''s'', [], show_int 3)]"
    by (simp add: Let_def demo_daemon_args_def smon_long_options_def getopt_long_one_def long_match_def)
  moreover have "atoi (show_int 3) = 3" by (rule atoi_show_int) (simp_all add: INT_MAX_def)
  ultimately have "smon_options (fst (getopt_long_all ''hvt:d:s:i:p:a:'' smon_long_options demo_daemon_args)) (default_args (run_dir demo_smon_env)) =
      (Ret (), (default_args ''/run/'')\<lparr>arg_devices := [''/dev/sda''], arg_scores := [3], arg_daemonize := True\<rparr>)"
    by (simp add: smon_option_def long_only_def demo_smon_env_def default_args_def MAX_DEVICES_def and_then_def Let_def)
  then show "storage_mon_main demo_smon_env demo_daemon_args = (None, demo_daemon_mon)"
    by (simp add: storage_mon_main_def storage_mon_run_def storage_mon_daemon_def initial_mon_def default_args_def demo_smon_env_def
        demo_daemon_mon_def DEFAULT_TIMEOUT_def DEFAULT_INTERVAL_def Let_def)
  show "daemonize demo_daemon_mon" "timeout demo_daemon_mon < timer_interval demo_daemon_mon" by (simp_all add: demo_daemon_mon_def)
qed

text \<open>The only device is tested and its child fails, or is killed.\<close>

definition demo_round :: mon_loop where
  "demo_round = fire_test 1 True [100] (loop_boot demo_daemon_mon)"

definition demo_loop :: mon_loop where
  "demo_loop = take_sigchld [(0, Some 1)] demo_round"

definition demo_killed :: mon_loop where
  "demo_killed = take_sigchld [(0, None)] demo_round"

lemma demo_round_facts:
  "unwaited demo_round = {0}" "\<not> stopped demo_round" "phase demo_round = Timing" "ended demo_round = []" "children demo_round = [100]"
  "test_forks (mon demo_round) ! 0 = 100" "devices (mon demo_round) = [''/dev/sda'']" "scores (mon demo_round) = [3]"
  "length (test_forks (mon demo_round)) = MAX_DEVICES" "loop_step (loop_boot demo_daemon_mon) demo_round"
proof -
  have b: "loop_boot demo_daemon_mon = \<lparr>mon = demo_daemon_mon, loop_time = 0, test_timers = [(1, 0, True)], expire_timers = [], timer_handle = 1,
      expire_handle = 0, next_handle = 2, stopped = False, crashed = False, children = [], unwaited = {}, ended = [], phase = No_Round\<rparr>"
    by (simp add: loop_boot_def demo_daemon_mon_def)
  show "loop_step (loop_boot demo_daemon_mon) demo_round"
    unfolding demo_round_def b by (rule loop_test[where due = 0]) (simp_all add: demo_daemon_mon_def)
  show "unwaited demo_round = {0}" "\<not> stopped demo_round" "phase demo_round = Timing" "ended demo_round = []" "children demo_round = [100]"
    "test_forks (mon demo_round) ! 0 = 100" "devices (mon demo_round) = [''/dev/sda'']" "scores (mon demo_round) = [3]"
    "length (test_forks (mon demo_round)) = MAX_DEVICES"
    unfolding demo_round_def b by (simp_all add: fire_test_def demo_daemon_mon_def is_child_runnning_def wrap_test_device_main_def
        test_device_main_daemon_def start_round_def Let_def handled_def lessThan_Suc MAX_DEVICES_def)
qed

lemma demo_reached: "loop_step\<^sup>*\<^sup>* (loop_boot demo_daemon_mon) (take_sigchld [(0, r)] demo_round)"
proof -
  have "loop_step demo_round (take_sigchld [(0, r)] demo_round)" using demo_round_facts by (intro loop_chld) simp_all
  then show ?thesis using demo_round_facts(10) by (simp add: converse_rtranclp_into_rtranclp)
qed

lemma demo_chld:
  "\<exists>st. take_sigchld [(0, r)] demo_round = demo_round\<lparr>crashed := False, unwaited := {}, ended := exited [(0, r)], mon := st\<rparr> \<and>
     devices st = [''/dev/sda''] \<and> scores st = [3] \<and> (r = None \<longrightarrow> st = mon demo_round)"
proof -
  note l = demo_round_facts
  have i: "in_round [100] (mon demo_round)" using l by (simp add: in_round_def MAX_DEVICES_def)
  obtain st where st: "sigchld_handler (expire_running demo_round) (wait_results [100] [(0, r)]) (mon demo_round) = (Ret (), st)"
    "same_options (mon demo_round) st" "exited [(0, r)] = [] \<longrightarrow> st = mon demo_round"
    using sigchld_round[OF i, of "[(0, r)]"] l by auto
  then have "take_sigchld [(0, r)] demo_round = demo_round\<lparr>crashed := False, unwaited := {}, ended := exited [(0, r)], mon := st\<rparr>"
    using l by (simp add: take_sigchld_def handled_quiet same_options_def)
  moreover have "r = None \<longrightarrow> exited [(0, r)] = []" by (simp add: exited_def map_filter_simps)
  ultimately show ?thesis using l st by (intro exI[of _ st]) (auto simp: same_options_def)
qed

lemma demo_loop_facts:
  "loop_step\<^sup>*\<^sup>* (loop_boot demo_daemon_mon) demo_loop" "phase demo_loop = Timing" "ended demo_loop = [(0, 1)]"
  "device_count (mon demo_loop) = 1" "scores (mon demo_loop) = [3]" "\<not> stopped demo_loop"
proof -
  show "loop_step\<^sup>*\<^sup>* (loop_boot demo_daemon_mon) demo_loop" unfolding demo_loop_def by (rule demo_reached)
  obtain st where d: "demo_loop = demo_round\<lparr>crashed := False, unwaited := {}, ended := exited [(0, Some 1)], mon := st\<rparr>"
    "devices st = [''/dev/sda'']" "scores st = [3]"
    using demo_chld[of "Some 1"] unfolding demo_loop_def by auto
  show "phase demo_loop = Timing" "ended demo_loop = [(0, 1)]" "device_count (mon demo_loop) = 1" "scores (mon demo_loop) = [3]" "\<not> stopped demo_loop"
    unfolding d(1) using demo_round_facts d(2,3) by (simp_all add: exited_def map_filter_simps)
qed

lemma demo_killed_facts:
  "loop_step\<^sup>*\<^sup>* (loop_boot demo_daemon_mon) demo_killed" "device_count (mon demo_killed) = 1" "test_forks (mon demo_killed) ! 0 = 100"
  "unwaited demo_killed = {}"
proof -
  show "loop_step\<^sup>*\<^sup>* (loop_boot demo_daemon_mon) demo_killed" unfolding demo_killed_def by (rule demo_reached)
  have d: "demo_killed = demo_round\<lparr>crashed := False, unwaited := {}, ended := exited [(0, None)], mon := mon demo_round\<rparr>"
    using demo_chld[of None] unfolding demo_killed_def by auto
  show "device_count (mon demo_killed) = 1" "test_forks (mon demo_killed) ! 0 = 100" "unwaited demo_killed = {}"
    unfolding d using demo_round_facts by simp_all
qed

section \<open>A child that ends by a signal\<close>

lemma handled_keeps: "children (handled st l) = children l" "unwaited (handled st l) = unwaited l"
proof -
  have "children (serve r k) = children k \<and> unwaited (serve r k) = unwaited k" for r k by (cases "(r, k)" rule: serve.cases) simp_all
  then have "children (fold serve rs k) = children k \<and> unwaited (fold serve rs k) = unwaited k" for rs k by (induction rs arbitrary: k) simp_all
  then show "children (handled st l) = children l" "unwaited (handled st l) = unwaited l" by (simp_all add: handled_def)
qed

text \<open>The entry of a child that was waited for and did not exit stays, and with it the children of the round.\<close>

definition stuck :: "nat \<Rightarrow> int \<Rightarrow> int list \<Rightarrow> mon_loop \<Rightarrow> bool" where
  "stuck i p cs l \<longleftrightarrow> loop_inv l \<and> i < device_count (mon l) \<and> test_forks (mon l) ! i = p \<and> p \<noteq> 0 \<and> i \<notin> unwaited l \<and> children l = cs"

lemma stuck_running: "stuck i p cs l \<Longrightarrow> is_child_runnning (mon l)"
  by (auto simp: stuck_def is_child_runnning_def list_ex_iff intro!: bexI[of _ i])

lemma skip_forks: "is_child_runnning st \<Longrightarrow> test_forks (wrap_test_device_main b pids st) = test_forks st \<and> devices (wrap_test_device_main b pids st) = devices st"
  by (simp add: wrap_test_device_main_def test_device_main_daemon_def Let_def)

lemma stuck_chld:
  assumes "stuck i p cs l" and "distinct (map fst ws)" and "fst ` set ws \<subseteq> unwaited l"
  shows "devices (mon (take_sigchld ws l)) = devices (mon l) \<and> test_forks (mon (take_sigchld ws l)) ! i = p"
proof -
  have s: "loop_inv l" "i < device_count (mon l)" "test_forks (mon l) ! i = p" "p \<noteq> 0" "i \<notin> unwaited l" using assms(1) by (auto simp: stuck_def)
  have n: "phase l \<noteq> No_Round"
    using s loop_invD(1,3)[OF s(1)] by (auto simp: round_inv_def Let_def mon_wf_def)
  then have r: "in_round (children l) (mon l)" "unwaited l \<subseteq> {..<device_count (mon l)}" "\<forall>i\<in>unwaited l. test_forks (mon l) ! i = children l ! i"
    using loop_invD(3)[OF s(1)] by (simp_all add: round_inv_def Let_def)
  obtain st' where st': "sigchld_handler (expire_running l) (wait_results (children l) ws) (mon l) = (Ret (), st')" "reaped (expire_running l) (exited ws) (mon l) st'"
    using sigchld_round[OF r(1) assms(2)] assms(3) r(2,3) by blast
  have "i \<notin> fst ` set (exited ws)" using exited_fst(1)[of ws] assms(3) s(5) by blast
  then have "devices st' = devices (mon l) \<and> test_forks st' ! i = p" using st'(2) s(2,3) by (simp add: reaped_def)
  then show ?thesis using st'(1) by (simp add: take_sigchld_def mon_handled)
qed

interpretation stuck: step_invariant loop_step "stuck i p cs" for i p cs
proof unfold_locales
  fix l l' assume s: "stuck i p cs l" and st: "loop_step l l'"
  have "loop_inv l'" using loop.step_inv[OF _ st] s by (simp add: stuck_def)
  moreover from st s have "devices (mon l') = devices (mon l) \<and> test_forks (mon l') ! i = p \<and> i \<notin> unwaited l' \<and> children l' = cs"
  proof cases
    case (loop_test h due b pids)
    then show ?thesis using s stuck_running[OF s] skip_forks[of "mon l" b pids] by (auto simp: fire_test_def stuck_def mon_handled handled_keeps)
  next
    case (loop_expire h due)
    then show ?thesis using s timeout_frame[of "mon l"] by (auto simp: fire_expire_def stuck_def mon_handled handled_keeps)
  next
    case (loop_chld ws)
    then have "devices (mon l') = devices (mon l) \<and> test_forks (mon l') ! i = p" using stuck_chld[OF s] by simp
    then show ?thesis using s loop_chld by (auto simp: take_sigchld_def stuck_def handled_keeps split: prod.split)
  next
    case loop_term
    then show ?thesis using s sigterm_frame[of "mon l"] by (auto simp: stuck_def mon_handled handled_keeps)
  qed (use s in \<open>auto simp: stuck_def\<close>)
  ultimately show "stuck i p cs l'" using s by (simp add: stuck_def)
qed

section \<open>Properties\<close>

lemma score_of_range:
  assumes "\<forall>s\<in>set sc. 1 \<le> s \<and> s \<le> (10 :: int)" and "length sc = n" and "n \<le> MAX_DEVICES"
  shows "0 \<le> score_of p n sc es \<and> score_of p n sc es \<le> 250"
proof -
  have b: "0 \<le> (\<Sum>i<n. if P i then sc ! i else 0) \<and> (\<Sum>i<n. if P i then sc ! i else 0) \<le> 250" for P
  proof -
    have s: "0 \<le> sc ! i \<and> sc ! i \<le> 10" if "i < n" for i using bspec[OF assms(1), of "sc ! i"] assms(2) that by simp
    have "(\<Sum>i<n. if P i then sc ! i else 0) \<le> (\<Sum>i<n. 10)" using s by (intro sum_mono) auto
    also have "\<dots> \<le> 250" using assms(3) by (simp add: MAX_DEVICES_def)
    finally show ?thesis using s by (auto intro!: sum_nonneg)
  qed
  have n: "(if \<not> P then x else y) = (if P then y else x)" for P and x y :: int by simp
  show ?thesis using b[of "\<lambda>i. \<exists>c. map_of es i = Some c \<and> c \<noteq> 0"] b[of "\<lambda>i. map_of es i \<noteq> Some 0"]
    by (cases p) (simp_all add: n)
qed

text \<open>
  C15. The types of the daemon's state: from the command line on, whatever callbacks run in whatever order, no access
  is outside the arrays, the counters and the score are in their ranges, and the loop has at most one timer of each
  kind, with one for the next test as long as the daemon is not told to end.
\<close>

theorem loop_types:
  assumes "storage_mon_main env args = (None, st)" and "daemonize st" and "timeout st < timer_interval st"
    and "loop_step\<^sup>*\<^sup>* (loop_boot st) l"
  shows "\<not> crashed l \<and> device_count (mon l) \<le> MAX_DEVICES \<and> length (scores (mon l)) = device_count (mon l) \<and>
    length (test_forks (mon l)) = MAX_DEVICES \<and> finished_count (mon l) \<le> device_count (mon l) \<and>
    0 \<le> final_score (mon l) \<and> final_score (mon l) \<le> 250 \<and>
    length (test_timers l) = (if stopped l then 0 else 1) \<and> length (expire_timers l) \<le> 1 \<and> (stopped l \<longrightarrow> shutting_down (mon l))"
proof -
  note inv = loop_invD[OF loop_reachable[OF assms]]
  have "finished_count (mon l) \<le> device_count (mon l)"
    using inv(3) card_mono[of "{..<device_count (mon l)}" "{i. i < device_count (mon l) \<and> test_forks (mon l) ! i = 0}"]
    by (cases "phase l = No_Round") (auto simp: round_inv_def Let_def)
  moreover have "0 \<le> final_score (mon l) \<and> final_score (mon l) \<le> 250"
    using inv(1) unfolding inv(5) round_value_def mon_wf_def by (intro score_of_range) auto
  moreover have "length (test_timers l) = (if stopped l then 0 else 1)" "length (expire_timers l) \<le> 1" "stopped l \<longrightarrow> shutting_down (mon l)"
    using inv(2) by (auto simp: loop_timers_ok_def split: if_splits)
  ultimately show ?thesis using inv(1,6) by (simp add: mon_wf_def)
qed

theorem loop_types_witness:
  "\<exists>l. loop_step\<^sup>*\<^sup>* (loop_boot demo_daemon_mon) l \<and> ended l = [(0, 1)] \<and> \<not> crashed l \<and> final_score (mon l) \<le> 250 \<and> length (test_timers l) = 1"
  using loop_types[OF demo_daemon_starts demo_loop_facts(1)] demo_loop_facts(1,3,6) by (intro exI[of _ demo_loop]) simp

text \<open>
  C7. What the daemon reports: with a timeout shorter than the interval, in every state of the event loop, whatever
  the order of timers, ended children and SIGTERM, the score is that of the current round: before its timer the
  scores of the devices whose test has failed, afterwards of all devices whose test did not exit with 0 in time.  A client
  that asks is told this score as soon as it is not 0, and also when the round is complete.
\<close>

theorem monitoring_score:
  assumes "storage_mon_main env args = (None, st)" and "daemonize st" and "timeout st < timer_interval st"
    and "loop_step\<^sup>*\<^sup>* (loop_boot st) l"
  shows "final_score (mon l) = round_value l \<and>
    (round_value l \<noteq> 0 \<or> phase l \<noteq> No_Round \<and> \<not> is_child_runnning (mon l) \<longrightarrow>
       storage_mon_client True (\<lambda>m. Inr (Some (storage_mon_ipcs_msg_process_fn m (mon l)))) = round_value l)"
proof -
  note inv = loop_invD[OF loop_reachable[OF assms]]
  have "response_final_score (mon l) = round_value l \<and> daemon_check_first_all_devices (mon l)"
    if "phase l \<noteq> No_Round" "\<not> is_child_runnning (mon l)"
    using that inv(3,5) all_finished[OF that(2)] by (simp add: round_inv_def Let_def)
  moreover have "response_final_score (mon l) = round_value l \<and> daemon_check_first_all_devices (mon l)" if "round_value l \<noteq> 0"
    using that inv(4,5) by (simp add: told_def)
  moreover have "0 \<le> round_value l \<and> round_value l \<le> 250"
    using inv(1) unfolding round_value_def mon_wf_def by (intro score_of_range) auto
  ultimately show ?thesis using inv(5) client_asks[of "mon l"] by (auto simp: INT_MAX_def)
qed

theorem monitoring_score_witness:
  "\<exists>l. loop_step\<^sup>*\<^sup>* (loop_boot demo_daemon_mon) l \<and> final_score (mon l) = 3 \<and>
     storage_mon_client True (\<lambda>m. Inr (Some (storage_mon_ipcs_msg_process_fn m (mon l)))) = 3"
proof -
  have "round_value demo_loop = 3" using demo_loop_facts by (simp add: round_value_def)
  with monitoring_score[OF demo_daemon_starts demo_loop_facts(1)] demo_loop_facts(1) show ?thesis by (intro exI[of _ demo_loop]) simp
qed

lemma time_passes: "\<not> stopped l \<Longrightarrow> loop_step\<^sup>*\<^sup>* l (l\<lparr>loop_time := loop_time l + int n\<rparr>)"
proof (induction n)
  case (Suc n)
  let ?l = "l\<lparr>loop_time := loop_time l + int n\<rparr>"
  have "loop_step ?l (?l\<lparr>loop_time := loop_time ?l + 1\<rparr>)" using Suc.prems by (intro loop_pass) simp
  with Suc show ?case by (simp add: algebra_simps rtranclp.rtrancl_into_rtrancl)
qed simp

text \<open>A daemon that shuts down ends when its pending timers have fired.\<close>

lemma shutdown_ends:
  assumes "loop_inv l" and "shutting_down (mon l)" and "\<not> stopped l"
  shows "\<exists>l'. loop_step\<^sup>*\<^sup>* l l' \<and> stopped l'"
proof -
  have last: "\<exists>l'. loop_step\<^sup>*\<^sup>* k l' \<and> stopped l'" if k: "loop_inv k" "shutting_down (mon k)" "\<not> stopped k" "expire_timers k = []" for k
  proof -
    obtain d where d: "test_timers k = [(timer_handle k, d, False)]" using loop_invD(2)[OF k(1)] k(2,3) by (auto simp: loop_timers_ok_def)
    let ?k = "k\<lparr>loop_time := loop_time k + int (nat (d - loop_time k))\<rparr>" and ?p = "map (\<lambda>i. int i + 1) [0..<device_count (mon k)]"
    have "loop_step ?k (fire_test (timer_handle k) False ?p ?k)" using k(3,4) d by (intro loop_test) (auto simp: distinct_map inj_on_def)
    moreover have "loop_step\<^sup>*\<^sup>* k ?k" using time_passes[OF k(3)] .
    moreover have "stopped (fire_test (timer_handle k) False ?p ?k)" by (rule inv_stop(2)[OF inv_pass[OF k(1)], where due = d]) (use k(2) d in simp_all)
    ultimately show ?thesis by (meson rtranclp.rtrancl_into_rtrancl)
  qed
  note inv = loop_invD[OF assms(1)]
  show ?thesis
  proof (cases "expire_timers l = []")
    case True
    then show ?thesis using last assms by blast
  next
    case False
    then obtain e where e: "expire_timers l = [(expire_handle l, e)]" using inv(2) by (auto simp: loop_timers_ok_def split: if_splits)
    obtain d where d: "test_timers l = [(timer_handle l, d, False)]" using inv(2) assms(2,3) by (auto simp: loop_timers_ok_def)
    let ?l = "l\<lparr>loop_time := loop_time l + int (nat (max d e - loop_time l))\<rparr>"
    have p: "loop_step\<^sup>*\<^sup>* l ?l" using time_passes[OF assms(3)] .
    have i: "loop_inv ?l" using inv_pass[OF assms(1)] .
    show ?thesis
    proof (cases "e \<le> d")
      case True
      let ?m = "fire_expire (expire_handle l) ?l"
      have "loop_step ?l ?m" using assms(3) e d True by (intro loop_expire[where due = e]) auto
      with p have m: "loop_step\<^sup>*\<^sup>* l ?m" by (rule rtranclp.rtrancl_into_rtrancl)
      have "loop_inv ?m" using inv_expire[OF i] e by auto
      moreover have "shutting_down (mon ?m) \<and> \<not> stopped ?m \<and> expire_timers ?m = []"
        using assms(2,3) e timeout_setup[of "mon ?l"] by (simp add: fire_expire_def handled_quiet same_options_def)
      ultimately obtain l' where "loop_step\<^sup>*\<^sup>* ?m l'" "stopped l'" using last[of ?m] by blast
      with rtranclp_trans[OF m] show ?thesis by blast
    next
      case False
      let ?p = "map (\<lambda>i. int i + 1) [0..<device_count (mon l)]"
      have "loop_step ?l (fire_test (timer_handle l) False ?p ?l)" using assms(3) e d False by (intro loop_test[where due = d]) (auto simp: distinct_map inj_on_def)
      moreover have "stopped (fire_test (timer_handle l) False ?p ?l)" by (rule inv_stop(2)[OF i, where due = d]) (use assms(2) d in simp_all)
      ultimately show ?thesis using p by (meson rtranclp.rtrancl_into_rtrancl)
    qed
  qed
qed

interpretation down: step_invariant loop_step "\<lambda>l. shutting_down (mon l)"
proof unfold_locales
  fix l l' assume s: "shutting_down (mon l)" and "loop_step l l'"
  from this(2) show "shutting_down (mon l')"
  proof cases
    case (loop_test h due b pids)
    then show ?thesis using s by (simp add: fire_test_def mon_handled wrap_test_device_main_def test_device_main_daemon_def Let_def)
  next
    case (loop_expire h due)
    then show ?thesis using s timeout_setup[of "mon l"] by (simp add: fire_expire_def mon_handled same_options_def)
  next
    case (loop_chld ws)
    then show ?thesis using s reap_loop_setup[of "mon l"] by (auto simp: take_sigchld_def mon_handled sigchld_handler_def same_options_def split: prod.split) (metis snd_conv)
  next
    case loop_term
    then show ?thesis using sigterm_asks[of "mon l"] by (auto simp: mon_handled)
  qed (use s in simp)
qed

lemma term_state: "shutting_down (mon (handled (sigterm_handler (mon l)) l))" "stopped (handled (sigterm_handler (mon l)) l) = stopped l"
proof -
  obtain k where k: "sigterm_handler (mon l) = (mon l)\<lparr>shutting_down := True, killed := k,
      requests := requests (mon l) @ [Timer_Del, Timer_Add 0 (Test_Timer False)]\<rparr>"
    using sigterm_asks by blast
  then show "shutting_down (mon (handled (sigterm_handler (mon l)) l))" by (simp add: mon_handled)
  show "stopped (handled (sigterm_handler (mon l)) l) = stopped l" unfolding k by (simp add: handled_asks[where rs = "[Timer_Del, Timer_Add 0 (Test_Timer False)]"])
qed

text \<open>
  C16. SIGTERM ends the daemon: in every state of the event loop, also while children run or after an earlier SIGTERM,
  the handler sets \<open>shutting_down\<close> and the loop can run on to its end; from then on a test timer that fires starts
  no child but stops the loop.
\<close>

theorem sigterm_ends:
  assumes "storage_mon_main env args = (None, st)" and "daemonize st" and "timeout st < timer_interval st"
    and "loop_step\<^sup>*\<^sup>* (loop_boot st) l" and "\<not> stopped l"
  shows "\<exists>l1 l'. loop_step l l1 \<and> shutting_down (mon l1) \<and> loop_step\<^sup>*\<^sup>* l1 l' \<and> stopped l' \<and>
    (\<forall>l2 h due b pids. loop_step\<^sup>*\<^sup>* l1 l2 \<and> (h, due, b) \<in> set (test_timers l2) \<longrightarrow>
       stopped (fire_test h b pids l2) \<and> test_forks (mon (fire_test h b pids l2)) = test_forks (mon l2))"
proof -
  let ?l = "handled (sigterm_handler (mon l)) l"
  note i = inv_term[OF loop_reachable[OF assms(1-4)] assms(5)]
  have s: "shutting_down (mon ?l)" "\<not> stopped ?l" using term_state[of l] assms(5) by simp_all
  have "stopped (fire_test h b pids l2) \<and> test_forks (mon (fire_test h b pids l2)) = test_forks (mon l2)"
    if "loop_step\<^sup>*\<^sup>* ?l l2" "(h, due, b) \<in> set (test_timers l2)" for l2 h due b pids
  proof -
    have "loop_inv l2" "shutting_down (mon l2)" using loop.steps_inv[OF that(1) i] down.steps_inv[OF that(1) s(1)] by auto
    with inv_stop(2,3)[OF _ that(2)] show ?thesis by blast
  qed
  then show ?thesis using loop_term[OF assms(5)] shutdown_ends[OF i s] s by blast
qed

theorem sigterm_ends_witness:
  "\<exists>l1 l'. loop_step demo_loop l1 \<and> shutting_down (mon l1) \<and> loop_step\<^sup>*\<^sup>* l1 l' \<and> stopped l'"
  using sigterm_ends[OF demo_daemon_starts demo_loop_facts(1,6)] by blast

text \<open>
  C17. A child that ends by a signal ends the monitoring: once \<open>waitpid\<close> has reported a child that did not exit, its
  entry is never cleared, and in every later state of the event loop no child is started and no test timer starts one.
\<close>

theorem signalled_child_ends_monitoring:
  assumes "storage_mon_main env args = (None, st)" and "daemonize st" and "timeout st < timer_interval st"
    and "loop_step\<^sup>*\<^sup>* (loop_boot st) l" and "i < device_count (mon l)" and "test_forks (mon l) ! i \<noteq> 0" and "i \<notin> unwaited l"
    and "loop_step\<^sup>*\<^sup>* l l'"
  shows "children l' = children l \<and> test_forks (mon l') ! i = test_forks (mon l) ! i \<and>
    (\<forall>h b pids. test_forks (mon (fire_test h b pids l')) = test_forks (mon l'))"
proof -
  have "stuck i (test_forks (mon l) ! i) (children l) l'"
    using stuck.steps_inv[OF assms(8)] loop_reachable[OF assms(1-4)] assms(5-7) by (simp add: stuck_def)
  moreover from this have "test_forks (mon (fire_test h b pids l')) = test_forks (mon l')" for h b pids
    using stuck_running skip_forks by (simp add: fire_test_def mon_handled)
  ultimately show ?thesis by (simp add: stuck_def)
qed

theorem signalled_child_ends_monitoring_witness:
  "loop_step\<^sup>*\<^sup>* (loop_boot demo_daemon_mon) demo_killed \<and>
   (\<forall>h b pids. test_forks (mon (fire_test h b pids demo_killed)) = test_forks (mon demo_killed))"
  using signalled_child_ends_monitoring[OF demo_daemon_starts demo_killed_facts(1), of 0 demo_killed] demo_killed_facts by simp

end
