(* ===== verification/Inet.thy ===== *)
theory Inet
  imports C_Lib
begin

text \<open>
  What the network tools use of the socket library: the byte order functions on a little-endian host,
  the text form of IPv4 and IPv6 addresses (\<open>inet_pton\<close>) with their round trips, prefix masks, and
  the bytes of a word in memory.
\<close>

section \<open>IPv4 addresses\<close>

text \<open>
  \<open>inet_pton (AF_INET)\<close>: four decimal numbers up to 255 without leading zeros, separated by dots.
  The bytes come in network order.
\<close>

definition octet :: "string \<Rightarrow> nat option" where
  "octet s =
     (if s \<noteq> [] \<and> list_all is_digit s \<and> dec_val s \<le> 255 \<and> (length s = 1 \<or> hd s \<noteq> CHR ''0'')
      then Some (dec_val s) else None)"

fun split_on :: "char \<Rightarrow> string \<Rightarrow> string list" where
  "split_on d [] = [[]]"
| "split_on d (c # cs) =
     (if c = d then [] # split_on d cs
      else (case split_on d cs of w # ws \<Rightarrow> (c # w) # ws | [] \<Rightarrow> [[c]]))"

text \<open>The address as the host reads it: the first byte is the lowest.\<close>

definition quad :: "nat \<Rightarrow> nat \<Rightarrow> nat \<Rightarrow> nat \<Rightarrow> 32 word" where
  "quad a b c d = of_nat (a + 256 * b + 65536 * c + 16777216 * d)"

definition inet_pton4 :: "string \<Rightarrow> 32 word option" where
  "inet_pton4 s =
     (case map octet (split_on (CHR ''.'') s) of
        [Some a, Some b, Some c, Some d] \<Rightarrow> Some (quad a b c d)
      | _ \<Rightarrow> None)"

text \<open>\<open>htonl\<close> and \<open>ntohl\<close> on a little-endian host.\<close>

definition htonl :: "32 word \<Rightarrow> 32 word" where
  "htonl w = or (or (push_bit 24 (take_bit 8 w)) (push_bit 16 (take_bit 8 (drop_bit 8 w))))
                (or (push_bit 8 (take_bit 8 (drop_bit 16 w))) (drop_bit 24 w))"

definition byte_of :: "nat \<Rightarrow> 32 word \<Rightarrow> nat" where
  "byte_of i w = unat w div 256 ^ i mod 256"

definition show_quad :: "32 word \<Rightarrow> string" where
  "show_quad w =
     show_nat (byte_of 3 w) @ ''.'' @ show_nat (byte_of 2 w) @ ''.'' @ show_nat (byte_of 1 w) @ ''.''
     @ show_nat (byte_of 0 w)"

text \<open>
  \<open>inet_aton\<close>: one to four numbers separated by dots, each as in C (hexadecimal after \<open>0x\<close>, octal
  after \<open>0\<close>); all but the last are bytes and the last fills the bytes that are left.  Whatever follows
  a white space is ignored.
\<close>

definition base_val :: "nat \<Rightarrow> string \<Rightarrow> nat" where
  "base_val b s = foldl (\<lambda>a c. b * a + digit_val c) 0 s"

definition aton_num :: "string \<Rightarrow> (nat \<times> string) option" where
  "aton_num s =
     (case s of
        [] \<Rightarrow> None
      | c # r \<Rightarrow>
          if \<not> is_digit c then None
          else if c = CHR ''0'' \<and> (case r of x # h # _ \<Rightarrow> (x = CHR ''x'' \<or> x = CHR ''X'') \<and> hex_val h \<noteq> None | _ \<Rightarrow> False)
          then Some (hex_num (takeWhile (\<lambda>c. hex_val c \<noteq> None) (tl r)), dropWhile (\<lambda>c. hex_val c \<noteq> None) (tl r))
          else if c = CHR ''0''
          then Some (base_val 8 (takeWhile (\<lambda>c. is_digit c \<and> digit_val c < 8) s), dropWhile (\<lambda>c. is_digit c \<and> digit_val c < 8) s)
          else Some (dec_val (takeWhile is_digit s), dropWhile is_digit s))"

fun aton_parts :: "nat \<Rightarrow> string \<Rightarrow> (nat list \<times> string) option" where
  "aton_parts k s =
     (case aton_num s of
        None \<Rightarrow> None
      | Some (v, r) \<Rightarrow>
          if v > 0xFFFFFFFF then None
          else case r of
            [] \<Rightarrow> Some ([v], r)
          | c # r' \<Rightarrow>
              if c \<noteq> CHR ''.'' then Some ([v], r)
              else (case k of
                      0 \<Rightarrow> None
                    | Suc k' \<Rightarrow> if v > 255 then None
                               else map_option (\<lambda>(vs, e). (v # vs, e)) (aton_parts k' r')))"

declare aton_parts.simps [simp del]

definition aton_quad :: "nat list \<Rightarrow> 32 word option" where
  "aton_quad vs =
     (case vs of
        [a] \<Rightarrow> Some (quad (a div 16777216) (a div 65536 mod 256) (a div 256 mod 256) (a mod 256))
      | [a, b] \<Rightarrow> if b > 0xFFFFFF then None else Some (quad a (b div 65536) (b div 256 mod 256) (b mod 256))
      | [a, b, c] \<Rightarrow> if c > 0xFFFF then None else Some (quad a b (c div 256) (c mod 256))
      | [a, b, c, d] \<Rightarrow> if d > 0xFF then None else Some (quad a b c d)
      | _ \<Rightarrow> None)"

definition inet_aton :: "string \<Rightarrow> 32 word option" where
  "inet_aton s =
     (case aton_parts 3 s of
        None \<Rightarrow> None
      | Some (vs, r) \<Rightarrow> if r = [] \<or> isspace (hd r) then aton_quad vs else None)"

section \<open>Byte order and prefixes\<close>

lemma htonl_bits:
  "bit (htonl w) i \<longleftrightarrow> i < 32 \<and> bit w (24 - 8 * (i div 8) + i mod 8)"
proof -
  consider "i < 8" | "8 \<le> i" "i < 16" | "16 \<le> i" "i < 24" | "24 \<le> i" "i < 32" | "32 \<le> i" by linarith
  then show ?thesis
  proof cases
    case 2
    then have "i div 8 = 1" "i mod 8 = i - 8" by (simp_all add: div_nat_eqI mod_if le_mod_geq)
    with 2 show ?thesis by (auto simp: htonl_def bit_simps dest: bit_imp_le_length)
  next
    case 3
    then have "i div 8 = 2" "i mod 8 = i - 16" by (simp_all add: div_nat_eqI mod_if le_mod_geq)
    with 3 show ?thesis by (auto simp: htonl_def bit_simps dest: bit_imp_le_length)
  next
    case 4
    then have "i div 8 = 3" "i mod 8 = i - 24" by (simp_all add: div_nat_eqI mod_if le_mod_geq)
    with 4 show ?thesis by (auto simp: htonl_def bit_simps dest: bit_imp_le_length)
  qed (auto simp: htonl_def bit_simps dest: bit_imp_le_length)
qed

lemma htonl_or: "htonl (or a b) = or (htonl a) (htonl b)"
  by (rule bit_word_eqI) (simp add: htonl_bits bit_simps)

lemma htonl_not: "htonl (not a) = not (htonl a)"
proof (rule bit_word_eqI)
  fix i assume "i < LENGTH(32)"
  moreover have "24 - 8 * (i div 8) + i mod 8 < 32"
    using mod_less_divisor[of 8 i] by linarith
  ultimately show "bit (htonl (not a)) i = bit (not (htonl a)) i"
    by (simp add: htonl_bits bit_simps)
qed

lemma htonl_htonl [simp]: "htonl (htonl w) = w"
proof (rule bit_word_eqI)
  fix i :: nat assume "i < LENGTH(32)"
  then have i: "i div 8 < 4" "i < 32" by (simp_all add: div_less_iff_less_mult)
  let ?j = "24 - 8 * (i div 8) + i mod 8"
  have "?j = 8 * (3 - i div 8) + i mod 8" using i by linarith
  then have j: "?j div 8 = 3 - i div 8" "?j mod 8 = i mod 8" "?j < 32"
    using mod_less_divisor[of 8 i] by (simp_all add: div_add1_eq)
  have e: "24 - 8 * (?j div 8) + ?j mod 8 = i"
    unfolding j using i by (simp add: diff_mult_distrib2)
  show "bit (htonl (htonl w)) i = bit w i" unfolding htonl_bits e using i j(3) by simp
qed

text \<open>The netmask of a prefix in host order.\<close>

definition prefix_mask :: "nat \<Rightarrow> 32 word" where
  "prefix_mask n = not (mask (32 - n))"

lemma prefix_mask_bits: "bit (prefix_mask n) i \<longleftrightarrow> 32 - n \<le> i \<and> i < 32"
  by (auto simp: prefix_mask_def bit_simps)

section \<open>Printing and parsing addresses\<close>

lemma split_on_word: "d \<notin> set w \<Longrightarrow> split_on d (w @ d # r) = w # split_on d r"
  by (induction w) auto

lemma split_on_last: "d \<notin> set w \<Longrightarrow> split_on d w = [w]"
  by (induction w) auto

lemma dot_not_in_number: "CHR ''.'' \<notin> set (show_nat n)"
proof
  assume "CHR ''.'' \<in> set (show_nat n)"
  from show_nat_digits[OF this] show False by (simp add: is_digit_def)
qed

lemma show_nat_hd: "n \<noteq> 0 \<Longrightarrow> hd (show_nat n) \<noteq> CHR ''0''"
proof (induction n rule: show_nat.induct)
  case (1 n)
  have z: "digit_char d \<noteq> CHR ''0''" if "d < 10" "d \<noteq> 0" for d
    using of_char_digit_char[OF that(1)] that(2) by auto
  show ?case
  proof (cases "n < 10")
    case True
    then show ?thesis using "1.prems" z by (subst show_nat.simps) simp
  next
    case False
    then show ?thesis using 1 by (subst show_nat.simps) (simp add: hd_append)
  qed
qed

lemma octet_show_nat: "n \<le> 255 \<Longrightarrow> octet (show_nat n) = Some n"
proof -
  assume n: "n \<le> 255"
  have "length (show_nat n) = 1 \<or> hd (show_nat n) \<noteq> CHR ''0''"
    using show_nat_hd[of n] by (cases "n = 0") (simp_all add: show_nat.simps[of 0])
  then show ?thesis using n by (simp add: octet_def list_all_iff show_nat_digits)
qed

lemma byte_of_le: "byte_of i w \<le> 255"
  using mod_less_divisor[of 256 "unat w div 256 ^ i"] by (simp add: byte_of_def)

lemma inet_pton4_quad:
  assumes "a \<le> 255" "b \<le> 255" "c \<le> 255" "d \<le> 255"
  shows "inet_pton4 (show_nat a @ ''.'' @ show_nat b @ ''.'' @ show_nat c @ ''.'' @ show_nat d) = Some (quad a b c d)"
  using assms dot_not_in_number
  by (simp add: inet_pton4_def split_on_word split_on_last octet_show_nat)

lemma byte_word: "of_nat (byte_of i w) = (take_bit 8 (drop_bit (8 * i) w) :: 32 word)"
proof -
  have t: "take_bit 32 (unat w) = unat w" using unsigned_less[of w, where ?'a = nat] by (simp add: take_bit_nat_eq_self_iff)
  have p: "(2::nat) ^ (8 * i) = 256 ^ i" by (simp add: power_mult)
  have "unat (take_bit 8 (drop_bit (8 * i) w)) = take_bit 8 (drop_bit (8 * i) (unat w))"
    by (simp only: unsigned_take_bit_eq unsigned_drop_bit_eq) (simp add: t)
  also have "\<dots> = byte_of i w"
    by (simp only: byte_of_def take_bit_eq_mod[of 8 "_ :: nat"] drop_bit_eq_div[of _ "_ :: nat"] p) simp
  finally show ?thesis by (metis of_nat_unat ucast_id)
qed

lemma quad_bytes: "quad (byte_of 3 w) (byte_of 2 w) (byte_of 1 w) (byte_of 0 w) = htonl w"
proof -
  define b0 b1 b2 b3 where "b0 = take_bit 8 w" and "b1 = take_bit 8 (drop_bit 8 w)"
    and "b2 = take_bit 8 (drop_bit 16 w)" and "b3 = drop_bit 24 w"
  note defs = this
  have "take_bit 8 (drop_bit 24 w) = drop_bit 24 w"
    by (rule bit_word_eqI) (auto simp: bit_simps dest: bit_imp_le_length)
  then have b: "of_nat (byte_of 0 w) = b0" "of_nat (byte_of 1 w) = b1" "of_nat (byte_of 2 w) = b2"
    "of_nat (byte_of 3 w) = b3"
    by (simp_all add: byte_word defs)
  have "htonl w = or (or (push_bit 24 b0) (push_bit 16 b1)) (or (push_bit 8 b2) b3)"
    by (simp add: htonl_def defs)
  moreover have "push_bit 24 b0 + push_bit 16 b1 = or (push_bit 24 b0) (push_bit 16 b1)"
    by (rule disjunctive_add_eq_or, rule bit_word_eqI) (auto simp: bit_simps defs)
  moreover have "push_bit 8 b2 + b3 = or (push_bit 8 b2) b3"
    by (rule disjunctive_add_eq_or, rule bit_word_eqI) (auto simp: bit_simps defs dest: bit_imp_le_length)
  moreover have "or (push_bit 24 b0) (push_bit 16 b1) + or (push_bit 8 b2) b3
      = or (or (push_bit 24 b0) (push_bit 16 b1)) (or (push_bit 8 b2) b3)"
    by (rule disjunctive_add_eq_or, rule bit_word_eqI) (auto simp: bit_simps defs dest: bit_imp_le_length)
  ultimately have "htonl w = (push_bit 24 b0 + push_bit 16 b1) + (push_bit 8 b2 + b3)" by simp
  also have "\<dots> = b3 + 256 * b2 + 65536 * b1 + 16777216 * b0" by (simp add: push_bit_eq_mult)
  also have "\<dots> = quad (byte_of 3 w) (byte_of 2 w) (byte_of 1 w) (byte_of 0 w)"
    by (simp add: quad_def b b(2)[unfolded One_nat_def])
  finally show ?thesis ..
qed

lemma inet_pton4_show_quad: "inet_pton4 (show_quad w) = Some (htonl w)"
  using inet_pton4_quad[of "byte_of 3 w" "byte_of 2 w" "byte_of 1 w" "byte_of 0 w"] byte_of_le quad_bytes
  by (simp add: show_quad_def)

lemma aton_num_show:
  assumes "r = [] \<or> hd r = CHR ''.''"
  shows "aton_num (show_nat n @ r) = Some (n, r)"
proof (cases "n = 0")
  case True
  moreover have "show_nat 0 = ''0''" by code_simp
  ultimately show ?thesis using assms
    by (cases r) (auto simp: aton_num_def is_digit_def digit_val_def base_val_def split: list.splits)
next
  case False
  obtain d ds where s: "show_nat n = d # ds" by (cases "show_nat n") simp_all
  have d: "d \<noteq> CHR ''0''" using show_nat_hd[OF False] s by simp
  have "is_digit d" using show_nat_digits[of d n] s by simp
  have r: "takeWhile is_digit r = []" "dropWhile is_digit r = r" using assms by (cases r; simp add: is_digit_def)+
  have "takeWhile is_digit (show_nat n @ r) = show_nat n" "dropWhile is_digit (show_nat n @ r) = r"
    using show_nat_digits r by (simp_all add: takeWhile_append dropWhile_append)
  then show ?thesis using d \<open>is_digit d\<close> s by (simp add: aton_num_def) (metis dec_val_show_nat)
qed

lemma aton_parts_dot:
  "n \<le> 255 \<Longrightarrow> aton_parts (Suc k) (show_nat n @ CHR ''.'' # r) = map_option (\<lambda>(vs, e). (n # vs, e)) (aton_parts k r)"
  by (subst aton_parts.simps) (simp add: aton_num_show)

lemma aton_parts_end: "n \<le> 255 \<Longrightarrow> aton_parts k (show_nat n) = Some ([n], [])"
  using aton_num_show[of "[]" n] by (subst aton_parts.simps) simp

lemma inet_aton_quad:
  assumes "a \<le> 255" "b \<le> 255" "c \<le> 255" "d \<le> 255"
  shows "inet_aton (show_nat a @ ''.'' @ show_nat b @ ''.'' @ show_nat c @ ''.'' @ show_nat d) = Some (quad a b c d)"
  using assms by (simp add: inet_aton_def numeral_3_eq_3 aton_parts_dot aton_parts_end aton_quad_def not_less)

lemma inet_aton_show_quad: "inet_aton (show_quad w) = Some (htonl w)"
  using inet_aton_quad[OF byte_of_le byte_of_le byte_of_le byte_of_le] quad_bytes[of w] by (simp add: show_quad_def)

section \<open>Values in memory\<close>

type_synonym byte = "8 word"

text \<open>How a little-endian host stores a word, and reads one.\<close>

definition mem16 :: "16 word \<Rightarrow> byte list" where
  "mem16 w = [ucast w, ucast (drop_bit 8 w)]"

definition mem32 :: "32 word \<Rightarrow> byte list" where
  "mem32 w = [ucast w, ucast (drop_bit 8 w), ucast (drop_bit 16 w), ucast (drop_bit 24 w)]"

definition load16 :: "byte \<Rightarrow> byte \<Rightarrow> 16 word" where
  "load16 a b = or (ucast a) (push_bit 8 (ucast b))"

definition load32 :: "byte \<Rightarrow> byte \<Rightarrow> byte \<Rightarrow> byte \<Rightarrow> 32 word" where
  "load32 a b c d = or (or (ucast a) (push_bit 8 (ucast b))) (or (push_bit 16 (ucast c)) (push_bit 24 (ucast d)))"

text \<open>\<open>htons\<close> and \<open>ntohs\<close>.\<close>

definition htons :: "16 word \<Rightarrow> 16 word" where
  "htons w = or (push_bit 8 (take_bit 8 w)) (drop_bit 8 w)"

lemma length_mem [simp]: "length (mem16 v) = 2" "length (mem32 w) = 4"
  by (simp_all add: mem16_def mem32_def)

lemma htons_bits: "bit (htons w) i \<longleftrightarrow> i < 16 \<and> bit w (if i < 8 then i + 8 else i - 8)"
  by (auto simp: htons_def bit_simps add.commute dest: bit_imp_le_length)

lemma htons_htons [simp]: "htons (htons w) = w"
  by (rule bit_word_eqI) (auto simp: htons_bits)

lemma htons_not: "htons (not w) = not (htons w)"
  by (rule bit_word_eqI) (auto simp: htons_bits bit_simps)

lemma load16_mem16: "mem16 w = [a, b] \<Longrightarrow> load16 a b = w"
  by (auto simp: mem16_def load16_def intro!: bit_word_eqI) (auto simp: bit_simps)

lemma load32_mem32: "mem32 w = [a, b, c, d] \<Longrightarrow> load32 a b c d = w"
proof (rule bit_word_eqI)
  fix n assume "mem32 w = [a, b, c, d]" and n: "n < LENGTH(32)"
  then have m: "a = ucast w" "b = ucast (drop_bit 8 w)" "c = ucast (drop_bit 16 w)" "d = ucast (drop_bit 24 w)"
    by (simp_all add: mem32_def)
  consider "n < 8" | "8 \<le> n" "n < 16" | "16 \<le> n" "n < 24" | "24 \<le> n" "n < 32" using n by fastforce
  then show "bit (load32 a b c d) n = bit w n"
    by cases (auto simp: m load32_def bit_simps)
qed

lemma mem16_load16: "mem16 (load16 a b) = [a, b]"
  unfolding mem16_def load16_def
  by (intro arg_cong2[where f = Cons] bit_word_eqI refl) (auto simp: bit_simps dest: bit_imp_le_length)

lemma mem32_load32: "mem32 (load32 a b c d) = [a, b, c, d]"
  unfolding mem32_def load32_def
  by (intro arg_cong2[where f = Cons] bit_word_eqI refl) (auto simp: bit_simps dest: bit_imp_le_length)

text \<open>Two bytes in network order have the first one as the high one.\<close>

lemma ntohs_load16: "unat (htons (load16 a b)) = 256 * unat a + unat b"
proof -
  have "htons (load16 a b) = or (push_bit 8 (ucast a)) (ucast b)"
    by (rule bit_word_eqI) (auto simp: htons_bits load16_def bit_simps dest: bit_imp_le_length)
  also have "\<dots> = push_bit 8 (ucast a) + ucast b"
    by (rule disjunctive_add_eq_or[symmetric], rule bit_word_eqI) (auto simp: bit_simps dest: bit_imp_le_length)
  finally have e: "htons (load16 a b) = of_nat (256 * unat a + unat b)"
    by (simp add: push_bit_eq_mult)
  have "unat a < 256" "unat b < 256" using unsigned_less[of a, where ?'a = nat] unsigned_less[of b, where ?'a = nat] by simp_all
  then have "256 * unat a + unat b < 2 ^ LENGTH(16)" by simp
  then show ?thesis unfolding e unat_of_nat by (rule mod_less)
qed

section \<open>IPv6 addresses\<close>

text \<open>
  \<open>inet_pton (AF_INET6)\<close>: groups of one to four hexadecimal digits between colons, at most one empty
  group \<open>::\<close> for the missing zero bytes, and possibly a dotted quad at the end.  \<open>pton6\<close> is the scanning
  loop: the text left, the digits of the current group, the bytes stored and the place of \<open>::\<close>.
\<close>

definition group_bytes :: "string \<Rightarrow> byte list" where
  "group_bytes g = [of_nat (hex_num g div 256), of_nat (hex_num g mod 256)]"

fun pton6 :: "string \<Rightarrow> string \<Rightarrow> byte list \<Rightarrow> nat option \<Rightarrow> (byte list \<times> nat option) option" where
  "pton6 [] cur tp colonp =
     (if cur = [] then Some (tp, colonp)
      else if length tp + 2 > 16 then None
      else Some (tp @ group_bytes cur, colonp))"
| "pton6 (c # cs) cur tp colonp =
     (if hex_val c \<noteq> None then (if length cur = 4 then None else pton6 cs (cur @ [c]) tp colonp)
      else if c = CHR '':'' then
        (if cur = [] then (if colonp \<noteq> None then None else pton6 cs [] tp (Some (length tp)))
         else if cs = [] \<or> length tp + 2 > 16 then None
         else pton6 cs [] (tp @ group_bytes cur) colonp)
      else if c = CHR ''.'' \<and> length tp + 4 \<le> 16 then
        (case inet_pton4 (cur @ c # cs) of Some w \<Rightarrow> Some (tp @ mem32 w, colonp) | None \<Rightarrow> None)
      else None)"

definition inet_pton6 :: "string \<Rightarrow> byte list option" where
  "inet_pton6 s =
     (let scan = (case s of
                    [] \<Rightarrow> None
                  | c # r \<Rightarrow> if c = CHR '':'' then (if take 1 r = '':'' then pton6 r [] [] None else None)
                            else pton6 s [] [] None)
      in case scan of
           None \<Rightarrow> None
         | Some (tp, None) \<Rightarrow> if length tp = 16 then Some tp else None
         | Some (tp, Some n) \<Rightarrow>
             if length tp = 16 then None
             else Some (take n tp @ replicate (16 - length tp) 0 @ drop n tp))"

text \<open>The link-local unicast prefix \<open>fe80::/10\<close>.\<close>

definition IN6_IS_ADDR_LINKLOCAL :: "byte list \<Rightarrow> bool" where
  "IN6_IS_ADDR_LINKLOCAL a \<longleftrightarrow> take 1 a = [0xFE] \<and> and (a ! 1) 0xC0 = 0x80"

lemma length_group_bytes [simp]: "length (group_bytes g) = 2"
  by (simp add: group_bytes_def)

text \<open>The text of eight groups.\<close>

definition hex_group :: "string \<Rightarrow> bool" where
  "hex_group g \<longleftrightarrow> g \<noteq> [] \<and> length g \<le> 4 \<and> (\<forall>c\<in>set g. hex_val c \<noteq> None)"

fun join_colon :: "string list \<Rightarrow> string" where
  "join_colon [] = []"
| "join_colon [g] = g"
| "join_colon (g # gs) = g @ CHR '':'' # join_colon gs"

lemma hex_val_colon [simp]: "hex_val (CHR '':'') = None"
  by (simp add: hex_val_def)

lemma pton6_digits:
  assumes "\<forall>c\<in>set g. hex_val c \<noteq> None" and "length cur + length g \<le> 4"
  shows "pton6 (g @ cs) cur tp colonp = pton6 cs (cur @ g) tp colonp"
  using assms by (induction g arbitrary: cur) auto

lemma join_colon_neq: "\<forall>g\<in>set gs. hex_group g \<Longrightarrow> gs \<noteq> [] \<Longrightarrow> join_colon gs \<noteq> []"
  by (induction gs rule: join_colon.induct) (auto simp: hex_group_def)

lemma pton6_groups:
  assumes "\<forall>g\<in>set gs. hex_group g" and "gs \<noteq> []" and "length tp + 2 * length gs \<le> 16"
  shows "pton6 (join_colon gs) [] tp colonp = Some (tp @ concat (map group_bytes gs), colonp)"
  using assms
proof (induction gs arbitrary: tp rule: join_colon.induct)
  case (2 g)
  then show ?case using pton6_digits[of g "[]" "[]"] by (auto simp: hex_group_def)
next
  case (3 g h gs)
  then have "pton6 (join_colon (g # h # gs)) [] tp colonp = pton6 (CHR '':'' # join_colon (h # gs)) g tp colonp"
    using pton6_digits[of g "[]"] by (simp add: hex_group_def)
  also have "\<dots> = pton6 (join_colon (h # gs)) [] (tp @ group_bytes g) colonp"
    using 3 join_colon_neq[of "h # gs"] by (simp add: hex_group_def)
  also have "\<dots> = Some ((tp @ group_bytes g) @ concat (map group_bytes (h # gs)), colonp)"
    using 3 by (intro "3.IH") auto
  finally show ?case by simp
qed simp

lemma pton6_groups_colon:
  assumes "\<forall>g\<in>set gs. hex_group g" and "gs \<noteq> []" and "length tp + 2 * length gs \<le> 16" and "cs \<noteq> []"
  shows "pton6 (join_colon gs @ CHR '':'' # cs) [] tp colonp = pton6 cs [] (tp @ concat (map group_bytes gs)) colonp"
  using assms
proof (induction gs arbitrary: tp rule: join_colon.induct)
  case (2 g)
  then show ?case using pton6_digits[of g "[]"] by (auto simp: hex_group_def)
next
  case (3 g h gs)
  then have "pton6 (join_colon (g # h # gs) @ CHR '':'' # cs) [] tp colonp =
      pton6 (CHR '':'' # join_colon (h # gs) @ CHR '':'' # cs) g tp colonp"
    using pton6_digits[of g "[]"] by (simp add: hex_group_def)
  also have "\<dots> = pton6 (join_colon (h # gs) @ CHR '':'' # cs) [] (tp @ group_bytes g) colonp"
    using 3 by (simp add: hex_group_def)
  also have "\<dots> = pton6 cs [] ((tp @ group_bytes g) @ concat (map group_bytes (h # gs))) colonp"
    using 3 by (intro "3.IH") auto
  finally show ?case by simp
qed simp

lemma length_groups: "length (concat (map group_bytes gs)) = 2 * length gs"
  by (induction gs) simp_all

lemma join_colon_start:
  assumes "\<forall>g\<in>set gs. hex_group g" and "gs \<noteq> []"
  obtains c t where "join_colon gs = c # t" and "c \<noteq> CHR '':''"
proof -
  obtain g r where gs: "gs = g # r" "hex_group g" using assms by (cases gs) auto
  then obtain c g' where g: "g = c # g'" "hex_val c \<noteq> None" by (cases g) (auto simp: hex_group_def)
  then have "c \<noteq> CHR '':''" using hex_val_colon by metis
  then show ?thesis using gs g that by (cases r) auto
qed

text \<open>The text with two groups of zeros or more left out.\<close>

lemma inet_pton6_compressed:
  assumes "\<forall>g\<in>set gs. hex_group g" and "gs \<noteq> []" and "\<forall>g\<in>set hs. hex_group g" and "hs \<noteq> []"
    and "length gs + length hs < 8"
  shows "inet_pton6 (join_colon gs @ ''::'' @ join_colon hs) =
    Some (concat (map group_bytes gs) @ replicate (16 - 2 * (length gs + length hs)) 0 @ concat (map group_bytes hs))"
proof -
  let ?g = "concat (map group_bytes gs)" and ?h = "concat (map group_bytes hs)"
  have "pton6 (join_colon gs @ CHR '':'' # (CHR '':'' # join_colon hs)) [] [] None =
      pton6 (CHR '':'' # join_colon hs) [] ?g None"
    using pton6_groups_colon[OF assms(1,2), of "[]"] assms(5) by simp
  also have "\<dots> = pton6 (join_colon hs) [] ?g (Some (length ?g))" by simp
  also have "\<dots> = Some (?g @ ?h, Some (length ?g))"
    using assms(3-5) by (intro pton6_groups) (auto simp: length_groups)
  finally have p: "pton6 (join_colon gs @ ''::'' @ join_colon hs) [] [] None = Some (?g @ ?h, Some (length ?g))" by simp
  obtain c t where c: "join_colon gs = c # t" "c \<noteq> CHR '':''" using join_colon_start[OF assms(1,2)] .
  then show ?thesis using p assms(5) by (simp add: inet_pton6_def length_groups)
qed

lemma inet_pton6_groups:
  assumes "\<forall>g\<in>set gs. hex_group g" and "length gs = 8"
  shows "inet_pton6 (join_colon gs) = Some (concat (map group_bytes gs))"
proof -
  have ne: "gs \<noteq> []" using assms(2) by auto
  obtain c t where j: "join_colon gs = c # t" "c \<noteq> CHR '':''" using join_colon_start[OF assms(1) ne] .
  show ?thesis using pton6_groups[of gs "[]" None] assms ne j by (simp add: inet_pton6_def length_groups)
qed

text \<open>The result of \<open>inet_pton6\<close> has sixteen bytes.\<close>

lemma inet_pton4_no_dot_length: "length (mem32 w) = 4"
  by (simp add: mem32_def)

lemma pton6_length:
  assumes "pton6 s cur tp colonp = Some (tp', c')" and "length tp \<le> 16" and "\<forall>n. colonp = Some n \<longrightarrow> n \<le> length tp"
  shows "length tp' \<le> 16 \<and> (\<forall>n. c' = Some n \<longrightarrow> n \<le> length tp')"
  using assms
proof (induction s cur tp colonp rule: pton6.induct)
  case (1 cur tp colonp)
  then show ?case by (auto split: if_splits)
next
  case (2 c cs cur tp colonp)
  show ?case
  proof (cases "hex_val c = None \<and> c \<noteq> CHR '':''")
    case True
    then show ?thesis using "2.prems" by (fastforce simp: inet_pton4_no_dot_length split: if_splits option.splits)
  next
    case False
    then show ?thesis using 2 by (fastforce split: if_splits)
  qed
qed

lemma inet_pton6_length:
  assumes "inet_pton6 s = Some a"
  shows "length a = 16"
proof -
  define scan where "scan = (case s of [] \<Rightarrow> None
    | c # r \<Rightarrow> if c = CHR '':'' then (if take 1 r = '':'' then pton6 r [] [] None else None) else pton6 s [] [] None)"
  have e: "(case scan of None \<Rightarrow> None | Some (tp, None) \<Rightarrow> if length tp = 16 then Some tp else None
      | Some (tp, Some n) \<Rightarrow> if length tp = 16 then None else Some (take n tp @ replicate (16 - length tp) 0 @ drop n tp)) = Some a"
    using assms unfolding inet_pton6_def Let_def scan_def[symmetric] .
  then obtain tp c where sc: "scan = Some (tp, c)" and a: "(case c of None \<Rightarrow> if length tp = 16 then Some tp else None
      | Some n \<Rightarrow> if length tp = 16 then None else Some (take n tp @ replicate (16 - length tp) 0 @ drop n tp)) = Some a"
    by (cases scan) (auto split: prod.splits)
  then obtain r where p: "pton6 r [] [] None = Some (tp, c)"
    unfolding scan_def by (cases s) (auto simp del: pton6.simps split: if_splits)
  from pton6_length[OF p] have "length tp \<le> 16" "\<forall>n. c = Some n \<longrightarrow> n \<le> length tp" by simp_all
  with a show ?thesis by (cases c) (auto split: if_splits)
qed

lemma mem16_htons: "mem16 (htons (of_nat p)) = [of_nat (p div 256), of_nat (p mod 256)]"
proof -
  have "of_nat (p div 256) = (of_nat (drop_bit 8 p) :: byte)" "of_nat (p mod 256) = (of_nat (take_bit 8 p) :: byte)"
    by (simp_all add: drop_bit_eq_div take_bit_eq_mod)
  moreover have "mem16 (htons (of_nat p)) = [of_nat (drop_bit 8 p), of_nat (take_bit 8 p)]"
    unfolding mem16_def by (intro arg_cong2[where f = Cons] bit_word_eqI refl) (auto simp: htons_bits bit_simps add.commute)
  ultimately show ?thesis by simp
qed

end
