(* ===== verification/Findif.thy ===== *)
theory Findif
  imports Inet
begin

text \<open>
  The interface finder \<^verbatim>\<open>src/tools/findif.c\<close>: the search of the routing table in
  \<^verbatim>\<open>/proc/net/route\<close> and in the output of \<^verbatim>\<open>route -n get\<close>, the netmask conversions and the
  main program with its output.  IPv4 addresses in network byte order are read as 32-bit words of a
  little-endian host, as the program sees them; \<open>unsigned long\<close> is a 64-bit word.  The contents of
  the files, the output of the command, the environment variables and the answers of the interface
  ioctl are arguments.
\<close>

section \<open>Copies into buffers\<close>

text \<open>
  A character buffer of \<open>cap\<close> bytes is kept as the string in it.  \<open>strncpy_z\<close>: \<open>strncpy (buf, s, n)\<close> followed by \<open>buf[i] = 0\<close>.
  \<open>strncpy_r\<close>: \<open>strncpy (buf, s, n)\<close> into a buffer that is read as a string afterwards, so that the copy needs its
  terminator.  A write outside the buffer, or a string without end, faults.
\<close>

definition bind_res :: "'a result \<Rightarrow> ('a \<Rightarrow> 'b result) \<Rightarrow> 'b result" where
  "bind_res r f = (case r of Ret x \<Rightarrow> f x | Exit e \<Rightarrow> Exit e | Fault \<Rightarrow> Fault)"

lemma bind_res_simps [simp]: "bind_res (Ret x) f = f x" "bind_res (Exit e) f = Exit e" "bind_res Fault f = Fault"
  by (simp_all add: bind_res_def)

definition strncpy_z :: "nat \<Rightarrow> nat \<Rightarrow> nat \<Rightarrow> string \<Rightarrow> string result" where
  "strncpy_z cap n i s = (if cap < n \<or> cap \<le> i \<or> n < i then Fault else Ret (take i s))"

definition strncpy_r :: "nat \<Rightarrow> nat \<Rightarrow> string \<Rightarrow> string result" where
  "strncpy_r cap n s = (if cap < n \<or> n \<le> length s then Fault else Ret s)"

section \<open>Searching the routing table\<close>

record route =
  r_interface :: string
  r_dest :: "64 word"
  r_metric :: int
  r_mask :: "64 word"

text \<open>\<open>sscanf (buf, "%[^\t]\t%lx%lx%lx%lx%lx%lx%lx", ...) == 8\<close>.\<close>

fun scan_lx_list :: "nat \<Rightarrow> string \<Rightarrow> 64 word list option" where
  "scan_lx_list 0 s = Some []"
| "scan_lx_list (Suc n) s =
     (case scan_lx s of None \<Rightarrow> None
      | Some (v, r) \<Rightarrow> (case scan_lx_list n r of None \<Rightarrow> None | Some vs \<Rightarrow> Some (v # vs)))"

definition MAXSTR :: nat where "MAXSTR = 128"

definition route_name :: "string \<Rightarrow> string" where
  "route_name buf = takeWhile (\<lambda>c. c \<noteq> CHR 0x09) buf"

definition scan_route :: "string \<Rightarrow> route option" where
  "scan_route buf =
     (let name = route_name buf in
      if name = [] then None
      else case scan_lx_list 7 (dropWhile isspace (drop (length name) buf)) of
        Some [dst, gw, flags, refcnt, use, metric, msk] \<Rightarrow>
          Some \<lparr>r_interface = name, r_dest = dst, r_metric = sint metric, r_mask = msk\<rparr>
      | _ \<Rightarrow> None)"

text \<open>The state of the search: \<open>best_metric\<close>, \<open>best_netmask\<close>, \<open>best_if\<close>.\<close>

type_synonym best = "int \<times> 64 word \<times> string"

definition route_matches :: "32 word \<Rightarrow> route \<Rightarrow> bool" where
  "route_matches addr r \<longleftrightarrow>
     and (ucast addr) (r_mask r) = ucast (ucast (and (r_dest r) (r_mask r)) :: 32 word)"

definition better_route :: "32 word \<Rightarrow> route \<Rightarrow> best \<Rightarrow> best" where
  "better_route addr r b =
     (case b of (best_metric, best_netmask, best_if) \<Rightarrow>
        if route_matches addr r \<and> r_metric r \<le> best_metric \<and> r_mask r \<ge> best_netmask
        then (r_metric r, r_mask r, r_interface r) else b)"

definition takes_over :: "32 word \<Rightarrow> route \<Rightarrow> best \<Rightarrow> bool" where
  "takes_over addr r b \<longleftrightarrow> (case b of (best_metric, best_netmask, _) \<Rightarrow>
     route_matches addr r \<and> r_metric r \<le> best_metric \<and> r_mask r \<ge> best_netmask)"

text \<open>
  The loop over the lines; \<open>False\<close>: it met a bad line.  The first conversion stores the interface name
  in a buffer of \<open>MAXSTR\<close> bytes without a field width; from there a better route is copied to \<open>best_if\<close>, a buffer of
  \<open>MAXSTR\<close> bytes whose size is the bound.
\<close>

fun search_lines :: "32 word \<Rightarrow> string list \<Rightarrow> best \<Rightarrow> (bool \<times> best) result" where
  "search_lines addr [] b = Ret (True, b)"
| "search_lines addr (l # ls) b =
     (if length (route_name l) \<ge> MAXSTR then Fault
      else case scan_route l of
        None \<Rightarrow> Ret (False, b)
      | Some r \<Rightarrow>
          if takes_over addr r b
          then bind_res (strncpy_r MAXSTR MAXSTR (r_interface r)) (\<lambda>_. search_lines addr ls (better_route addr r b))
          else search_lines addr ls b)"

text \<open>
  The return code, \<open>best_if\<close> and \<open>best_netmask\<close>; the file is \<open>None\<close> when it cannot be opened.
\<close>

definition SearchUsingProcRoute ::
  "string option \<Rightarrow> 32 word \<Rightarrow> string \<Rightarrow> 64 word \<Rightarrow> (int \<times> string \<times> 64 word) result" where
  "SearchUsingProcRoute file addr best_if best_netmask =
     (case file of
        None \<Rightarrow> Ret (OCF_ERR_GENERIC, best_if, best_netmask)
      | Some s \<Rightarrow>
          (case fgets_all 2048 s of
             [] \<Rightarrow> Ret (OCF_ERR_GENERIC, best_if, best_netmask)
           | _ # ls \<Rightarrow>
               (case search_lines addr ls (LONG_MAX, 0, best_if) of
                  Ret (ok, m, msk, i) \<Rightarrow>
                    Ret (if \<not> ok \<or> m = LONG_MAX then OCF_ERR_GENERIC else OCF_SUCCESS, i, msk)
                | Exit e \<Rightarrow> Exit e
                | Fault \<Rightarrow> Fault)))"

section \<open>The route command\<close>

fun is_substring :: "string \<Rightarrow> string \<Rightarrow> bool" where
  "is_substring p [] = (p = [])"
| "is_substring p (c # cs) = (take (length p) (c # cs) = p \<or> is_substring p cs)"

definition rstrip :: "string \<Rightarrow> string" where
  "rstrip s = rev (dropWhile isspace (rev s))"

text \<open>
  \<open>strtok (buf, ":")\<close> followed by \<open>strtok (NULL, ":")\<close>: what the buffer then reads as, and the second
  token if there is one.
\<close>

definition strtok2 :: "string \<Rightarrow> string \<times> string option" where
  "strtok2 buf =
     (let lead = takeWhile (\<lambda>c. c = CHR '':'') buf; s = drop (length lead) buf;
          t1 = takeWhile (\<lambda>c. c \<noteq> CHR '':'') s;
          s2 = dropWhile (\<lambda>c. c = CHR '':'') (drop (length t1) s);
          t2 = takeWhile (\<lambda>c. c \<noteq> CHR '':'') s2
      in (lead @ t1, if t2 = [] then None else Some t2))"

text \<open>One line of the output: the updated \<open>mask\<close> (20 bytes), \<open>interface\<close> and \<open>done\<close>.\<close>

definition MASK_SIZE :: nat where "MASK_SIZE = 20"

definition route_line :: "string \<Rightarrow> string \<times> string \<times> nat \<Rightarrow> (string \<times> string \<times> nat) result" where
  "route_line buf st =
     (case st of (msk, interface, done) \<Rightarrow>
        let b0 = rstrip buf;
            hit1 = is_substring ''mask:'' b0;
            (b1, cp1) = (if hit1 then strtok2 b0 else (b0, None))
        in bind_res
          (case cp1 of
             Some cp \<Rightarrow> bind_res (strncpy_z MASK_SIZE (MASK_SIZE - 1) (MASK_SIZE - 1) (tl cp)) (\<lambda>m. Ret (m, done + 1))
           | None \<Rightarrow> Ret (msk, done))
          (\<lambda>(msk', done1).
             let hit2 = is_substring ''interface:'' b1;
                 (b2, cp2) = (if hit2 then strtok2 b1 else (b1, None))
             in case cp2 of
                  Some cp \<Rightarrow> bind_res (strncpy_z MAXSTR (MAXSTR - 1) (MAXSTR - 1) (tl cp)) (\<lambda>i. Ret (msk', i, done1 + 1))
                | None \<Rightarrow> Ret (msk', interface, done1)))"

fun route_lines :: "string list \<Rightarrow> string \<times> string \<times> nat \<Rightarrow> (string \<times> string \<times> nat) result" where
  "route_lines [] st = Ret st"
| "route_lines (l # ls) st = (if snd (snd st) < 3 then bind_res (route_line l st) (route_lines ls) else Ret st)"

definition SearchUsingRouteCmd ::
  "string option \<Rightarrow> string \<Rightarrow> 32 word \<Rightarrow> string \<Rightarrow> 64 word \<Rightarrow> (int \<times> string \<times> 64 word) result" where
  "SearchUsingRouteCmd output address addr best_if best_netmask =
     (case output of
        None \<Rightarrow> Ret (OCF_ERR_GENERIC, best_if, best_netmask)
      | Some s \<Rightarrow>
          bind_res (route_lines (fgets_all 2048 s) ([], [], 0)) (\<lambda>(m, interface, _).
          bind_res (if m = [] then strncpy_r MASK_SIZE MASK_SIZE ''255.255.255.255'' else Ret m) (\<lambda>m1.
          bind_res (if m1 = ''default'' then strncpy_r MASK_SIZE MASK_SIZE ''0.0.0.0'' else Ret m1) (\<lambda>msk.
             case inet_pton4 msk of
               None \<Rightarrow> Ret (OCF_ERR_CONFIGURED, best_if, best_netmask)
             | Some maskbits \<Rightarrow>
                 (case inet_pton4 address of
                    None \<Rightarrow> Ret (OCF_ERR_CONFIGURED, best_if, best_netmask)
                  | Some addr_out \<Rightarrow>
                      if and addr maskbits = and addr_out maskbits then
                        (if interface = [] then Ret (OCF_ERR_GENERIC, best_if, best_netmask)
                         else bind_res (strncpy_r MAXSTR MAXSTR interface) (\<lambda>i. Ret (OCF_SUCCESS, i, ucast maskbits)))
                      else Ret (OCF_ERR_GENERIC, best_if, best_netmask))))))"

section \<open>Netmasks\<close>

definition ConvertNetmaskBitsToInt :: "string \<Rightarrow> int" where
  "ConvertNetmaskBitsToInt s =
     (let n = min (length s) 3 in
      if n > 2 \<or> n = 0 \<or> length (takeWhile is_digit s) \<noteq> n then - 1 else atoi s)"

text \<open>\<open>None\<close>: the program ends through \<open>usage (OCF_ERR_CONFIGURED)\<close>.\<close>

definition ValidateNetmaskBits :: "int \<Rightarrow> 64 word option" where
  "ValidateNetmaskBits bits =
     (if bits < 1 \<or> bits > 32 then None
      else let m = push_bit (nat (32 - bits)) 1 - 1 :: 64 word;
               m2 = and (not m) 0xFFFFFFFF
           in Some (ucast (htonl (ucast m2))))"

fun netmask_scan :: "64 word \<Rightarrow> nat \<Rightarrow> nat \<Rightarrow> nat" where
  "netmask_scan m j 0 = j"
| "netmask_scan m j (Suc k) = (if and (drop_bit j m) 1 \<noteq> 0 then j else netmask_scan m (j + 1) k)"

definition netmask_bits :: "64 word \<Rightarrow> int" where
  "netmask_bits netmask = 32 - int (netmask_scan (and netmask 0xFFFFFFFF) 0 33)"

definition ConvertQuadToInt :: "string \<Rightarrow> int" where
  "ConvertQuadToInt s = (case inet_pton4 s of None \<Rightarrow> - 1 | Some ad \<Rightarrow> netmask_bits (ucast (htonl ad)))"

section \<open>Interfaces\<close>

record findif_env =
  getenv :: "string \<Rightarrow> string option"
  proc_route :: "string option"
  route_cmd :: "string option"
  proc_net_dev :: "string option"
  socket_ok :: bool
  if_flags :: "string \<Rightarrow> nat option"

definition IFNAMSIZ :: nat where "IFNAMSIZ = 16"
definition IFF_LOOPBACK :: nat where "IFF_LOOPBACK = 8"

text \<open>
  The return value and the flags the ioctl stored.  The name is copied to \<open>ifr_name\<close> of \<open>IFNAMSIZ\<close> bytes; \<open>strchr\<close> reads the
  original name to its end, so \<open>None\<close>, a name without end, faults.
\<close>

definition ValidateIFName :: "findif_env \<Rightarrow> string \<Rightarrow> bool \<Rightarrow> (int \<times> nat) result" where
  "ValidateIFName env ifname ends =
     (if \<not> socket_ok env then Ret (- 2, 0)
      else bind_res (strncpy_z IFNAMSIZ (IFNAMSIZ - 1) (IFNAMSIZ - 1) ifname) (\<lambda>ifr_name.
        if \<not> ends then Fault
        else case if_flags env ifr_name of None \<Rightarrow> Ret (- 1, 0) | Some f \<Rightarrow> Ret (0, f)))"

definition is_loopback_interface :: "findif_env \<Rightarrow> string \<Rightarrow> bool \<Rightarrow> bool result" where
  "is_loopback_interface env ifname ends =
     bind_res (ValidateIFName env ifname ends) (\<lambda>(rc, f). Ret (if rc < 0 then False else and f IFF_LOOPBACK \<noteq> 0))"

text \<open>
  The bytes of a line up to the colon, copied with \<open>strncpy\<close> to a buffer of \<open>IFNAMSIZ\<close> bytes; \<open>None\<close>: there is no name.
\<close>

definition get_ifname :: "string \<Rightarrow> string option" where
  "get_ifname buf =
     (let b = take 512 buf;
          s = dropWhile isspace b;
          e = dropWhile (\<lambda>c. c \<noteq> CHR '':'') s
      in if s = [] \<or> e = [] then None
         else Some (take IFNAMSIZ (takeWhile (\<lambda>c. c \<noteq> CHR '':'') s)))"

text \<open>A name that fills the buffer has no terminator.  The name found is copied to \<open>best_if\<close>.\<close>

fun first_loopback :: "findif_env \<Rightarrow> string list \<Rightarrow> string option result" where
  "first_loopback env [] = Ret None"
| "first_loopback env (l # ls) =
     (case get_ifname l of
        None \<Rightarrow> first_loopback env ls
      | Some name \<Rightarrow>
          bind_res (is_loopback_interface env name (length name < IFNAMSIZ)) (\<lambda>lo.
            if lo then (if MAXSTR < IFNAMSIZ then Fault else Ret (Some name)) else first_loopback env ls))"

definition get_first_loopback_netdev :: "findif_env \<Rightarrow> string option result" where
  "get_first_loopback_netdev env =
     (case proc_net_dev env of
        None \<Rightarrow> Ret None
      | Some s \<Rightarrow> (case fgets_all 512 s of _ # _ # ls \<Rightarrow> first_loopback env ls | _ \<Rightarrow> Ret None))"

section \<open>The main program\<close>

definition env_set :: "findif_env \<Rightarrow> string \<Rightarrow> string option" where
  "env_set env name = (case getenv env name of Some s \<Rightarrow> (if s = [] then None else Some s) | None \<Rightarrow> None)"

text \<open>\<open>GetAddress\<close>; an unset and an empty variable are treated alike by all uses.\<close>

definition GetAddress :: "findif_env \<Rightarrow> string option \<times> string option \<times> string option \<times> string option" where
  "GetAddress env =
     (env_set env ''OCF_RESKEY_ip'',
      (case env_set env ''OCF_RESKEY_cidr_netmask'' of
         Some m \<Rightarrow> Some m | None \<Rightarrow> env_set env ''OCF_RESKEY_netmask''),
      env_set env ''OCF_RESKEY_broadcast'', env_set env ''OCF_RESKEY_nic'')"

text \<open>The output line; \<open>best_netmask\<close> and \<open>addr\<close> are in network order.\<close>

definition findif_output ::
  "bool \<Rightarrow> string \<Rightarrow> 64 word \<Rightarrow> 32 word \<Rightarrow> string option \<Rightarrow> int \<times> string" where
  "findif_output cidr best_if best_netmask addr bcast_arg =
     (let nm = htonl (ucast best_netmask);
          shown = best_if @ [CHR 0x09] @ ''netmask '' @
                  (if cidr then show_int (netmask_bits (ucast nm)) else show_quad nm) @
                  [CHR 0x09] @ ''broadcast ''
      in case bcast_arg of
           Some b \<Rightarrow> (case inet_pton4 b of
                        None \<Rightarrow> (OCF_ERR_CONFIGURED, [])
                      | Some _ \<Rightarrow> (0, shown @ b @ [CHR 0x0A]))
         | None \<Rightarrow>
             let def_bcast = htonl (ucast (or (ucast addr) (not best_netmask)))
             in (0, shown @ show_quad def_bcast @ [CHR 0x0A]))"

text \<open>
  The search mechanisms in order, after \<open>strcpy (best_if, "UNKNOWN")\<close>: the first that returns 0 ends the loop.
\<close>

definition search_mechs :: "findif_env \<Rightarrow> string \<Rightarrow> 32 word \<Rightarrow> (int \<times> string \<times> 64 word) result" where
  "search_mechs env address addr =
     (if length ''UNKNOWN'' \<ge> MAXSTR then Fault
      else case SearchUsingProcRoute (proc_route env) addr ''UNKNOWN'' 0xFFFFFFFF of
        Ret (rc, i, m) \<Rightarrow>
          if rc = 0 then Ret (rc, i, m) else SearchUsingRouteCmd (route_cmd env) address addr i m
      | Exit e \<Rightarrow> Exit e
      | Fault \<Rightarrow> Fault)"

text \<open>
  The last part of \<open>main\<close>, once an interface is found: the netmask of the environment, of the route,
  or of the first loopback device.
\<close>

definition findif_finish ::
  "findif_env \<Rightarrow> bool \<Rightarrow> string \<Rightarrow> 32 word \<Rightarrow> 64 word option \<Rightarrow> string option \<Rightarrow> string \<Rightarrow> 64 word
   \<Rightarrow> (int \<times> string) result" where
  "findif_finish env cidr address addr netmask bcast best_if best_netmask =
     (case netmask of
        Some m \<Rightarrow> Ret (findif_output cidr best_if m addr bcast)
      | None \<Rightarrow>
          if best_netmask = 0 then
            (if strncmp_eq 3 address ''127'' then
               (case get_first_loopback_netdev env of
                  Ret (Some l) \<Rightarrow> Ret (findif_output cidr l 0x000000FF addr bcast)
                | Ret None \<Rightarrow> Ret (OCF_ERR_GENERIC, [])
                | Exit e \<Rightarrow> Exit e
                | Fault \<Rightarrow> Fault)
             else Ret (OCF_ERR_GENERIC, []))
          else Ret (findif_output cidr best_if best_netmask addr bcast))"

text \<open>From the validated address and netmask to the output.\<close>

definition findif_search ::
  "findif_env \<Rightarrow> bool \<Rightarrow> string \<Rightarrow> 32 word \<Rightarrow> 64 word option \<Rightarrow> string option \<Rightarrow> string option
   \<Rightarrow> (int \<times> string) result" where
  "findif_search env cidr address addr netmask bcast nic =
     (case nic of
        Some n \<Rightarrow>
          bind_res (ValidateIFName env n True) (\<lambda>(rc, _).
            if rc < 0 then Ret (OCF_ERR_CONFIGURED, [])
            else bind_res (strncpy_z MAXSTR (MAXSTR - 1) (MAXSTR - 1) n) (\<lambda>best_if.
              findif_finish env cidr address addr netmask bcast best_if 0xFFFFFFFF))
      | None \<Rightarrow>
          (case search_mechs env address addr of
             Ret (rc, best_if, best_netmask) \<Rightarrow>
               if rc \<noteq> 0 then Ret (rc, [])
               else findif_finish env cidr address addr netmask bcast best_if best_netmask
           | Exit e \<Rightarrow> Exit e
           | Fault \<Rightarrow> Fault))"

text \<open>The whole program: the exit code and what it prints on the standard output.\<close>

definition findif_main :: "findif_env \<Rightarrow> string list \<Rightarrow> (int \<times> string) result" where
  "findif_main env args =
     (if length args > 1 \<or> (length args = 1 \<and> args \<noteq> [''-C'']) then Ret (OCF_ERR_ARGS, [])
      else case GetAddress env of (address, netmaskbits, bcast, nic) \<Rightarrow>
        case address of
          None \<Rightarrow> Ret (OCF_ERR_CONFIGURED, [])
        | Some a \<Rightarrow>
            case inet_pton4 a of
              None \<Rightarrow> Ret (OCF_ERR_CONFIGURED, [])
            | Some addr \<Rightarrow>
                let cidr = (args = [''-C'']) in
                case netmaskbits of
                  None \<Rightarrow> findif_search env cidr a addr None bcast nic
                | Some nb \<Rightarrow>
                    let nmbits = (if CHR ''.'' \<in> set nb then ConvertQuadToInt nb else ConvertNetmaskBitsToInt nb) in
                    if nmbits < 0 then Ret (OCF_ERR_CONFIGURED, [])
                    else case ValidateNetmaskBits nmbits of
                      None \<Rightarrow> Ret (OCF_ERR_CONFIGURED, [])
                    | Some m \<Rightarrow> findif_search env cidr a addr (Some m) bcast nic)"

section \<open>Prefixes\<close>

text \<open>The netmask of a prefix as the routing table shows it.\<close>

definition le_mask :: "nat \<Rightarrow> 64 word" where
  "le_mask n = ucast (htonl (prefix_mask n))"

lemma validate_prefix:
  assumes "1 \<le> n" and "n \<le> 32"
  shows "ValidateNetmaskBits (int n) = Some (le_mask n)"
proof -
  let ?m = "push_bit (32 - n) 1 - 1 :: 64 word"
  have m: "?m = mask (32 - n)" by (simp add: mask_eq_exp_minus_1 push_bit_eq_mult)
  have f: "(0xFFFFFFFF :: 64 word) = mask 32" by (simp add: mask_eq_exp_minus_1)
  have "(ucast (and (not (mask (32 - n))) (mask 32) :: 64 word) :: 32 word) = prefix_mask n"
    by (rule bit_word_eqI) (auto simp: prefix_mask_def bit_simps)
  then show ?thesis
    using assms m by (simp add: ValidateNetmaskBits_def Let_def le_mask_def f nat_diff_distrib)
qed

lemma netmask_scan_finds:
  assumes "j \<le> p" and "p < j + k" and "bit m p" and "\<forall>i. j \<le> i \<and> i < p \<longrightarrow> \<not> bit m i"
  shows "netmask_scan m j k = p"
  using assms
proof (induction m j k rule: netmask_scan.induct)
  case (2 m j k)
  have "and (drop_bit j m) 1 \<noteq> 0 \<longleftrightarrow> bit m j"
    by (simp add: and_one_eq bit_iff_odd_drop_bit mod2_eq_if)
  then show ?case using 2 by (cases "j = p") auto
qed simp

lemma netmask_bits_prefix:
  assumes "1 \<le> n" and "n \<le> 32"
  shows "netmask_bits (ucast (prefix_mask n)) = int n"
proof -
  let ?m = "and (ucast (prefix_mask n)) 0xFFFFFFFF :: 64 word"
  have f: "(0xFFFFFFFF :: 64 word) = mask 32" by (simp add: mask_eq_exp_minus_1)
  have "bit ?m i \<longleftrightarrow> 32 - n \<le> i \<and> i < 32" for i
    unfolding f by (auto simp: bit_simps prefix_mask_bits)
  then have "netmask_scan ?m 0 33 = 32 - n"
    using assms by (intro netmask_scan_finds) auto
  then show ?thesis using assms by (simp add: netmask_bits_def of_nat_diff)
qed

lemma ucast_le_mask: "(ucast (le_mask k) :: 32 word) = htonl (prefix_mask k)"
  by (rule bit_word_eqI) (auto simp: le_mask_def bit_simps)

lemma le_mask_mono:
  assumes "n < m" and "m \<le> 32"
  shows "le_mask n < le_mask m"
proof -
  have b: "bit (le_mask k) i \<longleftrightarrow> i < 32 \<and> 32 - k \<le> 24 - 8 * (i div 8) + i mod 8 \<and> 24 - 8 * (i div 8) + i mod 8 < 32" for k i
    by (auto simp: le_mask_def bit_simps htonl_bits prefix_mask_bits)
  have le: "32 - m \<le> 32 - n" using assms by simp
  have "and (le_mask n) (le_mask m) = le_mask n"
    by (intro bit_word_eqI) (auto simp: bit_simps b dest: le_trans[OF le])
  then have "le_mask n \<le> le_mask m" by (metis word_and_le1)
  moreover have "le_mask n \<noteq> le_mask m"
  proof
    assume "le_mask n = le_mask m"
    then have "htonl (prefix_mask n) = htonl (prefix_mask m)" by (metis ucast_le_mask)
    then have "prefix_mask n = prefix_mask m" by (metis htonl_htonl)
    then have "bit (prefix_mask n) (32 - m) = bit (prefix_mask m) (32 - m)" by simp
    then show False using assms by (simp add: prefix_mask_bits)
  qed
  ultimately show ?thesis by simp
qed

section \<open>Properties\<close>

text \<open>
  Printing and parsing dotted quads: every IPv4 address the program prints is accepted by its own
  address parser and gives back the same bytes; and for every prefix length from 1 to 32 the
  dotted-quad netmask and the number lead to the same internal netmask and back to the number.
\<close>

theorem dotted_quad_roundtrip:
  "inet_pton4 (show_quad w) = Some (htonl w) \<and>
   (\<forall>n \<in> {1..32}. ConvertQuadToInt (show_quad (prefix_mask n)) = int n \<and>
      (\<exists>m. ValidateNetmaskBits (int n) = Some m \<and> netmask_bits (ucast (htonl (ucast m))) = int n))"
  by (simp add: inet_pton4_show_quad ConvertQuadToInt_def netmask_bits_prefix validate_prefix ucast_le_mask)

theorem dotted_quad_roundtrip_witness:
  "ConvertQuadToInt (show_quad (prefix_mask 24)) = 24 \<and> inet_pton4 (show_quad 0xC0A80001) = Some (htonl 0xC0A80001)"
proof -
  have "(24::nat) \<in> {1..32}" by simp
  then show ?thesis using dotted_quad_roundtrip[of "0xC0A80001"] by force
qed

lemma netmask_text:
  "ConvertNetmaskBitsToInt (show_nat n) = (if n \<le> 99 then int n else - 1)"
proof -
  have "takeWhile is_digit (show_nat n) = show_nat n"
    by (simp add: takeWhile_eq_all_conv show_nat_digits)
  then have t: "length (takeWhile is_digit (show_nat n)) = length (show_nat n)" by (rule arg_cong)
  have l: "length (show_nat n) \<le> 2 \<longleftrightarrow> n \<le> 99"
  proof
    assume "n \<le> 99"
    then show "length (show_nat n) \<le> 2" using length_show_nat[of n 2] by simp
  next
    have big: "length (show_nat m) \<ge> 2" if "m \<ge> 10" for m
      using that by (subst show_nat.simps) (simp add: Suc_le_eq)
    have "length (show_nat n) \<ge> 3" if "n \<ge> 100"
      using that big[of "n div 10"] by (subst show_nat.simps) simp
    then show "length (show_nat n) \<le> 2 \<Longrightarrow> n \<le> 99" by linarith
  qed
  have "atoi (show_nat n) = int n" if "n \<le> 99"
    using atoi_show_int[of "int n"] that by (simp add: show_int_def INT_MAX_def)
  then show ?thesis
    using l t by (cases "n \<le> 99") (simp_all add: ConvertNetmaskBitsToInt_def Let_def)
qed

text \<open>
  The prefix length as text: \<open>ConvertNetmaskBitsToInt\<close> gives every number from 0 to 99 back and
  rejects every longer number; the later range check then accepts exactly 1 to 32.
\<close>

theorem netmask_number:
  "ConvertNetmaskBitsToInt (show_nat n) = (if n \<le> 99 then int n else - 1) \<and>
   (ValidateNetmaskBits (ConvertNetmaskBitsToInt (show_nat n)) \<noteq> None \<longleftrightarrow> 1 \<le> n \<and> n \<le> 32)"
  by (auto simp: netmask_text ValidateNetmaskBits_def Let_def)

text \<open>
  A dotted-quad netmask with holes is accepted: only the lowest set bit is looked at, so
  255.0.255.0 counts as 24 bits.
\<close>

theorem noncontiguous_mask_accepted:
  "ConvertQuadToInt (show_nat 255 @ ''.'' @ show_nat 0 @ ''.'' @ show_nat 255 @ ''.'' @ show_nat 0) = 24"
proof -
  have "htonl (quad 255 0 255 0) = 0xFF00FF00" by (simp add: quad_def htonl_def push_bit_eq_mult drop_bit_eq_div take_bit_eq_mod)
  moreover have "(0xFF00FF00 :: 64 word) = push_bit 8 0xFF00FF" by (simp add: push_bit_eq_mult)
  then have "8 \<le> i" if "bit (0xFF00FF00 :: 64 word) i" for i using that by (metis bit_push_bit_iff)
  then have "\<forall>i. 0 \<le> i \<and> i < 8 \<longrightarrow> \<not> bit (0xFF00FF00 :: 64 word) i" by (meson not_le)
  then have "netmask_scan 0xFF00FF00 0 33 = 8" by (rule netmask_scan_finds[rotated 3]) simp_all
  ultimately show ?thesis
    using inet_pton4_quad[of 255 0 255 0] by (simp add: ConvertQuadToInt_def netmask_bits_def)
qed

lemma scan_route_name: "scan_route l = Some r \<Longrightarrow> r_interface r = route_name l"
  by (auto simp: scan_route_def Let_def split: if_splits option.splits list.splits)

lemma search_lines_routes:
  "map scan_route ls = map Some rs \<Longrightarrow> \<forall>r\<in>set rs. length (r_interface r) < MAXSTR \<Longrightarrow>
   search_lines addr ls b = Ret (True, fold (better_route addr) rs b)"
proof (induction ls arbitrary: rs b)
  case (Cons l ls)
  then obtain r rs' where rs: "rs = r # rs'" by (cases rs) auto
  then have "route_name l = r_interface r" using Cons.prems(1) scan_route_name by auto
  moreover have "better_route addr r b = b" if "\<not> takes_over addr r b"
    using that by (auto simp: takes_over_def better_route_def split: prod.splits)
  ultimately show ?case using rs Cons by (auto simp: not_le strncpy_r_def)
qed simp

text \<open>With one metric the search keeps the largest mask among the matching routes.\<close>

lemma fold_same_metric:
  assumes "\<forall>r\<in>set rs. route_matches addr r \<longrightarrow> r_metric r = k"
    and "b = (k, m, i) \<or> (b = (LONG_MAX, 0, i) \<and> m = 0 \<and> k \<le> LONG_MAX)"
  shows "(fold (better_route addr) rs b = b \<and> (\<forall>r\<in>set rs. route_matches addr r \<longrightarrow> r_mask r < m)) \<or>
    (\<exists>r\<in>set rs. route_matches addr r \<and> fold (better_route addr) rs b = (k, r_mask r, r_interface r) \<and>
       m \<le> r_mask r \<and> (\<forall>r'\<in>set rs. route_matches addr r' \<longrightarrow> r_mask r' \<le> r_mask r))"
  using assms
proof (induction rs arbitrary: b m i)
  case (Cons r rs)
  show ?case
  proof (cases "route_matches addr r \<and> m \<le> r_mask r")
    case True
    then have "better_route addr r b = (k, r_mask r, r_interface r)"
      using Cons.prems by (auto simp: better_route_def)
    then have s: "fold (better_route addr) (r # rs) b = fold (better_route addr) rs (k, r_mask r, r_interface r)"
      by simp
    from Cons.IH[of "(k, r_mask r, r_interface r)" "r_mask r" "r_interface r"] Cons.prems(1)
    consider "fold (better_route addr) rs (k, r_mask r, r_interface r) = (k, r_mask r, r_interface r)"
        "\<forall>r'\<in>set rs. route_matches addr r' \<longrightarrow> r_mask r' < r_mask r"
      | r1 where "r1 \<in> set rs" "route_matches addr r1" "r_mask r \<le> r_mask r1"
        "fold (better_route addr) rs (k, r_mask r, r_interface r) = (k, r_mask r1, r_interface r1)"
        "\<forall>r'\<in>set rs. route_matches addr r' \<longrightarrow> r_mask r' \<le> r_mask r1"
      by auto
    then show ?thesis
    proof cases
      case 1
      then show ?thesis unfolding s using True by (intro disjI2 bexI[of _ r]) (auto simp: less_imp_le)
    next
      case 2
      then show ?thesis unfolding s using True by (intro disjI2 bexI[of _ r1]) auto
    qed
  next
    case False
    then have s: "fold (better_route addr) (r # rs) b = fold (better_route addr) rs b"
      using Cons.prems(2) by (auto simp: better_route_def)
    have r: "route_matches addr r \<Longrightarrow> r_mask r < m" using False by (simp add: not_le)
    from Cons.IH[OF _ Cons.prems(2)] Cons.prems(1)
    consider "fold (better_route addr) rs b = b" "\<forall>r'\<in>set rs. route_matches addr r' \<longrightarrow> r_mask r' < m"
      | r1 where "r1 \<in> set rs" "route_matches addr r1" "m \<le> r_mask r1"
        "fold (better_route addr) rs b = (k, r_mask r1, r_interface r1)"
        "\<forall>r'\<in>set rs. route_matches addr r' \<longrightarrow> r_mask r' \<le> r_mask r1"
      by auto
    then show ?thesis
    proof cases
      case 1
      then show ?thesis unfolding s using r by (intro disjI1) auto
    next
      case 2
      then have "route_matches addr r \<Longrightarrow> r_mask r \<le> r_mask r1" using r by force
      with 2 show ?thesis unfolding s by (intro disjI2 bexI[of _ r1]) auto
    qed
  qed
qed simp

lemma le_mask_le_iff: "n \<le> 32 \<Longrightarrow> k \<le> 32 \<Longrightarrow> le_mask n \<le> le_mask k \<longleftrightarrow> n \<le> k"
  using le_mask_mono[of n k] le_mask_mono[of k n] by (cases n k rule: linorder_cases) auto

text \<open>
  C10. Longest prefix: for a routing table whose matching routes all have the same metric,
  \<open>SearchUsingProcRoute\<close> succeeds with the interface and the netmask of a matching route, and no
  matching route has a longer prefix; comparing the masks as little-endian numbers agrees with
  comparing the prefix lengths.
\<close>

theorem route_longest_prefix:
  assumes "fgets_all 2048 file = header # ls" and "map scan_route ls = map Some rs"
    and "\<forall>r\<in>set rs. \<exists>n \<le> 32. r_mask r = le_mask n"
    and "\<forall>r\<in>set rs. route_matches addr r \<longrightarrow> r_metric r = k" and "k < LONG_MAX"
    and "\<exists>r\<in>set rs. route_matches addr r" and "\<forall>r\<in>set rs. length (r_interface r) < MAXSTR"
  shows "\<exists>r\<in>set rs. \<exists>n \<le> 32. route_matches addr r \<and> r_mask r = le_mask n \<and>
    SearchUsingProcRoute (Some file) addr i m = Ret (OCF_SUCCESS, r_interface r, le_mask n) \<and>
    (\<forall>r'\<in>set rs. \<forall>n' \<le> 32. route_matches addr r' \<and> r_mask r' = le_mask n' \<longrightarrow> n' \<le> n)"
proof -
  have "fold (better_route addr) rs (LONG_MAX, 0, i) \<noteq> (LONG_MAX, 0, i) \<or> \<not> (\<forall>r\<in>set rs. route_matches addr r \<longrightarrow> r_mask r < 0)"
    using assms(6) by auto
  then obtain r where r: "r \<in> set rs" "route_matches addr r"
    "fold (better_route addr) rs (LONG_MAX, 0, i) = (k, r_mask r, r_interface r)"
    "\<forall>r'\<in>set rs. route_matches addr r' \<longrightarrow> r_mask r' \<le> r_mask r"
    using fold_same_metric[OF assms(4), of "(LONG_MAX, 0, i)" 0 i] assms(5) by auto
  then obtain n where n: "n \<le> 32" "r_mask r = le_mask n" using assms(3) by blast
  have "SearchUsingProcRoute (Some file) addr i m = Ret (OCF_SUCCESS, r_interface r, le_mask n)"
    using assms(1,5) r(3) n search_lines_routes[OF assms(2,7)] by (simp add: SearchUsingProcRoute_def)
  moreover have "\<forall>r'\<in>set rs. \<forall>n' \<le> 32. route_matches addr r' \<and> r_mask r' = le_mask n' \<longrightarrow> n' \<le> n"
    using r(4) n le_mask_le_iff by metis
  ultimately show ?thesis using r(1,2) n by blast
qed

text \<open>A line of the routing table: the interface and seven hexadecimal fields.\<close>

definition route_text :: "string \<Rightarrow> string list \<Rightarrow> string" where
  "route_text name fs = name @ concat (map (\<lambda>f. CHR 0x09 # f) fs)"

lemma scan_fields:
  assumes "\<forall>f\<in>set fs. f \<noteq> [] \<and> (\<forall>c\<in>set f. hex_val c \<noteq> None)" and "r = [] \<or> isspace (hd r)"
  shows "scan_lx_list (length fs) (concat (map (\<lambda>f. CHR 0x09 # f) fs) @ r) =
    Some (map (\<lambda>f. of_nat (min (hex_num f) 18446744073709551615)) fs)"
  using assms(1)
proof (induction fs)
  case (Cons f fs)
  have sp: "isspace (CHR 0x09)" by (simp add: isspace_def)
  let ?r = "concat (map (\<lambda>f. CHR 0x09 # f) fs) @ r"
  have "?r = [] \<or> isspace (hd ?r)" using assms(2) sp by (cases fs) auto
  then have "scan_lx ([CHR 0x09] @ f @ ?r) = Some (of_nat (min (hex_num f) 18446744073709551615), ?r)"
    using Cons.prems sp by (intro scan_lx_field) auto
  then show ?case using Cons by simp
qed simp

lemma scan_route_text:
  assumes "name \<noteq> []" and "CHR 0x09 \<notin> set name"
    and "\<forall>f\<in>set fs. f \<noteq> [] \<and> (\<forall>c\<in>set f. hex_val c \<noteq> None)" and "length fs = 7"
  shows "scan_route (route_text name fs @ [CHR 0x0A]) =
    (case map (\<lambda>f. of_nat (min (hex_num f) 18446744073709551615) :: 64 word) fs of
       [a, b, c, d, e, m, k] \<Rightarrow> Some \<lparr>r_interface = name, r_dest = a, r_metric = sint m, r_mask = k\<rparr> | _ \<Rightarrow> None)"
proof -
  obtain f1 r1 where fs: "fs = f1 # r1" using assms(4) by (cases fs) auto
  obtain c1 q1 where f1: "f1 = c1 # q1" "\<not> isspace c1"
    using assms(3) fs hex_not_space by (cases f1) auto
  let ?t = "concat (map (\<lambda>f. CHR 0x09 # f) fs) @ [CHR 0x0A]"
  let ?u = "f1 @ concat (map (\<lambda>f. CHR 0x09 # f) r1) @ [CHR 0x0A]"
  have n: "route_name (route_text name fs @ [CHR 0x0A]) = name"
    using assms(2) fs by (simp add: route_text_def route_name_def takeWhile_append)
  have "dropWhile isspace (drop (length name) (route_text name fs @ [CHR 0x0A])) = ?u"
    using fs f1 by (simp add: route_text_def isspace_def)
  moreover have "scan_lx_list 7 ?u = scan_lx_list 7 ?t"
  proof -
    have sp: "isspace (CHR 0x09)" "isspace (CHR 0x0A)" by (simp_all add: isspace_def)
    let ?r = "concat (map (\<lambda>f. CHR 0x09 # f) r1) @ [CHR 0x0A]"
    have r: "?r = [] \<or> isspace (hd ?r)" using sp by (cases r1) auto
    have "scan_lx ([] @ f1 @ ?r) = scan_lx ([CHR 0x09] @ f1 @ ?r)"
      using scan_lx_field[of "[]" f1 ?r] scan_lx_field[of "[CHR 0x09]" f1 ?r] assms(3) fs r sp
      by (simp del: append_Cons append_Nil)
    then have "scan_lx_list (Suc 6) ?u = scan_lx_list (Suc 6) ?t" unfolding scan_lx_list.simps by (simp add: fs)
    moreover have "Suc 6 = (7::nat)" by simp
    ultimately show ?thesis by metis
  qed
  ultimately show ?thesis
    using n assms(1) scan_fields[OF assms(3), of "[CHR 0x0A]"] assms(4)
    by (simp add: scan_route_def Let_def isspace_def)
qed

text \<open>A table with the route of 10.0.0.0/8 on eth0 and of 10.1.0.0/16 on eth1, and given metrics.\<close>

definition demo_fields :: "string \<Rightarrow> string \<Rightarrow> string \<Rightarrow> string list" where
  "demo_fields dst metric msk = [dst, ''0'', ''1'', ''0'', ''0'', metric, msk]"

definition demo_routes :: "string \<Rightarrow> string \<Rightarrow> string list" where
  "demo_routes m0 m1 =
     [''Iface'', route_text ''eth0'' (demo_fields ''A'' m0 ''FF''), route_text ''eth1'' (demo_fields ''10A'' m1 ''FFFF'')]"

definition demo_route :: "string \<Rightarrow> 64 word \<Rightarrow> int \<Rightarrow> 64 word \<Rightarrow> route" where
  "demo_route name dst metric msk = \<lparr>r_interface = name, r_dest = dst, r_metric = metric, r_mask = msk\<rparr>"

lemma demo_routes_lines:
  assumes "m0 \<in> {''0'', ''5''}" and "m1 \<in> {''0'', ''5''}"
  shows "fgets_all 2048 (text_of (demo_routes m0 m1)) = map (\<lambda>l. l @ [CHR 0x0A]) (demo_routes m0 m1)"
  using assms by (intro fgets_text) (auto simp: demo_routes_def demo_fields_def route_text_def)

lemma demo_routes_scan:
  assumes "m0 \<in> {''0'', ''5''}" and "m1 \<in> {''0'', ''5''}"
  shows "map scan_route (map (\<lambda>l. l @ [CHR 0x0A]) (tl (demo_routes m0 m1))) =
    map Some [demo_route ''eth0'' 0xA (int (hex_num m0)) 0xFF, demo_route ''eth1'' 0x10A (int (hex_num m1)) 0xFFFF]"
proof -
  have "scan_route (route_text ''eth0'' (demo_fields ''A'' m0 ''FF'') @ [CHR 0x0A]) =
      Some (demo_route ''eth0'' 0xA (int (hex_num m0)) 0xFF)"
    using assms by (subst scan_route_text) (auto simp: demo_fields_def demo_route_def hex_num_def hex_val_def)
  moreover have "scan_route (route_text ''eth1'' (demo_fields ''10A'' m1 ''FFFF'') @ [CHR 0x0A]) =
      Some (demo_route ''eth1'' 0x10A (int (hex_num m1)) 0xFFFF)"
    using assms by (subst scan_route_text) (auto simp: demo_fields_def demo_route_def hex_num_def hex_val_def)
  ultimately show ?thesis by (simp add: demo_routes_def)
qed

theorem route_longest_prefix_witness:
  "\<exists>r \<in> {demo_route ''eth0'' 0xA 0 0xFF, demo_route ''eth1'' 0x10A 0 0xFFFF}. \<exists>n \<le> 32.
     route_matches 0x0200010A r \<and> r_mask r = le_mask n \<and>
     SearchUsingProcRoute (Some (text_of (demo_routes ''0'' ''0''))) 0x0200010A [] 0 = Ret (OCF_SUCCESS, r_interface r, le_mask n)"
proof -
  let ?rs = "[demo_route ''eth0'' 0xA 0 0xFF, demo_route ''eth1'' 0x10A 0 0xFFFF]"
  have m: "(0xFF :: 64 word) = le_mask 8" "(0xFFFF :: 64 word) = le_mask 16"
    by (simp_all add: le_mask_def prefix_mask_def htonl_def mask_eq_exp_minus_1 push_bit_eq_mult drop_bit_eq_div take_bit_eq_mod)
  have t: "route_matches 0x0200010A (demo_route ''eth1'' 0x10A 0 0xFFFF)"
    by (simp add: route_matches_def demo_route_def)
  have l: "fgets_all 2048 (text_of (demo_routes ''0'' ''0'')) =
      (''Iface'' @ [CHR 0x0A]) # map (\<lambda>l. l @ [CHR 0x0A]) (tl (demo_routes ''0'' ''0''))"
    by (simp add: demo_routes_lines) (simp add: demo_routes_def)
  have p: "\<forall>r\<in>set ?rs. \<exists>n\<le>32. r_mask r = le_mask n"
    unfolding m by (auto simp: demo_route_def intro: exI[of _ 8] exI[of _ 16])
  have "\<forall>r\<in>set ?rs. route_matches 0x0200010A r \<longrightarrow> r_metric r = 0" by (simp add: demo_route_def)
  moreover have "\<exists>r\<in>set ?rs. route_matches 0x0200010A r" using t by simp
  moreover have "\<forall>r\<in>set ?rs. length (r_interface r) < MAXSTR" by (simp add: demo_route_def MAXSTR_def)
  moreover have "map scan_route (map (\<lambda>l. l @ [CHR 0x0A]) (tl (demo_routes ''0'' ''0''))) = map Some ?rs"
    using demo_routes_scan[of "''0''" "''0''"] by (simp add: hex_num_def hex_val_def)
  ultimately show ?thesis
    using route_longest_prefix[OF l, of ?rs "0x0200010A" 0 "[]" 0] p by (auto simp: LONG_MAX_def)
qed

text \<open>The same table with the two routes exchanged.\<close>

definition rev_routes :: "string \<Rightarrow> string \<Rightarrow> string list" where
  "rev_routes m0 m1 = hd (demo_routes m0 m1) # rev (tl (demo_routes m0 m1))"

text \<open>
  Metric and prefix: of two matching routes, one with the smaller metric and one with the longer
  prefix, the search takes the one that comes first in the table.  The kernel would use the longer
  prefix in both orders.
\<close>

theorem metric_against_prefix:
  assumes "map scan_route [la, lb] = map Some [a, b]" and "route_matches addr a" and "route_matches addr b"
    and "r_metric a < r_metric b" and "r_metric b < LONG_MAX" and "r_mask a < r_mask b"
    and "length (r_interface a) < MAXSTR" and "length (r_interface b) < MAXSTR"
    and "fgets_all 2048 file = [header, la, lb]" and "fgets_all 2048 file' = [header, lb, la]"
  shows "SearchUsingProcRoute (Some file) addr i m = Ret (OCF_SUCCESS, r_interface a, r_mask a) \<and>
    SearchUsingProcRoute (Some file') addr i m = Ret (OCF_SUCCESS, r_interface b, r_mask b)"
  using assms search_lines_routes[of "[la, lb]" "[a, b]" addr] search_lines_routes[of "[lb, la]" "[b, a]" addr]
  by (auto simp: SearchUsingProcRoute_def better_route_def)

theorem metric_against_prefix_witness:
  "SearchUsingProcRoute (Some (text_of (demo_routes ''0'' ''5''))) 0x0200010A [] 0 = Ret (OCF_SUCCESS, ''eth0'', 0xFF) \<and>
   SearchUsingProcRoute (Some (text_of (rev_routes ''0'' ''5''))) 0x0200010A [] 0 = Ret (OCF_SUCCESS, ''eth1'', 0xFFFF)"
proof -
  let ?l = "map (\<lambda>l. l @ [CHR 0x0A]) (demo_routes ''0'' ''5'')"
  have f: "fgets_all 2048 (text_of (demo_routes ''0'' ''5'')) = [''Iface'' @ [CHR 0x0A], ?l ! 1, ?l ! 2]"
    by (simp add: demo_routes_lines) (simp add: demo_routes_def)
  have "fgets_all 2048 (text_of (rev_routes ''0'' ''5'')) = map (\<lambda>l. l @ [CHR 0x0A]) (rev_routes ''0'' ''5'')"
    by (intro fgets_text) (simp add: rev_routes_def demo_routes_def demo_fields_def route_text_def)
  then have f': "fgets_all 2048 (text_of (rev_routes ''0'' ''5'')) = [''Iface'' @ [CHR 0x0A], ?l ! 2, ?l ! 1]"
    by (simp add: rev_routes_def demo_routes_def)
  have s: "map scan_route [?l ! 1, ?l ! 2] = map Some [demo_route ''eth0'' 0xA 0 0xFF, demo_route ''eth1'' 0x10A 5 0xFFFF]"
    using demo_routes_scan[of "''0''" "''5''"] by (simp add: hex_num_def hex_val_def demo_routes_def)
  show ?thesis
    using metric_against_prefix[OF s _ _ _ _ _ _ _ f f', of "0x0200010A" "[]" 0]
    by (simp add: demo_route_def route_matches_def LONG_MAX_def MAXSTR_def)
qed

lemma env_set_Some: "getenv env v = Some s \<Longrightarrow> s \<noteq> [] \<Longrightarrow> env_set env v = Some s"
  by (simp add: env_set_def)

lemma ucast_not_le_mask:
  "(ucast (or (ucast a) (not (le_mask n))) :: 32 word) = or a (not (htonl (prefix_mask n)))"
  by (rule bit_word_eqI) (auto simp: le_mask_def bit_simps)

text \<open>The line printed for an address in host order, an interface and a prefix length.\<close>

definition findif_line :: "bool \<Rightarrow> string \<Rightarrow> nat \<Rightarrow> 32 word \<Rightarrow> string" where
  "findif_line cidr nic n w =
     nic @ [CHR 0x09] @ ''netmask '' @ (if cidr then show_nat n else show_quad (prefix_mask n)) @
     [CHR 0x09] @ ''broadcast '' @ show_quad (or w (not (prefix_mask n))) @ [CHR 0x0A]"

lemma findif_output_prefix:
  assumes "1 \<le> n" and "n \<le> 32"
  shows "findif_output cidr nic (le_mask n) (htonl w) None = (0, findif_line cidr nic n w)"
proof -
  have "netmask_bits (ucast (prefix_mask n)) = int n" by (rule netmask_bits_prefix[OF assms])
  then show ?thesis
    by (simp add: findif_output_def findif_line_def Let_def ucast_le_mask ucast_not_le_mask htonl_or htonl_not show_int_def)
qed

text \<open>
  C29. The program on a given interface: with an address, a prefix length from 1 to 32 given as a
  number or as a dotted quad, and a valid interface, it exits with 0 and prints the interface (up to
  127 characters), the netmask (as the number with \<open>-C\<close>) and the broadcast address, which is the
  address with all host bits set.
\<close>

theorem findif_on_interface:
  assumes "getenv env ''OCF_RESKEY_ip'' = Some (show_quad w)"
    and "getenv env ''OCF_RESKEY_cidr_netmask'' = Some msk" and "msk = show_nat n \<or> msk = show_quad (prefix_mask n)"
    and "1 \<le> n" and "n \<le> 32" and "env_set env ''OCF_RESKEY_broadcast'' = None"
    and "getenv env ''OCF_RESKEY_nic'' = Some nic" and "nic \<noteq> []"
    and "socket_ok env" and "if_flags env (take 15 nic) \<noteq> None" and "args = [] \<or> args = [''-C'']"
  shows "findif_main env args = Ret (0, findif_line (args = [''-C'']) (take 127 nic) n w)"
proof -
  have m: "(if CHR ''.'' \<in> set msk then ConvertQuadToInt msk else ConvertNetmaskBitsToInt msk) = int n"
    using assms(3-5) dot_not_in_number[of n] netmask_text[of n]
    by (auto simp: ConvertQuadToInt_def inet_pton4_show_quad netmask_bits_prefix) (simp_all add: show_quad_def)
  have q: "show_quad u \<noteq> []" for u by (simp add: show_quad_def)
  have g: "GetAddress env = (Some (show_quad w), Some msk, None, Some nic)"
    using assms(1-3,6-8) q by (auto simp: GetAddress_def env_set_Some)
  obtain f where v: "ValidateIFName env nic True = Ret (0, f)"
    using assms(9,10) by (auto simp: ValidateIFName_def IFNAMSIZ_def strncpy_z_def)
  have "findif_search env c a (htonl w) (Some (le_mask n)) None (Some nic) = Ret (0, findif_line c (take 127 nic) n w)" for c a
    using v assms(4,5) by (simp add: findif_search_def findif_finish_def findif_output_prefix MAXSTR_def strncpy_z_def)
  then show ?thesis
    using assms(4,5,11) g m by (auto simp: findif_main_def inet_pton4_show_quad validate_prefix Let_def)
qed

definition demo_findif :: findif_env where
  "demo_findif = \<lparr>getenv = [''OCF_RESKEY_ip'' \<mapsto> show_quad 0xC0A80105, ''OCF_RESKEY_cidr_netmask'' \<mapsto> show_nat 24,
      ''OCF_RESKEY_nic'' \<mapsto> ''eth0''],
     proc_route = None, route_cmd = None, proc_net_dev = None, socket_ok = True, if_flags = [''eth0'' \<mapsto> 0]\<rparr>"

theorem findif_on_interface_witness:
  "findif_main demo_findif [''-C''] = Ret (0, findif_line True ''eth0'' 24 0xC0A80105)"
  using findif_on_interface[of demo_findif "0xC0A80105" "show_nat 24" 24 "''eth0''" "[''-C'']"]
  by (simp add: demo_findif_def env_set_def)

lemma strncpy_z_size [simp]: "0 < cap \<Longrightarrow> strncpy_z cap (cap - 1) (cap - 1) t = Ret (take (cap - 1) t)"
  by (auto simp: strncpy_z_def)

lemma strncpy_r_size [simp]: "length t < cap \<Longrightarrow> strncpy_r cap cap t = Ret t"
  by (simp add: strncpy_r_def)

lemmas buffer_sizes = MAXSTR_def MASK_SIZE_def IFNAMSIZ_def

lemma search_lines_safe:
  "\<forall>l\<in>set ls. length (route_name l) < MAXSTR \<Longrightarrow> \<exists>x. search_lines addr ls b = Ret x"
proof (induction ls arbitrary: b)
  case (Cons l ls)
  have "\<exists>x. Ret y = Ret x" for y :: "bool \<times> best" by blast
  with Cons show ?case using scan_route_name[of l]
    by (cases "scan_route l") (simp_all only: search_lines.simps, auto simp: not_le simp del: split_paired_Ex)
qed (rule exI, rule search_lines.simps(1))

text \<open>The interface found by the route command fits into its buffer.\<close>

lemma route_line_safe:
  assumes "length i < MAXSTR"
  shows "\<exists>m' i' d'. route_line l (m, i, d) = Ret (m', i', d') \<and> length i' < MAXSTR"
proof -
  have z: "strncpy_z MASK_SIZE (MASK_SIZE - 1) (MASK_SIZE - 1) t = Ret (take 19 t)"
    "strncpy_z MAXSTR (MAXSTR - 1) (MAXSTR - 1) t = Ret (take 127 t)" for t
    by (simp_all add: strncpy_z_def buffer_sizes)
  have l: "length (take 127 t) < MAXSTR" for t :: string by (simp add: buffer_sizes)
  show ?thesis using assms unfolding route_line_def Let_def z
    by (simp split: prod.split option.split) (auto simp: buffer_sizes)
qed

lemma route_lines_safe:
  "length i < MAXSTR \<Longrightarrow> \<exists>m' i' d'. route_lines ls (m, i, d) = Ret (m', i', d') \<and> length i' < MAXSTR"
proof (induction ls arbitrary: m i d)
  case (Cons l ls)
  obtain m' i' d' where "route_line l (m, i, d) = Ret (m', i', d')" "length i' < MAXSTR" using route_line_safe[OF Cons.prems] by blast
  with Cons show ?case by simp
qed simp

lemma route_cmd_safe: "\<exists>x. SearchUsingRouteCmd out address addr i m = Ret x"
proof (cases out)
  case (Some t)
  obtain m' i' d' where r: "route_lines (fgets_all 2048 t) ([], [], 0) = Ret (m', i', d')" "length i' < MAXSTR"
    using route_lines_safe[of "[]" "fgets_all 2048 t" "[]" 0] by (auto simp: buffer_sizes)
  have "\<exists>m1. (if m' = [] then strncpy_r MASK_SIZE MASK_SIZE ''255.255.255.255'' else Ret m') = Ret m1" by (simp add: buffer_sizes)
  moreover have "\<exists>m2. (if m1 = ''default'' then strncpy_r MASK_SIZE MASK_SIZE ''0.0.0.0'' else Ret m1) = Ret m2" for m1
    by (simp add: buffer_sizes)
  ultimately obtain m1 m2 where "(if m' = [] then strncpy_r MASK_SIZE MASK_SIZE ''255.255.255.255'' else Ret m') = Ret m1"
    "(if m1 = ''default'' then strncpy_r MASK_SIZE MASK_SIZE ''0.0.0.0'' else Ret m1) = Ret m2" by meson
  with Some r show ?thesis by (auto simp: SearchUsingRouteCmd_def split: option.split)
qed (simp add: SearchUsingRouteCmd_def)

lemma validate_safe: "\<exists>rc f. ValidateIFName env n True = Ret (rc, f)"
  by (auto simp: ValidateIFName_def strncpy_z_def buffer_sizes split: option.split)

lemma first_loopback_safe:
  "\<forall>l\<in>set ls. \<forall>name. get_ifname l = Some name \<longrightarrow> length name < IFNAMSIZ \<Longrightarrow> \<exists>x. first_loopback env ls = Ret x"
proof (induction ls)
  case (Cons l ls)
  have "\<exists>b. is_loopback_interface env n True = Ret b" for n
    using validate_safe[of env n] by (auto simp: is_loopback_interface_def)
  moreover have "\<not> MAXSTR < IFNAMSIZ" by (simp add: buffer_sizes)
  ultimately show ?case using Cons by (cases "get_ifname l") (auto, metis bind_res_simps(1))
qed simp

lemma proc_route_safe:
  assumes "\<forall>l\<in>set (tl (fgets_all 2048 s)). length (route_name l) < MAXSTR"
  shows "\<exists>x. SearchUsingProcRoute (Some s) addr i m = Ret x"
proof (cases "fgets_all 2048 s")
  case (Cons h ls)
  then obtain x where "search_lines addr ls (LONG_MAX, 0, i) = Ret x"
    using assms search_lines_safe[of ls] by fastforce
  with Cons show ?thesis by (cases x) (simp add: SearchUsingProcRoute_def)
qed (simp add: SearchUsingProcRoute_def)

lemma loopback_safe:
  assumes "\<forall>l\<in>set (drop 2 (fgets_all 512 s)). \<forall>name. get_ifname l = Some name \<longrightarrow> length name < IFNAMSIZ"
    and "proc_net_dev env = Some s"
  shows "\<exists>x. get_first_loopback_netdev env = Ret x"
proof -
  consider "fgets_all 512 s = []" | a where "fgets_all 512 s = [a]" | a b ls where "fgets_all 512 s = a # b # ls"
    by (metis list.exhaust)
  then show ?thesis
    using assms first_loopback_safe[of "drop 2 (fgets_all 512 s)" env]
    by cases (simp_all add: get_first_loopback_netdev_def)
qed

text \<open>
  C38. Memory safety: as long as the interface names of the routing table have less than 128 and
  those of the device table less than 16 characters, the program writes to no byte outside its character buffers (\<open>interface\<close> and \<open>best_if\<close> of both
  searches, \<open>mask\<close>, \<open>ifr_name\<close> and \<open>name\<close>), reads no string without end from them and returns an exit code, whatever else the files, the
  output of the route command, the environment and the arguments hold.
\<close>

theorem findif_memory_safe:
  assumes "\<forall>s. proc_route env = Some s \<longrightarrow> (\<forall>l\<in>set (tl (fgets_all 2048 s)). length (route_name l) < MAXSTR)"
    and "\<forall>s. proc_net_dev env = Some s \<longrightarrow>
      (\<forall>l\<in>set (drop 2 (fgets_all 512 s)). \<forall>name. get_ifname l = Some name \<longrightarrow> length name < IFNAMSIZ)"
  shows "\<exists>rc out. findif_main env args = Ret (rc, out)"
proof -
  have p: "\<exists>x. SearchUsingProcRoute (proc_route env) addr i m = Ret x" for addr i m
    using assms(1) proc_route_safe by (cases "proc_route env") (auto simp: SearchUsingProcRoute_def)
  have mechs: "\<exists>x. search_mechs env ad addr = Ret x" for ad addr
    using p[of addr "''UNKNOWN''" "0xFFFFFFFF"] route_cmd_safe by (auto simp: search_mechs_def buffer_sizes)
  have "\<exists>x. get_first_loopback_netdev env = Ret x"
    using assms(2) loopback_safe by (cases "proc_net_dev env") (auto simp: get_first_loopback_netdev_def)
  then have f: "\<exists>x. findif_finish env c ad addr nm bc bi bm = Ret x" for c ad addr nm bc bi bm
    by (auto simp: findif_finish_def split: option.split)
  have "\<exists>x. findif_search env c ad addr nm bc nic = Ret x" for c ad addr nm bc nic
  proof (cases nic)
    case None
    then show ?thesis using mechs[of ad addr] f by (auto simp: findif_search_def)
  next
    case (Some n)
    obtain rc g where "ValidateIFName env n True = Ret (rc, g)" using validate_safe by blast
    with Some f show ?thesis by (auto simp: findif_search_def buffer_sizes strncpy_z_def)
  qed
  then show ?thesis unfolding findif_main_def Let_def by (auto split: option.split prod.split)
qed

theorem findif_memory_safe_witness:
  "\<exists>rc out. findif_main (demo_findif\<lparr>proc_route := Some (text_of (demo_routes ''0'' ''0''))\<rparr>) [] = Ret (rc, out)"
proof (rule findif_memory_safe)
  have "\<forall>l\<in>set (tl (map (\<lambda>l. l @ [CHR 0x0A]) (demo_routes ''0'' ''0''))). length (route_name l) < MAXSTR"
    by (simp add: demo_routes_def demo_fields_def route_text_def route_name_def MAXSTR_def)
  then show "\<forall>s. proc_route (demo_findif\<lparr>proc_route := Some (text_of (demo_routes ''0'' ''0''))\<rparr>) = Some s \<longrightarrow>
      (\<forall>l\<in>set (tl (fgets_all 2048 s)). length (route_name l) < MAXSTR)"
    by (simp add: demo_routes_lines)
qed (simp add: demo_findif_def)

end
