(* ===== verification/Tickle_Tcp.thy ===== *)
theory Tickle_Tcp
  imports Inet
begin

text \<open>
  The TCP tickle tool \<^verbatim>\<open>src/tools/tickle_tcp.c\<close>: the Internet checksums, the parsing of
  addresses with ports, the acknowledgement packets it builds and the main program that reads pairs of
  addresses from the standard input.  Packets are byte lists as they stand in memory on a
  little-endian host.  What the socket calls answer is an argument; the model records every packet
  handed to \<open>sendto\<close> with its destination.
\<close>

section \<open>Structures\<close>

text \<open>
  The union \<open>sock_addr\<close>: family and port are shared, \<open>sin_addr\<close> lies over \<open>sin6_flowinfo\<close>, and the
  members of the IPv6 structure after it are only written by \<open>parse_ipv6\<close>.
\<close>

record sock_addr =
  sa_family :: nat
  sin_port :: "16 word"
  sin_addr :: "32 word"
  sin6_addr :: "byte list"
  sin6_scope_id :: "32 word"

definition AF_INET :: nat where "AF_INET = 2"
definition AF_INET6 :: nat where "AF_INET6 = 10"
definition IPPROTO_TCP :: byte where "IPPROTO_TCP = 6"

lemmas tickle_consts = AF_INET_def AF_INET6_def IPPROTO_TCP_def

text \<open>\<open>struct iphdr\<close>, \<open>struct ip6_hdr\<close> and \<open>struct tcphdr\<close>, with the fields the program sets.\<close>

record iphdr =
  version :: byte
  ihl :: byte
  tot_len :: "16 word"
  ttl :: byte
  protocol :: byte
  saddr :: "32 word"
  daddr :: "32 word"

record ip6_hdr =
  ip6_vfc :: byte
  ip6_plen :: "16 word"
  ip6_nxt :: byte
  ip6_hlim :: byte
  ip6_src :: "byte list"
  ip6_dst :: "byte list"

record tcphdr =
  tcp_source :: "16 word"
  tcp_dest :: "16 word"
  tcp_seq :: "32 word"
  tcp_ack_seq :: "32 word"
  tcp_doff :: byte
  tcp_ack :: bool
  tcp_rst :: bool
  tcp_window :: "16 word"
  tcp_check :: "16 word"

definition ip_bytes :: "iphdr \<Rightarrow> byte list" where
  "ip_bytes h =
     [or (push_bit 4 (version h)) (ihl h), 0] @ mem16 (tot_len h) @ [0, 0, 0, 0, ttl h, protocol h, 0, 0] @
     mem32 (saddr h) @ mem32 (daddr h)"

definition ip6_bytes :: "ip6_hdr \<Rightarrow> byte list" where
  "ip6_bytes h = [ip6_vfc h, 0, 0, 0] @ mem16 (ip6_plen h) @ [ip6_nxt h, ip6_hlim h] @ ip6_src h @ ip6_dst h"

definition tcp_bytes :: "tcphdr \<Rightarrow> byte list" where
  "tcp_bytes h =
     mem16 (tcp_source h) @ mem16 (tcp_dest h) @ mem32 (tcp_seq h) @ mem32 (tcp_ack_seq h) @
     [push_bit 4 (tcp_doff h), or (if tcp_ack h then 0x10 else 0) (if tcp_rst h then 0x04 else 0)] @
     mem16 (tcp_window h) @ mem16 (tcp_check h) @ [0, 0]"

section \<open>Checksums\<close>

fun uint16_checksum :: "32 word \<Rightarrow> byte list \<Rightarrow> 32 word" where
  "uint16_checksum acc (a # b # data) = uint16_checksum (acc + ucast (htons (load16 a b))) data"
| "uint16_checksum acc [a] = acc + ucast (htons (ucast a))"
| "uint16_checksum acc [] = acc"

text \<open>The end of both checksum functions: two folds, byte order, complement, and no zero.\<close>

definition fold_sum :: "32 word \<Rightarrow> 32 word" where
  "fold_sum s = and s 0xFFFF + drop_bit 16 s"

definition finish_checksum :: "32 word \<Rightarrow> 16 word" where
  "finish_checksum acc =
     (let sum2 = not (htons (ucast (fold_sum (fold_sum acc)))) in if sum2 = 0 then 0xFFFF else sum2)"

definition tcp_checksum :: "byte list \<Rightarrow> iphdr \<Rightarrow> 16 word" where
  "tcp_checksum data ip =
     finish_checksum (uint16_checksum 0 data + uint16_checksum 0 (mem32 (saddr ip))
       + uint16_checksum 0 (mem32 (daddr ip)) + (ucast (protocol ip) + of_nat (length data)))"

definition tcp_checksum6 :: "byte list \<Rightarrow> ip6_hdr \<Rightarrow> 16 word" where
  "tcp_checksum6 data ip6 =
     finish_checksum (0 + uint16_checksum 0 (ip6_src ip6) + uint16_checksum 0 (ip6_dst ip6)
       + uint16_checksum 0 (mem32 (htonl (of_nat (length data))) @ mem32 (htonl (ucast (ip6_nxt ip6))))
       + uint16_checksum 0 data)"

section \<open>Parsing\<close>

text \<open>Each parser returns its code and the structure it filled in as far as it came.\<close>

definition parse_ipv4 :: "string \<Rightarrow> 32 word \<Rightarrow> sock_addr \<Rightarrow> int \<times> sock_addr" where
  "parse_ipv4 s port sin =
     (let sin1 = sin\<lparr>sa_family := AF_INET, sin_port := htons (ucast port)\<rparr>
      in case inet_pton4 s of None \<Rightarrow> (- 1, sin1) | Some a \<Rightarrow> (0, sin1\<lparr>sin_addr := a\<rparr>))"

definition parse_ipv6 ::
  "(string \<Rightarrow> 32 word) \<Rightarrow> string \<Rightarrow> string option \<Rightarrow> 32 word \<Rightarrow> sock_addr \<Rightarrow> int \<times> sock_addr" where
  "parse_ipv6 if_nametoindex s iface port sa =
     (let sa1 = sa\<lparr>sa_family := AF_INET6, sin_port := htons (ucast port), sin_addr := 0, sin6_scope_id := 0\<rparr>
      in case inet_pton6 s of
           None \<Rightarrow> (- 1, sa1)
         | Some a \<Rightarrow>
             (0, case iface of
                   Some i \<Rightarrow> if IN6_IS_ADDR_LINKLOCAL a then sa1\<lparr>sin6_addr := a, sin6_scope_id := if_nametoindex i\<rparr>
                             else sa1\<lparr>sin6_addr := a\<rparr>
                 | None \<Rightarrow> sa1\<lparr>sin6_addr := a\<rparr>))"

definition parse_ip ::
  "(string \<Rightarrow> 32 word) \<Rightarrow> string \<Rightarrow> string option \<Rightarrow> 32 word \<Rightarrow> sock_addr \<Rightarrow> int \<times> sock_addr" where
  "parse_ip if_nametoindex addr iface port sa =
     (if CHR '':'' \<notin> set addr then parse_ipv4 addr port sa
      else parse_ipv6 if_nametoindex addr iface port sa)"

text \<open>\<open>strtoul (s, &endp, 10)\<close>: where \<open>endp\<close> points; without digits it is the start.\<close>

definition strtoul10_end :: "string \<Rightarrow> string" where
  "strtoul10_end s = (case scan_dec s of (_, ds, r) \<Rightarrow> if ds = [] then s else r)"

definition parse_ip_port ::
  "(string \<Rightarrow> 32 word) \<Rightarrow> bool \<Rightarrow> string \<Rightarrow> sock_addr \<Rightarrow> int \<times> sock_addr" where
  "parse_ip_port if_nametoindex dup_ok addr sa =
     (if \<not> dup_ok \<or> CHR '':'' \<notin> set addr then (- 1, sa)
      else let after = rev (takeWhile (\<lambda>c. c \<noteq> CHR '':'') (rev addr));
               before = take (length addr - length after - 1) addr
           in if strtoul10_end after \<noteq> [] then (- 1, sa)
              else parse_ip if_nametoindex before None (of_nat (strtoul10 after)) sa)"

section \<open>Packets\<close>

definition tickle_tcphdr :: "sock_addr \<Rightarrow> sock_addr \<Rightarrow> 32 word \<Rightarrow> 32 word \<Rightarrow> bool \<Rightarrow> 16 word \<Rightarrow> tcphdr" where
  "tickle_tcphdr dst src seq ack rst chk =
     \<lparr>tcp_source = sin_port src, tcp_dest = sin_port dst, tcp_seq = seq, tcp_ack_seq = ack, tcp_doff = 20 div 4,
      tcp_ack = True, tcp_rst = rst, tcp_window = htons 1234, tcp_check = chk\<rparr>"

definition tickle_iphdr :: "sock_addr \<Rightarrow> sock_addr \<Rightarrow> iphdr" where
  "tickle_iphdr dst src =
     \<lparr>version = 4, ihl = 20 div 4, tot_len = htons 40, ttl = 255, protocol = IPPROTO_TCP,
      saddr = sin_addr src, daddr = sin_addr dst\<rparr>"

definition tickle_ip6hdr :: "sock_addr \<Rightarrow> sock_addr \<Rightarrow> ip6_hdr" where
  "tickle_ip6hdr dst src =
     \<lparr>ip6_vfc = 0x60, ip6_plen = htons 20, ip6_nxt = IPPROTO_TCP, ip6_hlim = 64,
      ip6_src = sin6_addr src, ip6_dst = sin6_addr dst\<rparr>"

definition ip4pkt :: "sock_addr \<Rightarrow> sock_addr \<Rightarrow> 32 word \<Rightarrow> 32 word \<Rightarrow> bool \<Rightarrow> byte list" where
  "ip4pkt dst src seq ack rst =
     (let ip = tickle_iphdr dst src; tcp = tickle_tcphdr dst src seq ack rst
      in ip_bytes ip @ tcp_bytes (tcp (tcp_checksum (tcp_bytes (tcp 0)) ip)))"

definition ip6pkt :: "sock_addr \<Rightarrow> sock_addr \<Rightarrow> 32 word \<Rightarrow> 32 word \<Rightarrow> bool \<Rightarrow> byte list" where
  "ip6pkt dst src seq ack rst =
     (let ip6 = tickle_ip6hdr dst src; tcp = tickle_tcphdr dst src seq ack rst
      in ip6_bytes ip6 @ tcp_bytes (tcp (tcp_checksum6 (tcp_bytes (tcp 0)) ip6)))"

text \<open>
  What the system answers to one call: \<open>socket\<close>, \<open>setsockopt\<close>, and the result of \<open>sendto\<close> for a packet of a
  given size.
\<close>

record tickle_answer =
  sock_opens :: bool
  hdrincl_set :: bool
  sendto_ret :: "nat \<Rightarrow> int"

text \<open>
  The return code and the packets handed to \<open>sendto\<close> with the destination given; for IPv6 the port is
  cleared during the call.
\<close>

definition send_tickle_ack ::
  "tickle_answer \<Rightarrow> sock_addr \<Rightarrow> sock_addr \<Rightarrow> 32 word \<Rightarrow> 32 word \<Rightarrow> bool \<Rightarrow> int \<times> (byte list \<times> sock_addr) list" where
  "send_tickle_ack ans dst src seq ack rst =
     (if sa_family src = AF_INET then
        (if \<not> sock_opens ans \<or> \<not> hdrincl_set ans then (- 1, [])
         else (if sendto_ret ans 40 \<noteq> 40 then - 1 else 0, [(ip4pkt dst src seq ack rst, dst)]))
      else if sa_family src = AF_INET6 then
        (if \<not> sock_opens ans then (- 1, [])
         else (if sendto_ret ans 60 \<noteq> 60 then - 1 else 0, [(ip6pkt dst src seq ack rst, dst\<lparr>sin_port := 0\<rparr>)]))
      else (- 1, []))"

section \<open>The main program\<close>

text \<open>The environment, and the variables of \<open>main\<close>; \<open>None\<close> is a buffer not yet written.\<close>

record tickle_env =
  tickle_answers :: "nat \<Rightarrow> tickle_answer"
  dup_works :: bool
  name_index :: "string \<Rightarrow> 32 word"

record tickle =
  addr1 :: "string option"
  addr2 :: "string option"
  src_addr :: sock_addr
  dst_addr :: sock_addr
  send_calls :: nat
  wire :: "(byte list \<times> sock_addr) list"

definition ADDR_SIZE :: nat where "ADDR_SIZE = 64"

text \<open>\<open>sscanf (addrline, "%s %s", addr1, addr2)\<close>: there is no bound on the words.\<close>

definition scan_word :: "string \<Rightarrow> string \<times> string" where
  "scan_word s = (let t = dropWhile isspace s in (takeWhile (\<lambda>c. \<not> isspace c) t, dropWhile (\<lambda>c. \<not> isspace c) t))"

definition scan_addrs :: "string \<Rightarrow> tickle \<Rightarrow> unit result \<times> tickle" where
  "scan_addrs line st =
     (case scan_word line of (w1, r) \<Rightarrow>
        if w1 = [] then (Ret (), st)
        else if length w1 \<ge> ADDR_SIZE then (Fault, st)
        else case scan_word r of (w2, _) \<Rightarrow>
          if w2 = [] then (Ret (), st\<lparr>addr1 := Some w1\<rparr>)
          else if length w2 \<ge> ADDR_SIZE then (Fault, st)
          else (Ret (), st\<lparr>addr1 := Some w1, addr2 := Some w2\<rparr>))"

definition read_src :: "tickle_env \<Rightarrow> tickle \<Rightarrow> unit result \<times> tickle" where
  "read_src env st =
     (case addr1 st of
        None \<Rightarrow> (Fault, st)
      | Some a \<Rightarrow>
          (case parse_ip_port (name_index env) (dup_works env) a (src_addr st) of (rc, sa) \<Rightarrow>
             (if rc \<noteq> 0 then Exit (- 1) else Ret (), st\<lparr>src_addr := sa\<rparr>)))"

definition read_dst :: "tickle_env \<Rightarrow> tickle \<Rightarrow> unit result \<times> tickle" where
  "read_dst env st =
     (case addr2 st of
        None \<Rightarrow> (Fault, st)
      | Some a \<Rightarrow>
          (case parse_ip_port (name_index env) (dup_works env) a (dst_addr st) of (rc, sa) \<Rightarrow>
             (if rc \<noteq> 0 then Exit (- 1) else Ret (), st\<lparr>dst_addr := sa\<rparr>)))"

fun send_num :: "tickle_env \<Rightarrow> nat \<Rightarrow> tickle \<Rightarrow> unit result \<times> tickle" where
  "send_num env 0 st = (Ret (), st)"
| "send_num env (Suc k) st =
     (case send_tickle_ack (tickle_answers env (send_calls st)) (dst_addr st) (src_addr st) 0 0 False of (rc, out) \<Rightarrow>
        let st' = st\<lparr>send_calls := send_calls st + 1, wire := wire st @ out\<rparr>
        in if rc \<noteq> 0 then (Exit (- 1), st') else send_num env k st')"

fun tickle_lines :: "tickle_env \<Rightarrow> int \<Rightarrow> string list \<Rightarrow> tickle \<Rightarrow> unit result \<times> tickle" where
  "tickle_lines env num [] st = (Exit 0, st)"
| "tickle_lines env num (l # ls) st =
     and_then (scan_addrs l) (\<lambda>_. and_then (read_src env) (\<lambda>_. and_then (read_dst env)
       (\<lambda>_. and_then (send_num env (nat num)) (\<lambda>_. tickle_lines env num ls)))) st"

text \<open>The options: \<open>num\<close>, or the exit code of \<open>usage\<close> (1) and of an unknown option.\<close>

fun tickle_options :: "(char \<times> string) list \<Rightarrow> int \<Rightarrow> int result" where
  "tickle_options [] num = Ret num"
| "tickle_options ((c, arg) # es) num =
     (if c = CHR ''n'' then tickle_options es (atoi arg)
      else if c = CHR ''h'' then Exit 1
      else Exit EXIT_FAILURE)"

definition tickle_main :: "tickle_env \<Rightarrow> sock_addr \<Rightarrow> sock_addr \<Rightarrow> string list \<Rightarrow> string \<Rightarrow> unit result \<times> tickle" where
  "tickle_main env src dst args input =
     (let st = \<lparr>addr1 = None, addr2 = None, src_addr = src, dst_addr = dst, send_calls = 0, wire = []\<rparr>
      in case tickle_options (fst (getopt_all ''n:h'' args)) 1 of
           Ret num \<Rightarrow> tickle_lines env num (fgets_all 128 input) st
         | Exit e \<Rightarrow> (Exit e, st)
         | Fault \<Rightarrow> (Fault, st))"

section \<open>The Internet checksum\<close>

text \<open>
  The reference: the sum of a byte sequence read as 16-bit numbers in network order.  A segment with
  its pseudo header is correct when this sum is a multiple of 65535, that is, zero in one's complement
  arithmetic (RFC 1071).
\<close>

fun sum16 :: "byte list \<Rightarrow> nat" where
  "sum16 (a # b # r) = 256 * unat a + unat b + sum16 r"
| "sum16 [a] = 256 * unat a"
| "sum16 [] = 0"

lemma sum16_append: "even (length xs) \<Longrightarrow> sum16 (xs @ ys) = sum16 xs + sum16 ys"
  by (induction xs rule: sum16.induct) auto

lemma byte_less: "unat (a :: byte) < 256"
  using unsigned_less[of a, where ?'a = nat] by simp

lemma sum16_bound: "sum16 xs \<le> 65535 * length xs"
proof (induction xs rule: sum16.induct)
  case (1 a b r)
  then show ?case using byte_less[of a] byte_less[of b] by simp
next
  case (2 a)
  then show ?case using byte_less[of a] by simp
qed simp

lemma unat_ucast_htons: "unat (ucast (htons w) :: 32 word) = unat (htons w)"
proof -
  have "unat (htons w) < 2 ^ 16" using unsigned_less[of "htons w", where ?'a = nat] by simp
  then show ?thesis by (simp add: unsigned_ucast_eq take_bit_nat_eq_self_iff)
qed

lemma ntohs_single: "unat (htons (ucast (a :: byte))) = 256 * unat a"
proof -
  have "htons (ucast a) = htons (load16 a 0)" by (simp add: load16_def)
  then show ?thesis by (simp add: ntohs_load16)
qed

lemma unat_plus32: "unat a + unat b < 2 ^ 32 \<Longrightarrow> unat (a + b :: 32 word) = unat a + unat b"
  by (rule unat_add_lem[THEN iffD1]) simp

lemma uint16_checksum_sum:
  "unat acc + sum16 data < 2 ^ 32 \<Longrightarrow> unat (uint16_checksum acc data) = unat acc + sum16 data"
proof (induction acc data rule: uint16_checksum.induct)
  case (1 acc a b data)
  have "unat (acc + ucast (htons (load16 a b))) = unat acc + (256 * unat a + unat b)"
    using "1.prems" by (subst unat_plus32) (simp_all add: unat_ucast_htons ntohs_load16)
  then show ?case using 1 by simp
next
  case (2 acc a)
  then show ?case by (simp add: unat_plus32 unat_ucast_htons ntohs_single)
qed simp

lemma fold_sum_val: "unat (fold_sum s) = unat s mod 65536 + unat s div 65536"
proof -
  have f: "(0xFFFF :: 32 word) = mask 16" by (simp add: mask_eq_exp_minus_1)
  have "unat s < 2 ^ 32" using unsigned_less[of s, where ?'a = nat] by simp
  then have t: "take_bit 32 (unat s) = unat s" by (simp add: take_bit_nat_eq_self_iff)
  have a: "unat (and s 0xFFFF) = unat s mod 65536"
    unfolding f by (simp only: take_bit_eq_mask[symmetric] unsigned_take_bit_eq) (simp add: take_bit_eq_mod)
  have d: "unat (drop_bit 16 s) = unat s div 65536"
    using t by (simp only: unsigned_drop_bit_eq) (simp add: drop_bit_eq_div)
  have "unat s div 65536 < 65536" using \<open>unat s < 2 ^ 32\<close> by (simp add: div_less_iff_less_mult)
  then show ?thesis unfolding fold_sum_def by (subst unat_plus32) (simp_all add: a d)
qed

lemma fold_sum_mod: "unat (fold_sum s) mod 65535 = unat s mod 65535"
proof -
  have "unat s = 65535 * (unat s div 65536) + (unat s mod 65536 + unat s div 65536)"
    using div_mult_mod_eq[of "unat s" 65536] by linarith
  then show ?thesis unfolding fold_sum_val by (metis mod_mult_self4)
qed

lemma fold_twice_small: "unat (fold_sum (fold_sum s)) \<le> 65535"
proof -
  have "unat s < 2 ^ 32" using unsigned_less[of s, where ?'a = nat] by simp
  then have "unat s div 65536 < 65536" by (simp add: div_less_iff_less_mult)
  then have "unat (fold_sum s) \<le> 131070" using mod_less_divisor[of 65536 "unat s"] by (simp add: fold_sum_val)
  moreover have "x mod 65536 + x div 65536 \<le> 65535" if "x \<le> 131070" for x :: nat
  proof (cases "x < 65536")
    case False
    then have "x div 65536 = 1" "x mod 65536 = x - 65536" using that by (simp_all add: div_nat_eqI le_mod_geq)
    with that show ?thesis by linarith
  qed simp
  ultimately show ?thesis unfolding fold_sum_val[of "fold_sum s"] by blast
qed

text \<open>The checksum bytes make up for the sum.\<close>

lemma finish_checksum_mod: "(unat s + sum16 (mem16 (finish_checksum s))) mod 65535 = 0"
proof -
  let ?v = "fold_sum (fold_sum s)"
  define u where "u = (ucast ?v :: 16 word)"
  have u: "unat u = unat ?v"
    using fold_twice_small[of s] by (simp add: u_def unsigned_ucast_eq take_bit_nat_eq_self_iff)
  have s: "sum16 (mem16 w) = unat (htons w)" for w
    using ntohs_load16[of "ucast w" "ucast (drop_bit 8 w)"] load16_mem16[of w] by (simp add: mem16_def)
  have "not u = - 1 - u" by (simp add: not_eq_complement)
  then have n: "unat (not u) = 65535 - unat u" using unat_sub[of u "- 1"] by (simp add: unsigned_minus_1_eq_mask mask_eq_exp_minus_1)
  have "sum16 (mem16 (finish_checksum s)) = (if not (htons u) = 0 then 65535 else 65535 - unat u)"
    unfolding finish_checksum_def s Let_def u_def[symmetric]
    by (simp add: htons_not n) (simp add: htons_def push_bit_eq_mult drop_bit_eq_div take_bit_eq_mod)
  moreover have "unat u = 65535" if "not (htons u) = 0"
  proof -
    have "not u = htons 0" using that by (metis htons_htons htons_not)
    then have "unat (not u) = 0" by (simp add: htons_def)
    with n fold_twice_small[of s] u show ?thesis by linarith
  qed
  ultimately have "sum16 (mem16 (finish_checksum s)) + unat u \<in> {65535, 2 * 65535}"
    using u fold_twice_small[of s] by (cases "not (htons u) = 0") simp_all
  then have "(unat ?v + sum16 (mem16 (finish_checksum s))) mod 65535 = 0"
    unfolding u by (auto simp: add.commute)
  then show ?thesis by (metis fold_sum_mod mod_add_left_eq)
qed

lemma length_headers [simp]: "length (ip_bytes h) = 20" "length (tcp_bytes t) = 20"
  by (simp_all add: ip_bytes_def tcp_bytes_def)

lemma sum16_tcp_check:
  "sum16 (tcp_bytes (tickle_tcphdr dst src seq ack rst chk)) =
   sum16 (tcp_bytes (tickle_tcphdr dst src seq ack rst 0)) + sum16 (mem16 chk)"
  by (simp add: tcp_bytes_def tickle_tcphdr_def sum16_append) (simp add: mem16_def)

lemma sum16_checksum: "sum16 data < 2 ^ 32 \<Longrightarrow> unat (uint16_checksum 0 data) = sum16 data"
  using uint16_checksum_sum[of 0 data] by simp

lemma sum16_pseudo: "sum16 (mem32 (htonl 20)) = 20" "sum16 (mem32 (htonl 6)) = 6"
  by (simp_all add: mem32_def htonl_def push_bit_eq_mult drop_bit_eq_div take_bit_eq_mod)

definition demo_sa :: sock_addr where
  "demo_sa = \<lparr>sa_family = AF_INET, sin_port = 0, sin_addr = 0, sin6_addr = replicate 16 0, sin6_scope_id = 0\<rparr>"

lemma tickle_checksums:
  assumes "length (sin6_addr src) = 16" and "length (sin6_addr dst) = 16"
  shows "length (ip4pkt dst src seq ack rst) = 40 \<and> length (ip6pkt dst src seq ack rst) = 60 \<and>
    sum16 (mem32 (sin_addr src) @ mem32 (sin_addr dst) @ [0, 6, 0, 20] @ drop 20 (ip4pkt dst src seq ack rst)) mod 65535 = 0 \<and>
    sum16 (sin6_addr src @ sin6_addr dst @ [0, 0, 0, 20, 0, 0, 0, 6] @ drop 40 (ip6pkt dst src seq ack rst)) mod 65535 = 0"
proof -
  let ?t = "tcp_bytes (tickle_tcphdr dst src seq ack rst 0)"
  let ?s4 = "uint16_checksum 0 ?t + uint16_checksum 0 (mem32 (sin_addr src)) + uint16_checksum 0 (mem32 (sin_addr dst)) + (6 + 20)"
  let ?s6 = "uint16_checksum 0 (sin6_addr src) + uint16_checksum 0 (sin6_addr dst)
      + uint16_checksum 0 (mem32 (htonl 20) @ mem32 (htonl 6)) + uint16_checksum 0 ?t"
  have b: "sum16 ?t \<le> 1310700" "sum16 (mem32 w) \<le> 262140" "sum16 (sin6_addr src) \<le> 1048560"
    "sum16 (sin6_addr dst) \<le> 1048560" for w
    using sum16_bound[of ?t] sum16_bound[of "mem32 w"] sum16_bound[of "sin6_addr src"] sum16_bound[of "sin6_addr dst"] assms
    by simp_all
  have p: "sum16 (mem32 (htonl 20) @ mem32 (htonl 6)) = 26"
    by (simp add: sum16_append sum16_pseudo)
  have u4: "unat ?s4 = sum16 ?t + sum16 (mem32 (sin_addr src)) + sum16 (mem32 (sin_addr dst)) + 26"
    using b(1) b(2)[of "sin_addr src"] b(2)[of "sin_addr dst"] by (simp add: unat_plus32 sum16_checksum)
  have u6: "unat ?s6 = sum16 (sin6_addr src) + sum16 (sin6_addr dst) + 26 + sum16 ?t"
    using b p by (simp add: unat_plus32 sum16_checksum)
  have "tcp_checksum ?t (tickle_iphdr dst src) = finish_checksum ?s4"
    by (simp add: tcp_checksum_def tickle_iphdr_def tickle_consts)
  then have c4: "drop 20 (ip4pkt dst src seq ack rst) = tcp_bytes (tickle_tcphdr dst src seq ack rst (finish_checksum ?s4))"
    by (simp add: ip4pkt_def Let_def)
  have "tcp_checksum6 ?t (tickle_ip6hdr dst src) = finish_checksum ?s6"
    by (simp add: tcp_checksum6_def tickle_ip6hdr_def tickle_consts)
  then have c6: "drop 40 (ip6pkt dst src seq ack rst) = tcp_bytes (tickle_tcphdr dst src seq ack rst (finish_checksum ?s6))"
    using assms by (simp add: ip6pkt_def Let_def ip6_bytes_def tickle_ip6hdr_def)
  have "length (ip4pkt dst src seq ack rst) = 40" "length (ip6pkt dst src seq ack rst) = 60"
    using assms by (simp_all add: ip4pkt_def ip6pkt_def Let_def ip6_bytes_def tickle_ip6hdr_def)
  moreover have "sum16 (mem32 (sin_addr src) @ mem32 (sin_addr dst) @ [0, 6, 0, 20] @ drop 20 (ip4pkt dst src seq ack rst)) =
      unat ?s4 + sum16 (mem16 (finish_checksum ?s4))"
    unfolding c4 u4 by (simp add: sum16_append sum16_tcp_check[where chk = "finish_checksum s" for s])
  moreover have "sum16 (sin6_addr src @ sin6_addr dst @ [0, 0, 0, 20, 0, 0, 0, 6] @ drop 40 (ip6pkt dst src seq ack rst)) =
      unat ?s6 + sum16 (mem16 (finish_checksum ?s6))"
    unfolding c6 u6 using assms by (simp add: sum16_append sum16_tcp_check[where chk = "finish_checksum s" for s])
  ultimately show ?thesis by (simp only: finish_checksum_mod simp_thms)
qed

text \<open>
  C8. Every packet the program builds carries a correct TCP checksum: over the pseudo header of the
  protocol (RFC 793, RFC 8200) and the segment, the 16-bit one's complement sum is zero, for all
  addresses, ports and sequence numbers; and the packets have the sizes compared with the result of
  \<open>sendto\<close>.
\<close>

theorem tickle_checksum_valid:
  assumes "length (sin6_addr src) = 16" and "length (sin6_addr dst) = 16"
  shows "length (ip4pkt dst src seq ack rst) = 40 \<and> length (ip6pkt dst src seq ack rst) = 60 \<and>
    sum16 (mem32 (sin_addr src) @ mem32 (sin_addr dst) @ [0, 6, 0, 20] @ drop 20 (ip4pkt dst src seq ack rst)) mod 65535 = 0 \<and>
    sum16 (sin6_addr src @ sin6_addr dst @ [0, 0, 0, 20, 0, 0, 0, 6] @ drop 40 (ip6pkt dst src seq ack rst)) mod 65535 = 0"
  using assms by (rule tickle_checksums)

theorem tickle_checksum_valid_witness:
  "length (ip4pkt demo_sa demo_sa 1 2 True) = 40 \<and>
   sum16 (sin6_addr demo_sa @ sin6_addr demo_sa @ [0, 0, 0, 20, 0, 0, 0, 6] @ drop 40 (ip6pkt demo_sa demo_sa 1 2 True)) mod 65535 = 0"
proof -
  have "length (sin6_addr demo_sa) = 16" by (simp add: demo_sa_def)
  then show ?thesis using tickle_checksum_valid[of demo_sa demo_sa 1 2 True] by blast
qed

section \<open>Addresses with ports\<close>

lemma rev_split:
  assumes "CHR '':'' \<notin> set p"
  shows "rev (takeWhile (\<lambda>c. c \<noteq> CHR '':'') (rev (a @ CHR '':'' # p))) = p"
  using assms by (simp add: takeWhile_append)

lemma colon_not_in_number: "CHR '':'' \<notin> set (show_nat n)"
proof
  assume "CHR '':'' \<in> set (show_nat n)"
  from show_nat_digits[OF this] show False by (simp add: is_digit_def)
qed

lemma parse_ip_port_text:
  assumes "CHR '':'' \<notin> set p" and "p \<noteq> []" and "\<forall>c\<in>set p. is_digit c"
  shows "parse_ip_port ix True (a @ CHR '':'' # p) sa = parse_ip ix a None (of_nat (strtoul10 p)) sa"
  using assms rev_split[OF assms(1)] scan_digits[OF assms(3,2)]
  by (simp add: parse_ip_port_def strtoul10_end_def Let_def)

lemma colon_not_in_quad: "CHR '':'' \<notin> set (show_quad w)"
  using colon_not_in_number by (simp add: show_quad_def)

lemma ucast_port: "(ucast (of_nat n :: 32 word) :: 16 word) = of_nat n"
  by (rule bit_word_eqI) (simp add: bit_simps)

lemma parse_ip_port4:
  "p \<le> ULONG_MAX \<Longrightarrow> parse_ip_port ix True (show_quad w @ CHR '':'' # show_nat p) sa =
    (0, sa\<lparr>sa_family := AF_INET, sin_port := htons (of_nat p), sin_addr := htonl w\<rparr>)"
  using colon_not_in_number[of p] colon_not_in_quad[of w]
  by (simp add: parse_ip_port_text show_nat_digits parse_ip_def parse_ipv4_def inet_pton4_show_quad Let_def ucast_port)

lemma colon_in_join: "2 \<le> length gs \<Longrightarrow> CHR '':'' \<in> set (join_colon gs)"
  by (cases gs rule: join_colon.cases) auto

text \<open>
  Reading back an address with a port: a dotted quad or the eight groups of an IPv6 address,
  followed by a colon and a decimal number, fill in the family, the bytes of the address and the port.
  The number is not checked: the port is the number modulo 65536.
\<close>

theorem parse_ip_port_roundtrip:
  assumes "\<forall>g\<in>set gs. hex_group g" and "length gs = 8" and "p \<le> ULONG_MAX"
  shows "parse_ip_port ix True (show_quad w @ CHR '':'' # show_nat p) sa =
      (0, sa\<lparr>sa_family := AF_INET, sin_port := htons (of_nat (p mod 65536)), sin_addr := htonl w\<rparr>) \<and>
    parse_ip_port ix True (join_colon gs @ CHR '':'' # show_nat p) sa =
      (0, sa\<lparr>sa_family := AF_INET6, sin_port := htons (of_nat (p mod 65536)), sin_addr := 0, sin6_scope_id := 0,
             sin6_addr := concat (map group_bytes gs)\<rparr>)"
proof -
  have m: "(of_nat (p mod 65536) :: 16 word) = of_nat p"
    by (rule word_unat_eq_iff[THEN iffD2]) (simp add: unat_of_nat)
  have "CHR '':'' \<in> set (join_colon gs)" using colon_in_join[of gs] assms(2) by simp
  then show ?thesis
    unfolding m using parse_ip_port4[OF assms(3)] colon_not_in_number[of p] assms
    by (simp add: parse_ip_port_text show_nat_digits parse_ip_def parse_ipv6_def inet_pton6_groups Let_def ucast_port)
qed

theorem parse_ip_port_roundtrip_witness:
  "parse_ip_port (\<lambda>_. 0) True (show_quad 0x7F000001 @ CHR '':'' # show_nat 65558) demo_sa =
   (0, demo_sa\<lparr>sa_family := AF_INET, sin_port := htons 22, sin_addr := htonl 0x7F000001\<rparr>)"
proof -
  have "\<forall>g\<in>set (replicate 8 ''ff02''). hex_group g" by (simp add: hex_group_def hex_val_def)
  then show ?thesis
    using parse_ip_port_roundtrip[of "replicate 8 ''ff02''" 65558 "\<lambda>_. 0" "0x7F000001" demo_sa] by (simp add: ULONG_MAX_def)
qed

section \<open>The main loop\<close>

text \<open>
  One end of a connection: the text of an address that \<open>inet_pton\<close> accepts, with colons for IPv6, and a port.  A
  connection has two ends of one family.
\<close>

type_synonym ip_end = "string \<times> nat"
type_synonym conn = "ip_end \<times> ip_end"

abbreviation is_ip6 :: "string \<Rightarrow> bool" where "is_ip6 t \<equiv> CHR '':'' \<in> set t"

definition end_text :: "ip_end \<Rightarrow> string" where
  "end_text e = fst e @ CHR '':'' # show_nat (snd e)"

definition conn_line :: "conn \<Rightarrow> string" where
  "conn_line c = end_text (fst c) @ '' '' @ end_text (snd c)"

definition end_ok :: "ip_end \<Rightarrow> bool" where
  "end_ok e \<longleftrightarrow> snd e < 65536 \<and> length (fst e) \<le> 45 \<and> list_all (\<lambda>c. \<not> isspace c) (fst e) \<and>
     (if is_ip6 (fst e) then inet_pton6 (fst e) \<noteq> None else inet_pton4 (fst e) \<noteq> None)"

definition conn_ok :: "conn \<Rightarrow> bool" where
  "conn_ok c \<longleftrightarrow> end_ok (fst c) \<and> end_ok (snd c) \<and> (is_ip6 (fst (fst c)) \<longleftrightarrow> is_ip6 (fst (snd c)))"

text \<open>
  The packet a connection needs: an IP header with the two addresses, an empty TCP segment with the two ports, sequence number 0
  and only the ACK flag (window 0x04D2 = 1234), and a checksum that is right over the pseudo header; and where it is sent.
\<close>

definition addr_bytes :: "string \<Rightarrow> byte list" where
  "addr_bytes t = (if is_ip6 t then the (inet_pton6 t) else mem32 (the (inet_pton4 t)))"

definition ack_segment :: "nat \<Rightarrow> nat \<Rightarrow> byte list \<Rightarrow> byte list" where
  "ack_segment p q chk =
     [of_nat (p div 256), of_nat (p mod 256), of_nat (q div 256), of_nat (q mod 256)] @ replicate 8 0 @
     [0x50, 0x10, 0x04, 0xD2] @ chk @ [0, 0]"

definition tickles :: "conn \<Rightarrow> byte list \<times> sock_addr \<Rightarrow> bool" where
  "tickles c out \<longleftrightarrow>
     (case (c, out) of (((s, p), (d, q)), (pkt, sa)) \<Rightarrow>
        \<exists>chk. length chk = 2 \<and>
          (if is_ip6 s
           then pkt = [0x60, 0, 0, 0, 0, 20, 6, 64] @ addr_bytes s @ addr_bytes d @ ack_segment p q chk \<and>
             sum16 (addr_bytes s @ addr_bytes d @ [0, 0, 0, 20, 0, 0, 0, 6] @ ack_segment p q chk) mod 65535 = 0 \<and>
             sa_family sa = AF_INET6 \<and> sin6_addr sa = addr_bytes d \<and> sin_port sa = 0
           else pkt = [0x45, 0, 0, 40, 0, 0, 0, 0, 255, 6, 0, 0] @ addr_bytes s @ addr_bytes d @ ack_segment p q chk \<and>
             sum16 (addr_bytes s @ addr_bytes d @ [0, 6, 0, 20] @ ack_segment p q chk) mod 65535 = 0 \<and>
             sa_family sa = AF_INET \<and> mem32 (sin_addr sa) = addr_bytes d))"

text \<open>A system whose calls succeed.\<close>

definition sends_succeed :: "tickle_env \<Rightarrow> bool" where
  "sends_succeed env \<longleftrightarrow> dup_works env \<and>
     (\<forall>k n. sock_opens (tickle_answers env k) \<and> hdrincl_set (tickle_answers env k) \<and> sendto_ret (tickle_answers env k) n = int n)"

text \<open>What \<open>parse_ip_port\<close> writes for an end, and what \<open>send_tickle_ack\<close> sends for a pair.\<close>

definition end_sa :: "sock_addr \<Rightarrow> ip_end \<Rightarrow> sock_addr" where
  "end_sa sa e =
     (let sa1 = sa\<lparr>sin_port := htons (of_nat (snd e))\<rparr> in
      if is_ip6 (fst e)
      then sa1\<lparr>sa_family := AF_INET6, sin_addr := 0, sin6_scope_id := 0, sin6_addr := the (inet_pton6 (fst e))\<rparr>
      else sa1\<lparr>sa_family := AF_INET, sin_addr := the (inet_pton4 (fst e))\<rparr>)"

definition sent_packet :: "sock_addr \<Rightarrow> sock_addr \<Rightarrow> byte list \<times> sock_addr" where
  "sent_packet dst src =
     (if sa_family src = AF_INET then (ip4pkt dst src 0 0 False, dst) else (ip6pkt dst src 0 0 False, dst\<lparr>sin_port := 0\<rparr>))"

lemma tcp_bytes_ack:
  "sin_port src = htons (of_nat p) \<Longrightarrow> sin_port dst = htons (of_nat q) \<Longrightarrow>
   tcp_bytes (tickle_tcphdr dst src 0 0 False chk) = ack_segment p q (mem16 chk)"
proof -
  have "(1234 :: 16 word) = of_nat 1234" by simp
  then have w: "mem16 (htons 1234) = [of_nat (1234 div 256), of_nat (1234 mod 256)]" by (metis mem16_htons)
  have z: "mem32 0 @ mem32 0 = replicate 8 0" by (simp add: mem32_def numeral_eq_Suc)
  assume "sin_port src = htons (of_nat p)" "sin_port dst = htons (of_nat q)"
  then show ?thesis
    using w z by (simp add: tcp_bytes_def tickle_tcphdr_def ack_segment_def mem16_htons push_bit_eq_mult)
qed

lemma tickles_sent:
  assumes "conn_ok (a, b)"
  shows "tickles (a, b) (sent_packet (end_sa dst b) (end_sa src a))"
proof -
  obtain s p d q where ab: "a = (s, p)" "b = (d, q)" by fastforce
  let ?src = "end_sa src a" and ?dst = "end_sa dst b"
  have port: "sin_port ?src = htons (of_nat p)" "sin_port ?dst = htons (of_nat q)" by (simp_all add: ab end_sa_def Let_def)
  have m2: "length (mem16 w) = 2" for w by (simp add: mem16_def)
  have t: "mem16 (htons 40) = [0, 40]" "mem16 (htons 20) = [0, 20]"
    using mem16_htons[of 40] mem16_htons[of 20] by simp_all
  show ?thesis
  proof (cases "is_ip6 s")
    case True
    with assms ab have "inet_pton6 s \<noteq> None" "inet_pton6 d \<noteq> None" "is_ip6 d" by (auto simp: conn_ok_def end_ok_def)
    then obtain x y where xy: "inet_pton6 s = Some x" "inet_pton6 d = Some y" "length x = 16" "length y = 16"
      using inet_pton6_length by blast
    have a6: "sa_family ?src = AF_INET6" "sin6_addr ?src = x" "sa_family ?dst = AF_INET6" "sin6_addr ?dst = y"
      using True \<open>is_ip6 d\<close> xy by (simp_all add: ab end_sa_def Let_def)
    obtain chk where pk: "ip6pkt ?dst ?src 0 0 False = [0x60, 0, 0, 0, 0, 20, 6, 64] @ x @ y @ ack_segment p q (mem16 chk)"
      using a6 t by (simp add: ip6pkt_def Let_def tcp_bytes_ack[OF port] ip6_bytes_def tickle_ip6hdr_def IPPROTO_TCP_def)
    from tickle_checksums[of ?src ?dst 0 0 False] a6 xy(3,4)
    have "sum16 (x @ y @ [0, 0, 0, 20, 0, 0, 0, 6] @ drop 40 (ip6pkt ?dst ?src 0 0 False)) mod 65535 = 0" by simp
    moreover have "drop 40 (ip6pkt ?dst ?src 0 0 False) = ack_segment p q (mem16 chk)" unfolding pk using xy(3,4) by simp
    ultimately show ?thesis
      unfolding tickles_def ab using True a6 xy pk m2 \<open>is_ip6 d\<close>
      by (auto simp: sent_packet_def addr_bytes_def tickle_consts ab intro!: exI[of _ "mem16 chk"])
  next
    case False
    with assms ab have "inet_pton4 s \<noteq> None" "inet_pton4 d \<noteq> None" and n: "\<not> is_ip6 d" by (auto simp: conn_ok_def end_ok_def)
    then obtain x y where xy: "inet_pton4 s = Some x" "inet_pton4 d = Some y" by blast
    have a4: "sa_family ?src = AF_INET" "sin_addr ?src = x" "sa_family ?dst = AF_INET" "sin_addr ?dst = y"
      using False n xy by (simp_all add: ab end_sa_def Let_def)
    have v: "or (push_bit 4 4) (5 :: byte) = 0x45" by (simp add: push_bit_eq_mult)
    obtain chk where pk: "ip4pkt ?dst ?src 0 0 False =
        [0x45, 0, 0, 40, 0, 0, 0, 0, 255, 6, 0, 0] @ mem32 x @ mem32 y @ ack_segment p q (mem16 chk)"
      using a4 t v by (simp add: ip4pkt_def Let_def tcp_bytes_ack[OF port] ip_bytes_def tickle_iphdr_def IPPROTO_TCP_def)
    let ?s6 = "?src\<lparr>sin6_addr := replicate 16 0\<rparr>" and ?d6 = "?dst\<lparr>sin6_addr := replicate 16 0\<rparr>"
    have same: "ip4pkt ?d6 ?s6 0 0 False = ip4pkt ?dst ?src 0 0 False"
      by (simp add: ip4pkt_def Let_def tickle_iphdr_def tickle_tcphdr_def)
    from tickle_checksums[of ?s6 ?d6 0 0 False] same a4
    have "sum16 (mem32 x @ mem32 y @ [0, 6, 0, 20] @ drop 20 (ip4pkt ?dst ?src 0 0 False)) mod 65535 = 0" by simp
    moreover have "drop 20 (ip4pkt ?dst ?src 0 0 False) = ack_segment p q (mem16 chk)" unfolding pk by simp
    ultimately show ?thesis
      unfolding tickles_def ab using False a4 xy pk m2 n
      by (auto simp: sent_packet_def addr_bytes_def tickle_consts ab intro!: exI[of _ "mem16 chk"])
  qed
qed

lemma length_show_byte: "length (show_nat (byte_of i w)) \<le> 3"
  using length_show_nat[of "byte_of i w" 3] byte_of_le[of i w] by simp

lemma length_show_quad: "length (show_quad w) \<le> 45"
  using length_show_byte[of 0 w] length_show_byte[of 1 w] length_show_byte[of 2 w] length_show_byte[of 3 w]
  by (simp add: show_quad_def)

lemma quad_not_space: "list_all (\<lambda>c. \<not> isspace c) (show_quad w)"
proof -
  have "\<not> isspace c" if "c \<in> set (show_nat k)" for c k using is_digit_not_space[OF show_nat_digits[OF that]] .
  then show ?thesis by (auto simp: list_all_iff show_quad_def isspace_def)
qed

lemma end_text_no_space: "end_ok e \<Longrightarrow> c \<in> set (end_text e) \<Longrightarrow> \<not> isspace c"
  using is_digit_not_space[of c] by (auto simp: end_text_def end_ok_def list_all_iff isspace_def dest: show_nat_digits)

lemma length_end_text: "end_ok e \<Longrightarrow> length (end_text e) \<le> 51"
  using length_show_nat[of "snd e" 5] by (simp add: end_text_def end_ok_def)

lemma scan_word_text:
  assumes "\<forall>c\<in>set w. \<not> isspace c" and "w \<noteq> []" and "\<forall>c\<in>set sp. isspace c" and "r = [] \<or> isspace (hd r)"
  shows "scan_word (sp @ w @ r) = (w, r)"
proof -
  have "dropWhile isspace (sp @ w @ r) = w @ r"
    using assms(1,2,3) by (cases w) (simp_all add: dropWhile_append)
  moreover have "takeWhile (\<lambda>c. \<not> isspace c) (w @ r) = w" "dropWhile (\<lambda>c. \<not> isspace c) (w @ r) = r"
    using assms(1,4) by (cases r; simp add: takeWhile_append dropWhile_append)+
  ultimately show ?thesis by (simp add: scan_word_def Let_def)
qed

lemma scan_conn_line:
  assumes "end_ok a" and "end_ok b"
  shows "scan_addrs (conn_line (a, b) @ [CHR 0x0A]) st = (Ret (), st\<lparr>addr1 := Some (end_text a), addr2 := Some (end_text b)\<rparr>)"
proof -
  have ne: "end_text e \<noteq> []" for e by (simp add: end_text_def)
  have sp: "isspace (CHR '' '')" "isspace (CHR 0x0A)" by (simp_all add: isspace_def)
  have "scan_word ([] @ end_text a @ ('' '' @ end_text b @ [CHR 0x0A])) = (end_text a, '' '' @ end_text b @ [CHR 0x0A])"
    using end_text_no_space[OF assms(1)] ne sp by (intro scan_word_text) auto
  moreover have "scan_word ('' '' @ end_text b @ [CHR 0x0A]) = (end_text b, [CHR 0x0A])"
    using end_text_no_space[OF assms(2)] ne sp by (intro scan_word_text) auto
  ultimately show ?thesis
    using length_end_text[OF assms(1)] length_end_text[OF assms(2)] ne
    by (simp add: scan_addrs_def conn_line_def ADDR_SIZE_def)
qed

lemma parse_end:
  assumes "end_ok e"
  shows "parse_ip_port ix True (end_text e) sa = (0, end_sa sa e)"
proof -
  have p: "snd e \<le> ULONG_MAX" using assms by (simp add: end_ok_def ULONG_MAX_def)
  show ?thesis
    using assms colon_not_in_number[of "snd e"] p
    by (auto simp: end_text_def end_sa_def end_ok_def parse_ip_port_text show_nat_digits parse_ip_def parse_ipv4_def parse_ipv6_def
        Let_def ucast_port split: if_splits)
qed

lemma send_num_ok:
  assumes "sends_succeed env" and "sa_family (src_addr st) = AF_INET \<or> sa_family (src_addr st) = AF_INET6"
  shows "\<exists>k'. send_num env k st =
    (Ret (), st\<lparr>send_calls := k', wire := wire st @ replicate k (sent_packet (dst_addr st) (src_addr st))\<rparr>)"
  using assms
proof (induction k arbitrary: st)
  case 0
  show ?case by (intro exI[of _ "send_calls st"]) simp
next
  case (Suc k)
  let ?st = "st\<lparr>send_calls := send_calls st + 1, wire := wire st @ [sent_packet (dst_addr st) (src_addr st)]\<rparr>"
  have "send_num env (Suc k) st = send_num env k ?st"
    using Suc.prems by (auto simp: send_tickle_ack_def sends_succeed_def sent_packet_def tickle_consts)
  then show ?case using Suc.IH[of ?st] Suc.prems by auto
qed

text \<open>The part of a round after the line is scanned.\<close>

lemma round_sends:
  assumes "addr1 st = Some (end_text a)" and "addr2 st = Some (end_text b)" and "conn_ok (a, b)" and "sends_succeed env"
  shows "\<exists>st' out. and_then (read_src env) (\<lambda>_. and_then (read_dst env) (\<lambda>_. and_then (send_num env n) f)) st = f () st' \<and>
    wire st' = wire st @ replicate n out \<and> tickles (a, b) out"
proof -
  let ?st = "st\<lparr>src_addr := end_sa (src_addr st) a, dst_addr := end_sa (dst_addr st) b\<rparr>"
  have ok: "end_ok a" "end_ok b" using assms(3) by (simp_all add: conn_ok_def)
  have "sa_family (src_addr ?st) = AF_INET \<or> sa_family (src_addr ?st) = AF_INET6" by (simp add: end_sa_def Let_def)
  then obtain k' where k: "send_num env n ?st =
      (Ret (), ?st\<lparr>send_calls := k', wire := wire ?st @ replicate n (sent_packet (dst_addr ?st) (src_addr ?st))\<rparr>)"
    using send_num_ok[OF assms(4)] by blast
  have "dup_works env" using assms(4) by (simp add: sends_succeed_def)
  then have "and_then (read_src env) (\<lambda>_. and_then (read_dst env) (\<lambda>_. and_then (send_num env n) f)) st = and_then (send_num env n) f ?st"
    using assms(1,2) parse_end[OF ok(1)] parse_end[OF ok(2)] by (simp add: and_then_def read_src_def read_dst_def)
  then show ?thesis
    using k tickles_sent[OF assms(3), of "dst_addr st" "src_addr st"]
    by (intro exI[of _ "?st\<lparr>send_calls := k', wire := wire ?st @ replicate n (sent_packet (dst_addr ?st) (src_addr ?st))\<rparr>"]
        exI[of _ "sent_packet (dst_addr ?st) (src_addr ?st)"]) simp
qed

lemma tickle_lines_send:
  assumes "sends_succeed env" and "\<forall>c\<in>set cs. conn_ok c"
  shows "\<exists>st' out. tickle_lines env n (map (\<lambda>c. conn_line c @ [CHR 0x0A]) cs) st = (Exit 0, st') \<and> wire st' = wire st @ out \<and>
    list_all2 tickles (concat (map (replicate (nat n)) cs)) out"
  using assms(2)
proof (induction cs arbitrary: st)
  case (Cons c cs)
  obtain a b where c: "c = (a, b)" by (cases c) simp
  then have ok: "conn_ok (a, b)" "end_ok a" "end_ok b" using Cons.prems by (auto simp: conn_ok_def)
  let ?s1 = "st\<lparr>addr1 := Some (end_text a), addr2 := Some (end_text b)\<rparr>"
  let ?f = "\<lambda>_. tickle_lines env n (map (\<lambda>c. conn_line c @ [CHR 0x0A]) cs)"
  obtain s2 o1 where k: "and_then (read_src env) (\<lambda>_. and_then (read_dst env) (\<lambda>_. and_then (send_num env (nat n)) ?f)) ?s1 = ?f () s2"
      "wire s2 = wire ?s1 @ replicate (nat n) o1" "tickles (a, b) o1"
    using round_sends[OF _ _ ok(1) assms(1), of ?s1 "nat n" ?f] by auto
  obtain st' o2 where i: "?f () s2 = (Exit 0, st')" "wire st' = wire s2 @ o2" "list_all2 tickles (concat (map (replicate (nat n)) cs)) o2"
    using Cons.IH[of s2] Cons.prems by auto
  have "tickle_lines env n (map (\<lambda>c. conn_line c @ [CHR 0x0A]) (c # cs)) st = (Exit 0, st')"
    using scan_conn_line[OF ok(2,3), of st] c k(1) i(1) by simp
  moreover have "list_all2 tickles (replicate (nat n) (a, b)) (replicate (nat n) o1)"
    using k(3) by (simp add: list_all2_conv_all_nth)
  ultimately show ?case
    using i k(2) c by (intro exI[of _ st'] exI[of _ "replicate (nat n) o1 @ o2"]) (simp add: list_all2_appendI)
qed simp

text \<open>
  C28. The program on a list of connections, IPv4 and IPv6 mixed, each line two addresses of one family with ports
  below 65536, in any form that \<open>inet_pton\<close> accepts: when the system calls succeed, \<open>tickle_tcp -n n\<close> sends, for every input line in order, exactly
  \<open>n\<close> packets to the second address and exits with 0; each is, byte by byte, an empty acknowledgement
  from the first address and port to the second, with sequence number 0 and a correct checksum.
\<close>

theorem tickle_all_connections:
  assumes "sends_succeed env" and "\<forall>c\<in>set cs. conn_ok c" and "int n \<le> INT_MAX"
  shows "\<exists>st. tickle_main env src dst [''-n'', show_nat n] (text_of (map conn_line cs)) = (Exit 0, st) \<and>
    list_all2 tickles (concat (map (replicate n) cs)) (wire st)"
proof -
  have "CHR 0x0A \<notin> set (conn_line c) \<and> length (conn_line c) + 1 < 128" if "c \<in> set cs" for c
  proof -
    have ok: "end_ok (fst c)" "end_ok (snd c)" using assms(2) that by (auto simp: conn_ok_def)
    have "CHR 0x0A \<notin> set (end_text e)" if "end_ok e" for e
      using end_text_no_space[OF that, of "CHR 0x0A"] by (auto simp: isspace_def)
    then show ?thesis using ok length_end_text[OF ok(1)] length_end_text[OF ok(2)] by (simp add: conn_line_def)
  qed
  then have "fgets_all 128 (text_of (map conn_line cs)) = map (\<lambda>c. conn_line c @ [CHR 0x0A]) cs"
    by (subst fgets_text) auto
  moreover have "tickle_options (fst (getopt_all ''n:h'' [''-n'', show_nat n])) 1 = Ret (int n)"
    using atoi_show_int[of "int n"] assms(3) by (simp add: show_int_def)
  ultimately show ?thesis
    using tickle_lines_send[OF assms(1,2), of "int n" "\<lparr>addr1 = None, addr2 = None, src_addr = src, dst_addr = dst,
      send_calls = 0, wire = []\<rparr>"] by (auto simp: tickle_main_def Let_def)
qed

definition demo_tickle_env :: tickle_env where
  "demo_tickle_env = \<lparr>tickle_answers = \<lambda>_. \<lparr>sock_opens = True, hdrincl_set = True, sendto_ret = int\<rparr>,
     dup_works = True, name_index = \<lambda>_. 0\<rparr>"

definition demo_conns :: "conn list" where
  "demo_conns = [((show_quad 0x0A000001, 2049), (show_quad 0x0A000002, 900)), ((''2001::1'', 80), (''2001::2'', 1024))]"

lemma demo_sends: "sends_succeed demo_tickle_env"
  by (simp add: sends_succeed_def demo_tickle_env_def)

lemma demo_conn6: "inet_pton6 ''2001::1'' \<noteq> None" "inet_pton6 ''2001::2'' \<noteq> None"
proof -
  have g: "hex_group ''2001''" "hex_group ''1''" "hex_group ''2''" by (simp_all add: hex_group_def hex_val_def)
  from inet_pton6_compressed[of "[''2001'']" "[''1'']"] g show "inet_pton6 ''2001::1'' \<noteq> None" by simp
  from inet_pton6_compressed[of "[''2001'']" "[''2'']"] g show "inet_pton6 ''2001::2'' \<noteq> None" by simp
qed

lemma demo_conns_ok: "\<forall>c\<in>set demo_conns. conn_ok c"
proof -
  have "end_ok (show_quad w, p)" if "p < 65536" for w p
    using that colon_not_in_quad[of w] length_show_quad[of w] quad_not_space[of w]
    by (simp add: end_ok_def inet_pton4_show_quad)
  moreover have "end_ok (''2001::1'', 80)" "end_ok (''2001::2'', 1024)"
    using demo_conn6 by (simp_all add: end_ok_def isspace_def)
  ultimately show ?thesis using colon_not_in_quad by (simp add: demo_conns_def conn_ok_def)
qed

theorem tickle_all_connections_witness:
  "\<exists>st. tickle_main demo_tickle_env demo_sa demo_sa [''-n'', show_nat 3] (text_of (map conn_line demo_conns)) = (Exit 0, st) \<and>
    length (wire st) = 6"
proof -
  from tickle_all_connections[OF demo_sends demo_conns_ok, of 3 demo_sa demo_sa] obtain st
    where "tickle_main demo_tickle_env demo_sa demo_sa [''-n'', show_nat 3] (text_of (map conn_line demo_conns)) = (Exit 0, st)"
      "list_all2 tickles (concat (map (replicate 3) demo_conns)) (wire st)" by (auto simp: INT_MAX_def)
  moreover from this(2) have "length (wire st) = 6"
    by (auto dest!: list_all2_lengthD simp: demo_conns_def)
  ultimately show ?thesis by blast
qed

text \<open>
  A blank line is not skipped: the buffers keep their contents, so the previous pair of addresses
  is tickled again; as the first line it makes the program read uninitialised memory.
\<close>

theorem tickle_blank_line:
  assumes "\<forall>c\<in>set l. isspace c" and "sends_succeed env" and "conn_ok (a, b)"
    and "addr1 st = Some (end_text a)" and "addr2 st = Some (end_text b)"
  shows "(\<exists>st' out. tickle_lines env n (l # ls) st = tickle_lines env n ls st' \<and>
      wire st' = wire st @ replicate (nat n) out \<and> tickles (a, b) out) \<and>
    fst (tickle_lines env n (l # ls) (st\<lparr>addr1 := None\<rparr>)) = Fault"
proof -
  have "dropWhile isspace l = []" using assms(1) by (simp add: dropWhile_eq_Nil_conv)
  then have "scan_word l = ([], [])" unfolding scan_word_def by (simp only: Let_def) simp
  then have s: "scan_addrs l t = (Ret (), t)" for t by (simp add: scan_addrs_def)
  have "fst (tickle_lines env n (l # ls) (st\<lparr>addr1 := None\<rparr>)) = Fault"
    by (simp add: s) (simp add: and_then_def read_src_def)
  moreover have "\<exists>st' out. tickle_lines env n (l # ls) st = tickle_lines env n ls st' \<and>
      wire st' = wire st @ replicate (nat n) out \<and> tickles (a, b) out"
    using round_sends[OF assms(4,5,3,2), of "nat n" "\<lambda>_. tickle_lines env n ls"] by (auto simp: s)
  ultimately show ?thesis by blast
qed

theorem tickle_blank_line_witness:
  "\<exists>st. tickle_lines demo_tickle_env 2 ['' ''] \<lparr>addr1 = Some (end_text (show_quad 1, 80)), addr2 = Some (end_text (show_quad 2, 81)),
     src_addr = demo_sa, dst_addr = demo_sa, send_calls = 0, wire = []\<rparr> = (Exit 0, st) \<and> length (wire st) = 2"
proof -
  have "\<forall>c\<in>set '' ''. isspace c" by (simp add: isspace_def)
  moreover have "conn_ok ((show_quad 1, 80), (show_quad 2, 81))"
    using colon_not_in_quad length_show_quad quad_not_space by (simp add: conn_ok_def end_ok_def inet_pton4_show_quad)
  ultimately show ?thesis
    using tickle_blank_line[OF _ demo_sends, of "'' ''" "(show_quad 1, 80)" "(show_quad 2, 81)"
      "\<lparr>addr1 = Some (end_text (show_quad 1, 80)), addr2 = Some (end_text (show_quad 2, 81)),
     src_addr = demo_sa, dst_addr = demo_sa, send_calls = 0, wire = []\<rparr>" 2 "[]"] by force
qed

end
