(* ===== verification/Pid_File.thy ===== *)
theory Pid_File
  imports C_Lib
begin

text \<open>
  The pid file with which \<^verbatim>\<open>IPv6addr\<close> (and, with the same code, \<^verbatim>\<open>send_arp\<close> with libnet) makes sure that
  only one process works on an address: \<open>create_pid_directory\<close> and \<open>write_pid_file\<close> of
  \<^verbatim>\<open>src/heartbeat/IPv6addr.c\<close>.  A process that finds the file reads it, deletes it, kills the process named in it and
  tries again.  Files are numbered: a process that has opened a file keeps it when the path is given to
  another one.  The script lists for the system calls to come what other processes do with the path before the call, and how the
  call ends; after its last entry nobody else interferes and the calls work, so a run has finitely many
  interferences: with others that make the file anew before every attempt the loop of the code goes on for ever, and such runs
  are outside.  Other processes create and delete files and write into files that are not ours.
\<close>

section \<open>Files and calls\<close>

datatype dir_state = Dir_Exists | Not_A_Directory | Dir_Missing | Stat_Fails

record pid_env =
  dir_copy_ok :: bool
  pid_dir :: dir_state
  mkdir_ok :: bool
  own_pid :: nat
  own_pgrp :: nat

datatype pid_act = Other_Unlink | Other_Create string | Other_Write string

text \<open>
  \<open>Call_Short n\<close>: at most \<open>n\<close> bytes are transferred; \<open>Call_Esrch\<close>: the error \<open>ESRCH\<close>; \<open>Call_Error\<close>: any other.
\<close>

datatype call_answer = Call_Ok | Call_Short nat | Call_Eintr | Call_Esrch | Call_Error

record pid_state =
  pid_link :: "nat option"                              \<comment> \<open>the file at the path\<close>
  pid_files :: "nat \<Rightarrow> string"
  pid_fresh :: nat
  pid_script :: "(pid_act list \<times> call_answer) list"
  pid_own :: "nat option"                               \<comment> \<open>the file this process created\<close>
  pid_lost :: bool                                      \<comment> \<open>whether another process deleted it\<close>
  readings :: "string list"                             \<comment> \<open>what was read from the path\<close>
  signalled :: "(int \<times> call_answer) list"              \<comment> \<open>the calls of \<open>kill\<close>\<close>

definition pid_text :: "pid_state \<Rightarrow> string option" where
  "pid_text st = map_option (pid_files st) (pid_link st)"

fun act_other :: "pid_act \<Rightarrow> pid_state \<Rightarrow> pid_state" where
  "act_other Other_Unlink st =
     st\<lparr>pid_link := None, pid_lost := (pid_lost st \<or> (pid_own st \<noteq> None \<and> pid_link st = pid_own st))\<rparr>"
| "act_other (Other_Create tx) st =
     (if pid_link st = None
      then st\<lparr>pid_link := Some (pid_fresh st), pid_files := (pid_files st)(pid_fresh st := tx), pid_fresh := pid_fresh st + 1\<rparr>
      else st)"
| "act_other (Other_Write tx) st =
     (case pid_link st of
        Some i \<Rightarrow> if pid_own st = Some i then st else st\<lparr>pid_files := (pid_files st)(i := tx)\<rparr>
      | None \<Rightarrow> st)"

definition pid_call :: "pid_state \<Rightarrow> call_answer \<times> pid_state" where
  "pid_call st =
     (case pid_script st of
        [] \<Rightarrow> (Call_Ok, st)
      | (acts, a) # r \<Rightarrow> (a, fold act_other acts (st\<lparr>pid_script := r\<rparr>)))"

text \<open>\<open>open\<close> with \<open>O_CREAT|O_EXCL\<close>: an error other than \<open>EEXIST\<close>, the file exists, or it is created, empty.\<close>

datatype excl_answer = Excl_Error | Excl_Exists | Excl_Created nat

definition open_excl :: "pid_state \<Rightarrow> excl_answer \<times> pid_state" where
  "open_excl st =
     (case pid_call st of (a, s) \<Rightarrow>
        if a \<noteq> Call_Ok then (Excl_Error, s)
        else if pid_link s \<noteq> None then (Excl_Exists, s)
        else (Excl_Created (pid_fresh s),
              s\<lparr>pid_link := Some (pid_fresh s), pid_files := (pid_files s)(pid_fresh s := []), pid_fresh := pid_fresh s + 1,
                pid_own := Some (pid_fresh s), pid_lost := False\<rparr>))"

definition open_old :: "pid_state \<Rightarrow> nat option \<times> pid_state" where
  "open_old st = (case pid_call st of (a, s) \<Rightarrow> (if a = Call_Ok then pid_link s else None, s))"

lemma pid_call_length: "length (pid_script (snd (pid_call st))) = length (pid_script st) - 1"
proof -
  have "pid_script (fold act_other acts s) = pid_script s" for acts s
  proof (induction acts arbitrary: s)
    case (Cons a acts)
    have "pid_script (act_other a s) = pid_script s" by (cases a) (auto split: option.split)
    with Cons show ?case by simp
  qed simp
  then show ?thesis by (auto simp: pid_call_def split: list.split)
qed

lemma pid_call_quiet: "pid_script st = [] \<Longrightarrow> pid_call st = (Call_Ok, st)"
  by (simp add: pid_call_def)

lemma pid_call_script: "fst (pid_call st) \<noteq> Call_Ok \<Longrightarrow> pid_script st \<noteq> []"
  by (auto simp: pid_call_def)

text \<open>The inner loops: an interrupted \<open>read\<close> or \<open>write\<close> is repeated.\<close>

function read_old :: "nat \<Rightarrow> pid_state \<Rightarrow> string option \<times> pid_state" where
  "read_old i st =
     (let s = snd (pid_call st) in
      case fst (pid_call st) of
        Call_Eintr \<Rightarrow> read_old i s
      | Call_Ok \<Rightarrow> (Some (take 10 (pid_files s i)), s\<lparr>readings := readings s @ [take 10 (pid_files s i)]\<rparr>)
      | Call_Short n \<Rightarrow> (Some (take n (take 10 (pid_files s i))), s\<lparr>readings := readings s @ [take n (take 10 (pid_files s i))]\<rparr>)
      | _ \<Rightarrow> (None, s))"
  by pat_completeness auto
termination
proof (relation "measure (length \<circ> pid_script \<circ> snd)")
  fix i st s assume s: "s = snd (pid_call st)" and "fst (pid_call st) = Call_Eintr"
  then have "pid_script st \<noteq> []" using pid_call_script[of st] by auto
  then show "((i, s), (i, st)) \<in> measure (length \<circ> pid_script \<circ> snd)" by (simp add: s pid_call_length)
qed simp

function write_own :: "string \<Rightarrow> nat \<Rightarrow> pid_state \<Rightarrow> bool \<times> pid_state" where
  "write_own tx i st =
     (let s = snd (pid_call st) in
      case fst (pid_call st) of
        Call_Eintr \<Rightarrow> write_own tx i s
      | Call_Ok \<Rightarrow> (True, s\<lparr>pid_files := (pid_files s)(i := tx @ drop (length tx) (pid_files s i))\<rparr>)
      | Call_Short n \<Rightarrow>
          (length tx \<le> n, s\<lparr>pid_files := (pid_files s)(i := take n tx @ drop (length (take n tx)) (pid_files s i))\<rparr>)
      | _ \<Rightarrow> (False, s))"
  by pat_completeness auto
termination
proof (relation "measure (\<lambda>(_, _, st). length (pid_script st))")
  fix tx i st s assume s: "s = snd (pid_call st)" and "fst (pid_call st) = Call_Eintr"
  then have "pid_script st \<noteq> []" using pid_call_script[of st] by auto
  then show "((tx, i, s), (tx, i, st)) \<in> measure (\<lambda>(_, _, st). length (pid_script st))" by (simp add: s pid_call_length)
qed simp

declare read_old.simps [simp del] write_own.simps [simp del]

definition unlink_pid :: "pid_state \<Rightarrow> bool \<times> pid_state" where
  "unlink_pid st =
     (case pid_call st of (a, s) \<Rightarrow>
        if a = Call_Ok \<and> pid_link s \<noteq> None then (True, s\<lparr>pid_link := None\<rparr>) else (False, s))"

section \<open>Making the pid file\<close>

definition create_pid_directory :: "pid_env \<Rightarrow> int" where
  "create_pid_directory env =
     (if \<not> dir_copy_ok env then - 1
      else case pid_dir env of
        Stat_Fails \<Rightarrow> - 1
      | Dir_Exists \<Rightarrow> 0
      | Not_A_Directory \<Rightarrow> - 1
      | Dir_Missing \<Rightarrow> if mkdir_ok env then 0 else - 1)"

text \<open>
  \<open>kill (pid, SIGKILL)\<close>: the argument is converted to \<open>pid_t\<close>; zero and negative numbers name process
  groups.  A signal that reaches the process itself ends it.
\<close>

definition kill_target :: "nat \<Rightarrow> int" where
  "kill_target pid = sint (word_of_int (int pid) :: 32 word)"

definition hits_self :: "pid_env \<Rightarrow> int \<Rightarrow> bool" where
  "hits_self env k \<longleftrightarrow> k = 0 \<or> k = int (own_pid env) \<or> (k < - 1 \<and> k = - int (own_pgrp env))"

text \<open>An exit code below zero stands for the end by the signal of that number.\<close>

definition SIGKILL :: int where "SIGKILL = 9"

definition kill_old :: "pid_env \<Rightarrow> int \<Rightarrow> pid_state \<Rightarrow> bool result \<times> pid_state" where
  "kill_old env k st =
     (case pid_call st of (a, s) \<Rightarrow>
        let s1 = s\<lparr>signalled := signalled s @ [(k, a)]\<rparr> in
        if a = Call_Ok \<and> hits_self env k then (Exit (- SIGKILL), s1)
        else (Ret (a = Call_Ok \<or> a = Call_Esrch), s1))"

text \<open>
  One round of the loop: \<open>Inl f\<close> when the file \<open>f\<close> is created, \<open>Inr rc\<close> for a return, \<open>None\<close> when the loop goes on.  Ten characters
  cannot exceed the range of \<open>strtoul\<close>, so the test for \<open>ERANGE\<close> never holds.
\<close>

definition pid_round :: "pid_env \<Rightarrow> pid_state \<Rightarrow> (nat + int) option result \<times> pid_state" where
  "pid_round env st =
     (case open_excl st of
        (Excl_Error, s) \<Rightarrow> (Ret (Some (Inr (- 1))), s)
      | (Excl_Created f, s) \<Rightarrow> (Ret (Some (Inl f)), s)
      | (Excl_Exists, s) \<Rightarrow>
          (case open_old s of
             (None, s1) \<Rightarrow> (Ret (Some (Inr (- 1))), s1)
           | (Some i, s1) \<Rightarrow>
               (case read_old i s1 of
                  (None, s2) \<Rightarrow> (Ret (Some (Inr (- 1))), s2)
                | (Some tx, s2) \<Rightarrow>
                    (case unlink_pid s2 of (ok, s3) \<Rightarrow>
                       if \<not> ok \<or> tx = [] then (Ret (Some (Inr (- 1))), s3)
                       else and_then (kill_old env (kill_target (strtoul10 tx)))
                              (\<lambda>killed s4. (Ret (if killed then None else Some (Inr (- 1))), s4)) s3))))"

lemma pid_script_length:
  "length (pid_script (snd (open_excl st))) = length (pid_script st) - 1"
  "length (pid_script (snd (open_old st))) = length (pid_script st) - 1"
  "length (pid_script (snd (unlink_pid st))) = length (pid_script st) - 1"
  "length (pid_script (snd (kill_old env k st))) = length (pid_script st) - 1"
  using pid_call_length[of st] by (auto simp: open_excl_def open_old_def unlink_pid_def kill_old_def Let_def split: prod.split)

lemma read_old_length: "length (pid_script (snd (read_old i st))) \<le> length (pid_script st) - 1"
proof (induction i st rule: read_old.induct)
  case (1 i st)
  note l = pid_call_length[of st]
  show ?case
  proof (cases "fst (pid_call st) = Call_Eintr")
    case True
    then show ?thesis using 1 l by (subst read_old.simps) (simp add: Let_def)
  next
    case False
    then show ?thesis using l by (subst read_old.simps) (auto simp: Let_def split: call_answer.split)
  qed
qed

definition pid_work :: "pid_state \<Rightarrow> nat" where
  "pid_work st = 2 * length (pid_script st) + (if pid_link st = None then 0 else 1)"

lemma kill_old_cases: "kill_old env k st = (Ret True, st') \<Longrightarrow>
    \<exists>a. a \<in> {Call_Ok, Call_Esrch} \<and> (a = Call_Ok \<longrightarrow> \<not> hits_self env k) \<and> pid_call st = (a, snd (pid_call st)) \<and>
      st' = (snd (pid_call st))\<lparr>signalled := signalled (snd (pid_call st)) @ [(k, a)]\<rparr>"
  by (cases "pid_call st") (auto simp: kill_old_def Let_def split: if_splits)

text \<open>A round after which the loop goes on.\<close>

lemma pid_round_goes_on:
  assumes "pid_round env st = (Ret None, st')"
  obtains s i s1 tx s2 s3 where "open_excl st = (Excl_Exists, s)" "open_old s = (Some i, s1)" "read_old i s1 = (Some tx, s2)"
    "unlink_pid s2 = (True, s3)" "tx \<noteq> []" "kill_old env (kill_target (strtoul10 tx)) s3 = (Ret True, st')"
proof -
  obtain s where 1: "open_excl st = (Excl_Exists, s)"
    using assms by (cases "open_excl st"; cases "fst (open_excl st)") (auto simp: pid_round_def)
  obtain i s1 where 2: "open_old s = (Some i, s1)"
    using assms 1 by (cases "open_old s"; cases "fst (open_old s)") (auto simp: pid_round_def)
  obtain tx s2 where 3: "read_old i s1 = (Some tx, s2)"
    using assms 1 2 by (cases "read_old i s1"; cases "fst (read_old i s1)") (auto simp: pid_round_def)
  obtain ok s3 where 4: "unlink_pid s2 = (ok, s3)" by fastforce
  from assms 1 2 3 4 have 5: "ok" "tx \<noteq> []"
    "and_then (kill_old env (kill_target (strtoul10 tx))) (\<lambda>killed s4. (Ret (if killed then None else Some (Inr (- 1) :: nat + int)), s4)) s3 = (Ret None, st')"
    by (auto simp: pid_round_def split: if_splits)
  from 5(3) have "kill_old env (kill_target (strtoul10 tx)) s3 = (Ret True, st')"
    by (auto simp: and_then_Ret split: if_splits)
  with 1 2 3 4 5(1,2) show ?thesis using that[of s i s1 tx s2 s3] by simp
qed

lemma pid_round_work:
  assumes "pid_round env st = (Ret None, st')"
  shows "pid_work st' < pid_work st"
proof -
  obtain s i s1 tx s2 s3 where c: "open_excl st = (Excl_Exists, s)" "open_old s = (Some i, s1)" "read_old i s1 = (Some tx, s2)"
    "unlink_pid s2 = (True, s3)" "kill_old env (kill_target (strtoul10 tx)) s3 = (Ret True, st')"
    by (rule pid_round_goes_on[OF assms]) blast
  have l: "length (pid_script st') \<le> length (pid_script st) - 1"
    using pid_script_length(1)[of st] pid_script_length(2)[of s] read_old_length[of i s1] pid_script_length(3)[of s2]
      pid_script_length(4)[of env "kill_target (strtoul10 tx)" s3] c by simp
  show ?thesis
  proof (cases "pid_script st = []")
    case False
    then have "length (pid_script st') < length (pid_script st)" using l by (cases "pid_script st") auto
    then show ?thesis by (auto simp: pid_work_def)
  next
    case True
    then have s: "s = st" "pid_link st \<noteq> None" using c(1) by (auto simp: open_excl_def pid_call_quiet split: if_splits)
    have z: "pid_script s2 = []" using True s pid_script_length(2)[of s] read_old_length[of i s1] c(2,3) by simp
    then have "pid_link s3 = None" "pid_script s3 = []" using c(4) by (auto simp: unlink_pid_def pid_call_quiet split: if_splits)
    then have "pid_link st' = None" using kill_old_cases[OF c(5)] by (auto simp: pid_call_quiet)
    with l True s(2) show ?thesis by (simp add: pid_work_def)
  qed
qed

function pid_loop :: "pid_env \<Rightarrow> pid_state \<Rightarrow> (nat + int) result \<times> pid_state" where
  "pid_loop env st =
     (case pid_round env st of
        (Ret None, s) \<Rightarrow> pid_loop env s
      | (Ret (Some x), s) \<Rightarrow> (Ret x, s)
      | (Exit e, s) \<Rightarrow> (Exit e, s)
      | (Fault, s) \<Rightarrow> (Fault, s))"
  by pat_completeness auto
termination
  by (relation "measure (pid_work \<circ> snd)") (auto dest: pid_round_work[OF sym])

declare pid_loop.simps [simp del]

text \<open>From the loop to the contents of the file.\<close>

definition pid_take :: "pid_env \<Rightarrow> pid_state \<Rightarrow> int result \<times> pid_state" where
  "pid_take env =
     and_then (pid_loop env)
       (\<lambda>x s. case x of
          Inr rc \<Rightarrow> (Ret rc, s)
        | Inl f \<Rightarrow>
            if length (show_nat (own_pid env)) \<ge> 11 then (Ret (- 1), s)
            else (case write_own (show_nat (own_pid env)) f s of (ok, s1) \<Rightarrow> (Ret (if ok then 0 else - 1), s1)))"

definition write_pid_file6 :: "pid_env \<Rightarrow> string \<Rightarrow> pid_state \<Rightarrow> int result \<times> pid_state" where
  "write_pid_file6 env pid_file st =
     (if take 1 pid_file \<noteq> ''/'' then (Ret (- 1), st)
      else if create_pid_directory env < 0 then (Ret (- 1), st)
      else pid_take env st)"

section \<open>Exclusion\<close>

text \<open>
  What stays true while other processes act: the path names a file that was given out, and the file of this
  process is at the path unless another process deleted it.
\<close>

definition pid_ok :: "pid_state \<Rightarrow> bool" where
  "pid_ok st \<longleftrightarrow> (\<forall>i. pid_link st = Some i \<longrightarrow> i < pid_fresh st) \<and>
     (\<forall>i. pid_own st = Some i \<longrightarrow> i < pid_fresh st \<and> (pid_link st = Some i \<or> pid_lost st))"

definition others_acted :: "pid_state \<Rightarrow> pid_state \<Rightarrow> bool" where
  "others_acted st s \<longleftrightarrow> pid_ok s \<and> pid_own s = pid_own st \<and> readings s = readings st \<and> signalled s = signalled st \<and>
     (\<forall>i. pid_own st = Some i \<longrightarrow> pid_files s i = pid_files st i)"

lemma others_acted_refl: "pid_ok st \<Longrightarrow> others_acted st st"
  by (simp add: others_acted_def)

lemma others_acted_trans: "others_acted a b \<Longrightarrow> others_acted b c \<Longrightarrow> others_acted a c"
  by (auto simp: others_acted_def)

lemma act_other_acted: "pid_ok st \<Longrightarrow> others_acted st (act_other a st)"
  by (cases a) (auto simp: others_acted_def pid_ok_def split: option.split)

lemma fold_acted: "pid_ok st \<Longrightarrow> others_acted st (fold act_other acts st)"
proof (induction acts arbitrary: st)
  case Nil
  then show ?case by (simp add: others_acted_refl)
next
  case (Cons a acts)
  from act_other_acted[OF Cons.prems] have a: "others_acted st (act_other a st)" .
  with Cons.IH[of "act_other a st"] show ?case by (auto simp: others_acted_def)
qed

lemma pid_call_acted:
  assumes "pid_ok st" and "pid_call st = (a, s)"
  shows "others_acted st s"
proof (cases "pid_script st")
  case Nil
  with assms show ?thesis by (simp add: pid_call_def others_acted_refl)
next
  case (Cons e r)
  have "pid_ok (st\<lparr>pid_script := r\<rparr>)" using assms(1) by (simp add: pid_ok_def)
  from fold_acted[OF this, of "fst e"] show ?thesis
    using assms(2) Cons by (auto simp: pid_call_def others_acted_def split: prod.splits)
qed

lemma open_excl_created:
  assumes "pid_ok st" and "open_excl st = (Excl_Created f, s)"
  shows "pid_ok s \<and> pid_own s = Some f \<and> pid_files s f = [] \<and> readings s = readings st \<and> signalled s = signalled st"
proof -
  obtain a s0 where c: "pid_call st = (a, s0)" by fastforce
  from pid_call_acted[OF assms(1) c] show ?thesis
    using assms(2) c by (auto simp: open_excl_def others_acted_def pid_ok_def split: if_splits)
qed

lemma open_excl_else:
  assumes "pid_ok st" and "open_excl st = (x, s)" and "\<forall>f. x \<noteq> Excl_Created f"
  shows "others_acted st s"
proof -
  obtain a s0 where c: "pid_call st = (a, s0)" by fastforce
  from pid_call_acted[OF assms(1) c] show ?thesis
    using assms(2,3) c by (auto simp: open_excl_def split: if_splits)
qed

lemma open_old_acted: "pid_ok st \<Longrightarrow> open_old st = (x, s) \<Longrightarrow> others_acted st s"
  by (cases "pid_call st") (auto simp: open_old_def dest: pid_call_acted)

lemma unlink_pid_acted:
  assumes "pid_ok st" and "unlink_pid st = (ok, s)" and "pid_own st = None"
  shows "others_acted st s"
proof -
  obtain a s0 where c: "pid_call st = (a, s0)" by fastforce
  from pid_call_acted[OF assms(1) c] show ?thesis
    using assms(2,3) c by (auto simp: unlink_pid_def others_acted_def pid_ok_def split: if_splits)
qed

lemma unlink_pid_done: "fst (unlink_pid st) \<Longrightarrow> pid_text (snd (unlink_pid st)) = None"
  by (auto simp: unlink_pid_def pid_text_def split: prod.splits if_splits)

lemma read_old_acted:
  assumes "pid_ok st" and "read_old i st = (x, s)"
  shows "pid_ok s \<and> pid_own s = pid_own st \<and> signalled s = signalled st \<and>
    readings s = readings st @ (case x of None \<Rightarrow> [] | Some tx \<Rightarrow> [tx])"
  using assms
proof (induction i st rule: read_old.induct)
  case (1 i st)
  obtain a s0 where c: "pid_call st = (a, s0)" by fastforce
  note d = pid_call_acted[OF "1.prems"(1) c]
  show ?case
  proof (cases "a = Call_Eintr")
    case True
    with c have "read_old i st = read_old i s0" by (subst read_old.simps) simp
    with 1 c d True show ?thesis by (simp add: others_acted_def)
  next
    case False
    then show ?thesis
      using "1.prems"(2) c d by (subst (asm) read_old.simps) (auto simp: others_acted_def pid_ok_def split: call_answer.splits)
  qed
qed

lemma write_own_acted:
  assumes "pid_ok st" and "write_own tx i st = (ok, s)" and "pid_own st = Some i" and "pid_files st i = []"
  shows "pid_ok s \<and> pid_own s = Some i \<and> signalled s = signalled st \<and> readings s = readings st \<and>
    (ok \<longrightarrow> pid_files s i = tx)"
  using assms
proof (induction tx i st rule: write_own.induct)
  case (1 tx i st)
  obtain a s0 where c: "pid_call st = (a, s0)" by fastforce
  note d = pid_call_acted[OF "1.prems"(1) c]
  show ?case
  proof (cases "a = Call_Eintr")
    case True
    with c have "write_own tx i st = write_own tx i s0" by (subst write_own.simps) simp
    with 1 c d True show ?thesis by (simp add: others_acted_def)
  next
    case False
    then show ?thesis
      using "1.prems"(2-4) c d
      by (subst (asm) write_own.simps) (auto simp: others_acted_def pid_ok_def split: call_answer.splits)
  qed
qed

lemma kill_old_does:
  assumes "pid_ok st" and "kill_old env k st = (q, s)"
  shows "pid_ok s \<and> pid_own s = pid_own st \<and> readings s = readings st \<and>
    (\<exists>a. signalled s = signalled st @ [(k, a)] \<and>
      q = (if a = Call_Ok \<and> hits_self env k then Exit (- SIGKILL) else Ret (a = Call_Ok \<or> a = Call_Esrch)))"
proof -
  obtain a s0 where c: "pid_call st = (a, s0)" by fastforce
  from pid_call_acted[OF assms(1) c] show ?thesis
    using assms(2) c by (auto simp: kill_old_def Let_def others_acted_def pid_ok_def split: if_splits)
qed

text \<open>One round: what was read, which signal was sent and with which answer.\<close>

definition kills_old :: "pid_env \<Rightarrow> string list \<Rightarrow> (int \<times> call_answer) list \<Rightarrow> bool" where
  "kills_old env new ks \<longleftrightarrow> [] \<notin> set new \<and> map fst ks = map (kill_target \<circ> strtoul10) new \<and>
     (\<forall>(k, a) \<in> set ks. a = Call_Esrch \<or> a = Call_Ok \<and> \<not> hits_self env k)"

lemma pid_round_ends:
  assumes "pid_ok st" and "pid_own st = None" and "pid_round env st = (q, st')"
  shows "\<exists>new ks. readings st' = readings st @ new \<and> signalled st' = signalled st @ ks \<and>
    (q = Ret None \<and> pid_ok st' \<and> pid_own st' = None \<and> kills_old env new ks \<or>
     (\<exists>f. q = Ret (Some (Inl f)) \<and> pid_ok st' \<and> pid_own st' = Some f \<and> pid_files st' f = [] \<and> new = [] \<and> ks = []) \<or>
     q = Ret (Some (Inr (- 1))) \<or>
     (\<exists>k. q = Exit (- SIGKILL) \<and> ks = [(k, Call_Ok)] \<and> hits_self env k \<and> [] \<notin> set new))"
proof (cases "fst (open_excl st)")
  case Excl_Error
  then obtain s where o: "open_excl st = (Excl_Error, s)" by (metis prod.collapse)
  from open_excl_else[OF assms(1) o] show ?thesis using assms(3) o by (auto simp: pid_round_def others_acted_def)
next
  case (Excl_Created f)
  then obtain s where o: "open_excl st = (Excl_Created f, s)" by (metis prod.collapse)
  from open_excl_created[OF assms(1) o] show ?thesis using assms(3) o by (auto simp: pid_round_def)
next
  case Excl_Exists
  then obtain s where o: "open_excl st = (Excl_Exists, s)" by (metis prod.collapse)
  have a0: "others_acted st s" using open_excl_else[OF assms(1) o] by simp
  obtain x1 s1 where o1: "open_old s = (x1, s1)" by fastforce
  have a1: "others_acted st s1"
    using a0 open_old_acted[OF _ o1] by (auto simp: others_acted_def)
  show ?thesis
  proof (cases x1)
    case None
    then show ?thesis using a1 assms(3) o o1 by (auto simp: pid_round_def others_acted_def)
  next
    case (Some i)
    obtain x2 s2 where o2: "read_old i s1 = (x2, s2)" by fastforce
    have a2: "pid_ok s2" "pid_own s2 = None" "signalled s2 = signalled st"
      "readings s2 = readings st @ (case x2 of None \<Rightarrow> [] | Some tx \<Rightarrow> [tx])"
      using read_old_acted[OF _ o2] a1 assms(2) by (auto simp: others_acted_def)
    show ?thesis
    proof (cases x2)
      case None
      then show ?thesis using a2 assms(3) o o1 o2 Some by (auto simp: pid_round_def)
    next
      case (Some tx)
      obtain ok s3 where o3: "unlink_pid s2 = (ok, s3)" by fastforce
      have a3: "pid_ok s3" "pid_own s3 = None" "signalled s3 = signalled st" "readings s3 = readings st @ [tx]"
        using unlink_pid_acted[OF a2(1) o3 a2(2)] a2 Some by (auto simp: others_acted_def)
      let ?k = "kill_target (strtoul10 tx)"
      obtain q4 s4 where o4: "kill_old env ?k s3 = (q4, s4)" by fastforce
      from kill_old_does[OF a3(1) o4] obtain a where a4: "pid_ok s4" "pid_own s4 = None" "readings s4 = readings st @ [tx]"
        "signalled s4 = signalled st @ [(?k, a)]"
        "q4 = (if a = Call_Ok \<and> hits_self env ?k then Exit (- SIGKILL) else Ret (a = Call_Ok \<or> a = Call_Esrch))"
        using a3 by auto
      show ?thesis
      proof (cases "\<not> ok \<or> tx = []")
        case True
        then show ?thesis using a3 assms(3) o o1 o2 o3 \<open>x1 = Some i\<close> Some by (auto simp: pid_round_def)
      next
        case False
        then have "(q, st') = and_then (kill_old env ?k) (\<lambda>killed s4. (Ret (if killed then None else Some (Inr (- 1))), s4)) s3"
          using assms(3) o o1 o2 o3 \<open>x1 = Some i\<close> Some by (simp add: pid_round_def)
        then show ?thesis
          using a4 o4 False by (auto simp: kills_old_def split: if_splits)
      qed
    qed
  qed
qed

lemma kills_old_append: "kills_old env new ks \<Longrightarrow> kills_old env new' ks' \<Longrightarrow> kills_old env (new @ new') (ks @ ks')"
  by (auto simp: kills_old_def)

lemma pid_loop_ends:
  assumes "pid_ok st" and "pid_own st = None" and "pid_loop env st = (q, st')"
  shows "\<exists>new ks. readings st' = readings st @ new \<and> signalled st' = signalled st @ ks \<and>
    ((\<exists>f. q = Ret (Inl f) \<and> pid_ok st' \<and> pid_own st' = Some f \<and> pid_files st' f = [] \<and> kills_old env new ks) \<or>
     q = Ret (Inr (- 1)) \<or>
     (\<exists>k. q = Exit (- SIGKILL) \<and> (k, Call_Ok) \<in> set ks \<and> hits_self env k \<and> [] \<notin> set new))"
  using assms
proof (induction env st rule: pid_loop.induct)
  case (1 env st)
  obtain p s where r: "pid_round env st = (p, s)" by fastforce
  from pid_round_ends[OF "1.prems"(1,2) r] obtain new ks where n: "readings s = readings st @ new" "signalled s = signalled st @ ks"
    and c: "p = Ret None \<and> pid_ok s \<and> pid_own s = None \<and> kills_old env new ks \<or>
      (\<exists>f. p = Ret (Some (Inl f)) \<and> pid_ok s \<and> pid_own s = Some f \<and> pid_files s f = [] \<and> new = [] \<and> ks = []) \<or>
      p = Ret (Some (Inr (- 1))) \<or> (\<exists>k. p = Exit (- SIGKILL) \<and> ks = [(k, Call_Ok)] \<and> hits_self env k \<and> [] \<notin> set new)" by blast
  show ?case
  proof (cases "p = Ret None")
    case True
    with c have s: "pid_ok s" "pid_own s = None" "kills_old env new ks" by auto
    have "pid_loop env s = (q, st')" using "1.prems"(3) r True by (subst (asm) pid_loop.simps) simp
    from "1.IH"[OF r[symmetric] True refl s(1,2) this] obtain new' ks'
      where m: "readings st' = readings s @ new'" "signalled st' = signalled s @ ks'"
        "(\<exists>f. q = Ret (Inl f) \<and> pid_ok st' \<and> pid_own st' = Some f \<and> pid_files st' f = [] \<and> kills_old env new' ks') \<or>
         q = Ret (Inr (- 1)) \<or> (\<exists>k. q = Exit (- SIGKILL) \<and> (k, Call_Ok) \<in> set ks' \<and> hits_self env k \<and> [] \<notin> set new')" by blast
    show ?thesis
      using n m s(3) kills_old_append[OF s(3), of new' ks'] unfolding kills_old_def by (intro exI[of _ "new @ new'"] exI[of _ "ks @ ks'"]) auto
  next
    case False
    then have "(\<exists>x. p = Ret (Some x) \<and> q = Ret x \<or> p = Exit (- SIGKILL) \<and> q = Exit (- SIGKILL)) \<and> s = st'"
      using "1.prems"(3) r c by (subst (asm) pid_loop.simps) auto
    with n c False show ?thesis
      by (intro exI[of _ new] exI[of _ ks]) (auto simp: kills_old_def)
  qed
qed

lemma pid_take_ends:
  assumes "pid_ok st" and "pid_own st = None" and "pid_take env st = (r, st')"
  shows "\<exists>new ks. readings st' = readings st @ new \<and> signalled st' = signalled st @ ks \<and>
    (r = Ret 0 \<and> pid_ok st' \<and> kills_old env new ks \<and>
       (\<exists>f. pid_own st' = Some f \<and> pid_files st' f = show_nat (own_pid env)) \<or>
     r = Ret (- 1) \<or>
     (\<exists>k. r = Exit (- SIGKILL) \<and> (k, Call_Ok) \<in> set ks \<and> hits_self env k \<and> [] \<notin> set new))"
proof -
  obtain q s where l: "pid_loop env st = (q, s)" by fastforce
  from pid_loop_ends[OF assms(1,2) l] obtain new ks where n: "readings s = readings st @ new" "signalled s = signalled st @ ks"
    and c: "(\<exists>f. q = Ret (Inl f) \<and> pid_ok s \<and> pid_own s = Some f \<and> pid_files s f = [] \<and> kills_old env new ks) \<or>
     q = Ret (Inr (- 1)) \<or> (\<exists>k. q = Exit (- SIGKILL) \<and> (k, Call_Ok) \<in> set ks \<and> hits_self env k \<and> [] \<notin> set new)" by blast
  from c consider (got) f where "q = Ret (Inl f)" "pid_ok s" "pid_own s = Some f" "pid_files s f = []" "kills_old env new ks"
    | (lost) "q = Ret (Inr (- 1))" | (hit) k where "q = Exit (- SIGKILL)" "(k, Call_Ok) \<in> set ks" "hits_self env k" "[] \<notin> set new" by blast
  then show ?thesis
  proof cases
    case got
    obtain ok s1 where w: "write_own (show_nat (own_pid env)) f s = (ok, s1)" by fastforce
    from write_own_acted[OF got(2) w got(3,4)] show ?thesis
      using assms(3) l got n w by (auto simp: pid_take_def split: if_splits)
  qed (use assms(3) l n in \<open>auto simp: pid_take_def\<close>)
qed

text \<open>When nobody interferes and the calls work.\<close>

lemma pid_take_quiet:
  assumes "pid_script st = []" and "length (show_nat (own_pid env)) \<le> 10"
  shows "pid_text st = None \<Longrightarrow> \<exists>st'. pid_take env st = (Ret 0, st') \<and> pid_text st' = Some (show_nat (own_pid env)) \<and>
      signalled st' = signalled st"
    and "pid_text st = Some tx \<Longrightarrow> tx \<noteq> [] \<Longrightarrow> \<not> hits_self env (kill_target (strtoul10 (take 10 tx))) \<Longrightarrow>
      \<exists>st'. pid_take env st = (Ret 0, st') \<and> pid_text st' = Some (show_nat (own_pid env)) \<and>
        signalled st' = signalled st @ [(kill_target (strtoul10 (take 10 tx)), Call_Ok)]"
proof -
  have free: "\<exists>st'. pid_take env s = (Ret 0, st') \<and> pid_text st' = Some (show_nat (own_pid env)) \<and> signalled st' = signalled s"
    if "pid_script s = []" "pid_link s = None" for s
    using that assms(2)
    by (simp add: pid_take_def and_then_def pid_loop.simps pid_round_def open_excl_def pid_call_quiet write_own.simps pid_text_def)
  then show "pid_text st = None \<Longrightarrow> \<exists>st'. pid_take env st = (Ret 0, st') \<and> pid_text st' = Some (show_nat (own_pid env)) \<and>
      signalled st' = signalled st"
    using assms(1) by (simp add: pid_text_def)
  assume t: "pid_text st = Some tx" "tx \<noteq> []" "\<not> hits_self env (kill_target (strtoul10 (take 10 tx)))"
  then obtain i where i: "pid_link st = Some i" "pid_files st i = tx" by (auto simp: pid_text_def)
  let ?s = "st\<lparr>readings := readings st @ [take 10 tx], pid_link := None,
    signalled := signalled st @ [(kill_target (strtoul10 (take 10 tx)), Call_Ok)]\<rparr>"
  have "pid_round env st = (Ret None, ?s)"
    using i t(2,3) assms(1)
    by (simp add: pid_round_def open_excl_def open_old_def read_old.simps unlink_pid_def kill_old_def pid_call_quiet and_then_def)
  then have "pid_loop env st = pid_loop env ?s" by (subst pid_loop.simps) simp
  then have "pid_take env st = pid_take env ?s" by (simp add: pid_take_def and_then_def)
  with free[of ?s] assms(1) show "\<exists>st'. pid_take env st = (Ret 0, st') \<and> pid_text st' = Some (show_nat (own_pid env)) \<and>
        signalled st' = signalled st @ [(kill_target (strtoul10 (take 10 tx)), Call_Ok)]"
    by simp
qed

text \<open>
  C40. Exclusion by the pid file, whatever other processes do with the path before each call and however
  each call ends.  \<open>write_pid_file\<close> returns 0 or -1 or is ended by a \<open>SIGKILL\<close> of its own that hit itself.
  When it returns 0, the process has created a file, this file holds its decimal pid and is still at the path unless
  another process deleted it; every text read from the path meanwhile was turned into one \<open>kill\<close>, and each of
  these calls succeeded or found no such process.  An empty text is never turned into a \<open>kill\<close> of the own process group.  When nobody interferes and the calls work, it does return
  0: a file that was there is replaced after the process it names has been killed.
\<close>

theorem pid_file_exclusive:
  assumes "write_pid_file6 env name st = (r, st')" and "pid_own st = None" and "\<forall>i. pid_link st = Some i \<longrightarrow> i < pid_fresh st"
  shows "(\<exists>new ks. readings st' = readings st @ new \<and> signalled st' = signalled st @ ks \<and>
      (r = Ret 0 \<and> [] \<notin> set new \<and> map fst ks = map (kill_target \<circ> strtoul10) new \<and>
         (\<forall>(k, a) \<in> set ks. a = Call_Esrch \<or> a = Call_Ok \<and> \<not> hits_self env k) \<and>
         (\<exists>f. pid_own st' = Some f \<and> pid_files st' f = show_nat (own_pid env) \<and> (pid_link st' = Some f \<or> pid_lost st')) \<or>
       r = Ret (- 1) \<or>
       (\<exists>k. r = Exit (- SIGKILL) \<and> (k, Call_Ok) \<in> set ks \<and> hits_self env k \<and> [] \<notin> set new))) \<and>
    (pid_script st = [] \<and> take 1 name = ''/'' \<and> create_pid_directory env = 0 \<and> length (show_nat (own_pid env)) \<le> 10 \<longrightarrow>
      (pid_text st = None \<longrightarrow> r = Ret 0 \<and> pid_text st' = Some (show_nat (own_pid env)) \<and> signalled st' = signalled st) \<and>
      (\<forall>tx. pid_text st = Some tx \<and> tx \<noteq> [] \<and> \<not> hits_self env (kill_target (strtoul10 (take 10 tx))) \<longrightarrow>
        r = Ret 0 \<and> pid_text st' = Some (show_nat (own_pid env)) \<and>
        signalled st' = signalled st @ [(kill_target (strtoul10 (take 10 tx)), Call_Ok)]))"
    (is "?any \<and> ?quiet")
proof
  have ok: "pid_ok st" using assms(2,3) by (simp add: pid_ok_def)
  show ?any
  proof (cases "take 1 name \<noteq> ''/'' \<or> create_pid_directory env < 0")
    case True
    then show ?any using assms(1) by (auto simp: write_pid_file6_def split: if_splits)
  next
    case False
    then have "pid_take env st = (r, st')" using assms(1) by (simp add: write_pid_file6_def)
    from pid_take_ends[OF ok assms(2) this] show ?any unfolding kills_old_def pid_ok_def by fastforce
  qed
  show ?quiet
  proof (intro impI conjI allI)
    assume "pid_script st = [] \<and> take 1 name = ''/'' \<and> create_pid_directory env = 0 \<and> length (show_nat (own_pid env)) \<le> 10"
    then have q: "pid_script st = []" "length (show_nat (own_pid env)) \<le> 10" "pid_take env st = (r, st')"
      using assms(1) by (simp_all add: write_pid_file6_def)
    show "r = Ret 0" "pid_text st' = Some (show_nat (own_pid env))" "signalled st' = signalled st" if "pid_text st = None"
      using pid_take_quiet(1)[OF q(1,2) that] q(3) by simp_all
    fix tx assume "pid_text st = Some tx \<and> tx \<noteq> [] \<and> \<not> hits_self env (kill_target (strtoul10 (take 10 tx)))"
    then show "r = Ret 0" "pid_text st' = Some (show_nat (own_pid env))"
        "signalled st' = signalled st @ [(kill_target (strtoul10 (take 10 tx)), Call_Ok)]"
      using pid_take_quiet(2)[OF q(1,2), of tx] q(3) by auto
  qed
qed

definition demo_pid_env :: pid_env where
  "demo_pid_env = \<lparr>dir_copy_ok = True, pid_dir = Dir_Exists, mkdir_ok = True, own_pid = 4711, own_pgrp = 4700\<rparr>"

definition no_pid_file :: pid_state where
  "no_pid_file = \<lparr>pid_link = None, pid_files = \<lambda>_. [], pid_fresh = 0, pid_script = [], pid_own = None, pid_lost = False,
     readings = [], signalled = []\<rparr>"

definition old_pid_file :: "string \<Rightarrow> pid_state" where
  "old_pid_file tx = no_pid_file\<lparr>pid_link := Some 0, pid_files := (\<lambda>_. [])(0 := tx), pid_fresh := 1\<rparr>"

lemma demo_pid_length: "length (show_nat 4711) \<le> 10"
  using length_show_nat[of 4711 4] by simp

lemma demo_kill_target: "kill_target (strtoul10 ''99'') = 99"
  by (simp add: kill_target_def strtoul10_def scan_dec_def isspace_def is_digit_def dec_val_def digit_val_def ULONG_MAX_def cstr_def)

definition demo_pid_held :: pid_state where
  "demo_pid_held = snd (pid_take demo_pid_env no_pid_file)"

lemma demo_pid_take: "pid_take demo_pid_env no_pid_file = (Ret 0, demo_pid_held)"
proof -
  have "pid_script no_pid_file = []" "pid_text no_pid_file = None" "length (show_nat (own_pid demo_pid_env)) \<le> 10"
    using demo_pid_length by (simp_all add: no_pid_file_def pid_text_def demo_pid_env_def)
  from pid_take_quiet(1)[OF this(1,3,2)] show ?thesis by (auto simp: demo_pid_held_def)
qed

theorem pid_file_exclusive_witness:
  "fst (write_pid_file6 demo_pid_env ''/run/x'' (old_pid_file ''99'')) = Ret 0 \<and>
    pid_text (snd (write_pid_file6 demo_pid_env ''/run/x'' (old_pid_file ''99''))) = Some (show_nat 4711) \<and>
    signalled (snd (write_pid_file6 demo_pid_env ''/run/x'' (old_pid_file ''99''))) = [(99, Call_Ok)]"
proof -
  obtain r st' where w: "write_pid_file6 demo_pid_env ''/run/x'' (old_pid_file ''99'') = (r, st')" by fastforce
  from pid_file_exclusive[OF w] have "r = Ret 0 \<and> pid_text st' = Some (show_nat 4711) \<and> signalled st' = [(99, Call_Ok)]"
    using demo_pid_length demo_kill_target
    by (simp add: old_pid_file_def no_pid_file_def demo_pid_env_def create_pid_directory_def hits_self_def pid_text_def)
  with w show ?thesis by simp
qed

text \<open>
  The file is empty between its creation and the write: a second process that starts there reads nothing, deletes the file
  and gives up, and the first one goes on without a pid file.
\<close>

theorem pid_file_race:
  assumes "create_pid_directory env = 0" and "length (show_nat (own_pid env)) \<le> 10" and "pid_link st = None"
    and "pid_script st = [([], Call_Ok), ([Other_Unlink], Call_Ok)]"
  shows "fst (write_pid_file6 env (CHR ''/'' # name) st) = Ret 0 \<and> pid_text (snd (write_pid_file6 env (CHR ''/'' # name) st)) = None"
proof -
  have "fst (pid_take env st) = Ret 0 \<and> pid_text (snd (pid_take env st)) = None"
    using assms(2-4)
    by (simp add: pid_take_def and_then_def pid_loop.simps pid_round_def open_excl_def pid_call_def write_own.simps pid_text_def)
  then show ?thesis using assms(1) by (simp add: write_pid_file6_def)
qed

text \<open>
  A pid file without a number makes the process kill its own process group, itself included; the
  number 4294967295 makes it send \<open>SIGKILL\<close> to every process it may signal.
\<close>

theorem pid_file_garbage_kills:
  assumes "create_pid_directory env = 0" and "pid_script st = []" and "pid_text st = Some tx"
    and "tx \<noteq> []" and "\<not> is_digit (hd tx)" and "\<not> isspace (hd tx)" and "hd tx \<noteq> CHR ''-''" and "hd tx \<noteq> CHR ''+''"
  shows "fst (write_pid_file6 env (CHR ''/'' # name) st) = Exit (- SIGKILL) \<and>
    signalled (snd (write_pid_file6 env (CHR ''/'' # name) st)) = signalled st @ [(0, Call_Ok)] \<and>
    kill_target 4294967295 = - 1"
proof -
  obtain c cs where c: "tx = c # cs" using assms(4) by (cases "tx") auto
  obtain i where i: "pid_link st = Some i" "pid_files st i = tx" using assms(3) by (auto simp: pid_text_def)
  have "strtoul10 (take 10 tx) = 0"
    using assms(5-8) c by (simp add: strtoul10_def scan_dec_def cstr_Cons Let_def dec_val_def ULONG_MAX_def split: if_splits)
  then have k: "kill_target (strtoul10 (take 10 tx)) = 0" by (simp add: kill_target_def)
  let ?s = "st\<lparr>readings := readings st @ [take 10 tx], pid_link := None, signalled := signalled st @ [(0, Call_Ok)]\<rparr>"
  have "pid_round env st = (Exit (- SIGKILL), ?s)"
    using i k assms(2,4) by (simp add: pid_round_def open_excl_def open_old_def read_old.simps unlink_pid_def kill_old_def
        pid_call_quiet and_then_def hits_self_def)
  then have "pid_loop env st = (Exit (- SIGKILL), ?s)" by (subst pid_loop.simps) simp
  then show ?thesis using assms(1) by (simp add: write_pid_file6_def pid_take_def kill_target_def)
qed

theorem pid_file_garbage_kills_witness:
  "fst (write_pid_file6 demo_pid_env ''/run/x'' (old_pid_file ''?'')) = Exit (- SIGKILL)"
  using pid_file_garbage_kills[of demo_pid_env "old_pid_file ''?''" "''?''" "''run/x''"]
  by (simp add: demo_pid_env_def old_pid_file_def no_pid_file_def pid_text_def create_pid_directory_def is_digit_def isspace_def)

end
