(* ===== verification/IPv6addr.thy ===== *)
theory IPv6addr
  imports Inet Pid_File
begin

text \<open>
  The resource agent \<^verbatim>\<open>src/heartbeat/IPv6addr.c\<close> that manages an IPv6 address, and the sending of
  neighbour advertisements in \<^verbatim>\<open>src/heartbeat/IPv6addr_utils.c\<close>.  An address is kept as the four
  words \<open>s6_addr32\<close> of a little-endian host.  The kernel is a parameter: the contents of
  \<^verbatim>\<open>/proc/net/if_inet6\<close> are a function of the address requests made so far, and the answers of the
  other calls are indexed by the number of the call.  The state of a run holds the requests, the
  packets sent, the seconds slept and the pid file.
\<close>

section \<open>Addresses and the address table\<close>

type_synonym in6 = "32 word list"

fun in6_of_bytes :: "byte list \<Rightarrow> in6" where
  "in6_of_bytes (a # b # c # d # r) = load32 a b c d # in6_of_bytes r"
| "in6_of_bytes _ = []"

definition in6_bytes :: "in6 \<Rightarrow> byte list" where
  "in6_bytes a = concat (map mem32 a)"

text \<open>\<open>scanf\<close> with \<open>%<w>x\<close> and \<open>%<w>s\<close>.\<close>

definition scan_x :: "nat \<Rightarrow> string \<Rightarrow> (32 word \<times> string) option" where
  "scan_x w s =
     (let t = dropWhile isspace s
      in case scan_lx (take w t) of None \<Rightarrow> None | Some (v, r) \<Rightarrow> Some (ucast v, r @ drop w t))"

definition scan_s :: "nat \<Rightarrow> string \<Rightarrow> (string \<times> string) option" where
  "scan_s w s =
     (let t = dropWhile isspace s; v = take w (takeWhile (\<lambda>c. \<not> isspace c) t)
      in if v = [] then None else Some (v, drop (length v) t))"

record if_entry =
  e_addr :: "32 word list"
  e_index :: nat
  e_plen :: nat
  e_scope :: nat
  e_flags :: nat
  e_dev :: string

text \<open>One call of \<open>fscanf\<close> that converts all nine fields; otherwise the loop ends.\<close>

definition scan_entry :: "string \<Rightarrow> (if_entry \<times> string) option" where
  "scan_entry s0 =
     do { (a0, s1) \<leftarrow> scan_x 8 s0; (a1, s2) \<leftarrow> scan_x 8 s1; (a2, s3) \<leftarrow> scan_x 8 s2; (a3, s4) \<leftarrow> scan_x 8 s3;
          (if_idx, s5) \<leftarrow> scan_x (length s4) s4; (plen, s6) \<leftarrow> scan_x 2 s5; (scope, s7) \<leftarrow> scan_x 2 s6;
          (dad_status, s8) \<leftarrow> scan_x 2 s7; (devname, s9) \<leftarrow> scan_s 20 s8;
          Some (\<lparr>e_addr = [a0, a1, a2, a3], e_index = unat if_idx, e_plen = unat plen, e_scope = unat scope,
                 e_flags = unat dad_status, e_dev = devname\<rparr>,
                dropWhile isspace s9) }"

text \<open>The conditions under which an entry is considered.\<close>

definition entry_eligible :: "nat \<Rightarrow> string option \<Rightarrow> if_entry \<Rightarrow> bool" where
  "entry_eligible plen_target prov_ifname e =
     (let given = (case prov_ifname of Some n \<Rightarrow> n \<noteq> [] | None \<Rightarrow> False)
      in (e_scope e = 0 \<or> (e_scope e = 0x20 \<and> given)) \<and>
         (plen_target = 0 \<or> e_plen e = plen_target) \<and>
         (given \<longrightarrow> e_dev e = the prov_ifname))"

text \<open>The mask, word by word in memory order.\<close>

definition if_mask :: "bool \<Rightarrow> nat \<Rightarrow> 32 word list" where
  "if_mask use_mask plen =
     (if use_mask \<and> plen < 128 then
        let n = plen div 32; s = 32 - plen mod 32;
            m = (if s = 32 then 0 else push_bit s 0xFFFFFFFF) :: 32 word
        in map (\<lambda>i. if i < n then - 1 else if i = n then htonl m else 0) [0..<4]
      else replicate 4 (- 1))"

definition entry_same :: "in6 \<Rightarrow> bool \<Rightarrow> if_entry \<Rightarrow> bool" where
  "entry_same addr_target use_mask e =
     list_all (\<lambda>i. and (htonl (e_addr e ! i)) (if_mask use_mask (e_plen e) ! i) =
                   and (addr_target ! i) (if_mask use_mask (e_plen e) ! i)) [0..<4]"

lemma scan_lx_length: "scan_lx s = Some (v, r) \<Longrightarrow> length r \<le> length s"
proof -
  assume a: "scan_lx s = Some (v, r)"
  let ?t = "dropWhile isspace s"
  let ?u = "(case ?t of c # q \<Rightarrow> if c = CHR ''-'' \<or> c = CHR ''+'' then q else ?t | [] \<Rightarrow> ?t)"
  let ?w = "if take 2 ?u = ''0x'' \<or> take 2 ?u = ''0X'' then drop 2 ?u else ?u"
  have "length ?u \<le> length ?t" by (simp split: list.split)
  then have "length ?w \<le> length s" using length_dropWhile_le[of isspace s] by auto
  moreover have "length r \<le> length ?w"
    using a length_dropWhile_le[of "\<lambda>c. hex_val c \<noteq> None" ?w] unfolding scan_lx_def Let_def
    by (simp only: split: if_splits) (simp_all only: option.inject prod.inject option.distinct, auto)
  ultimately show ?thesis by linarith
qed

lemma scan_x_length: "scan_x w s = Some (v, r) \<Longrightarrow> length r \<le> length s"
proof -
  assume "scan_x w s = Some (v, r)"
  then obtain x q where q: "scan_lx (take w (dropWhile isspace s)) = Some (x, q)" "r = q @ drop w (dropWhile isspace s)"
    by (auto simp: scan_x_def Let_def split: option.splits)
  then have "length q \<le> min (length (dropWhile isspace s)) w"
    using scan_lx_length[of "take w (dropWhile isspace s)" x q] by (simp add: min.commute)
  then have "length r \<le> length (dropWhile isspace s)" using q(2) by simp linarith
  then show ?thesis using length_dropWhile_le[of isspace s] by linarith
qed

lemma scan_s_length:
  assumes "scan_s w s = Some (v, r)"
  shows "length r < length s"
proof -
  let ?t = "dropWhile isspace s"
  have v: "v = take w (takeWhile (\<lambda>c. \<not> isspace c) ?t)" "v \<noteq> []" "r = drop (length v) ?t"
    using assms by (auto simp: scan_s_def Let_def split: if_splits)
  then have "?t \<noteq> []" by (metis take_Nil takeWhile.simps(1))
  then have "length r < length ?t" using v(2,3) by (cases v) auto
  then show ?thesis using length_dropWhile_le[of isspace s] by linarith
qed

lemma scan_entry_length: "scan_entry s = Some (e, r) \<Longrightarrow> length r < length s"
  by (auto simp: scan_entry_def split: Option.bind_splits prod.splits dest!: scan_x_length scan_s_length
      intro!: le_less_trans[OF length_dropWhile_le])

text \<open>The loop of \<open>scan_if\<close>: the device and the prefix length of the first entry that fits.\<close>

function scan_if_loop :: "in6 \<Rightarrow> nat \<Rightarrow> bool \<Rightarrow> string option \<Rightarrow> string \<Rightarrow> (string \<times> nat) option" where
  "scan_if_loop addr_target plen_target use_mask prov_ifname s =
     (case scan_entry s of
        None \<Rightarrow> None
      | Some (e, r) \<Rightarrow>
          if entry_eligible plen_target prov_ifname e \<and> entry_same addr_target use_mask e
          then Some (e_dev e, e_plen e)
          else scan_if_loop addr_target plen_target use_mask prov_ifname r)"
  by pat_completeness auto
termination
  by (relation "measure (\<lambda>(_, _, _, _, s). length s)") (auto dest: scan_entry_length)

declare scan_if_loop.simps [simp del]

section \<open>Kernel, packets and the state of a run\<close>

datatype ip6_ioctl = Assign in6 nat nat | Unassign in6 nat nat

datatype ping_event = No_Event | Received "byte list" | Try_Again | Receive_Error

record ping_run =
  ping_socket :: bool
  ping_sendto :: int
  ping_events :: "ping_event list"

record ua_answer =
  ua_socket :: bool
  ua_multicast_if :: bool
  ua_multicast_hops :: bool
  ua_bind :: bool
  ua_hwaddr :: "byte list option"
  ua_memory :: bool
  ua_sendto :: int

text \<open>
  The socket: a new one has the multicast hop limit 1 and leaves the interface to the system.  \<open>setsockopt\<close> and \<open>bind\<close>
  change it only when they succeed.
\<close>

record ua_sock =
  us_ifindex :: nat
  us_hops :: nat
  us_source :: "(in6 \<times> nat) option"

text \<open>An advertisement given to \<open>sendto\<close>: payload, destination and the socket.\<close>

record advert =
  ad_payload :: "byte list"
  ad_dest :: "byte list option"
  ad_socket :: ua_sock

record ip6_env =
  if_inet6 :: "ip6_ioctl list \<Rightarrow> string option"
  if_inet6_access :: bool
  dgram_socket :: bool
  if_index :: "string \<Rightarrow> nat option"
  addr_ioctl_ok :: "ip6_ioctl list \<Rightarrow> ip6_ioctl \<Rightarrow> bool"
  ping_runs :: "nat \<Rightarrow> ping_run"
  ua_answers :: "nat \<Rightarrow> ua_answer"
  sigaction_works :: bool
  ip6_getenv :: "string \<Rightarrow> string option"
  rsctmpdir :: string
  pid_answers :: pid_env

record ip6_state =
  ioctls :: "ip6_ioctl list"
  pings :: nat
  ua_count :: nat
  adverts :: "advert list"
  slept :: nat
  pid_part :: pid_state

section \<open>Neighbour advertisements\<close>

definition HWADDR_LEN :: nat where "HWADDR_LEN = 6"
definition UA_REPEAT_COUNT :: nat where "UA_REPEAT_COUNT = 5"
definition BCAST_ADDR :: string where "BCAST_ADDR = ''ff02::1''"

text \<open>
  \<open>struct nd_neighbor_advert\<close> with the override flag, followed by the target link-layer address option.
\<close>

definition ua_payload :: "in6 \<Rightarrow> byte list \<Rightarrow> byte list" where
  "ua_payload src_ip hwaddr =
     [136, 0, 0, 0] @ [0x20, 0, 0, 0] @ in6_bytes src_ip @ [2, 1] @ take HWADDR_LEN hwaddr"

text \<open>\<open>if_nametoindex\<close> gives 0 for an unknown name.\<close>

definition if_nametoindex :: "ip6_env \<Rightarrow> string \<Rightarrow> nat" where
  "if_nametoindex env name = (case if_index env name of Some i \<Rightarrow> i | None \<Rightarrow> 0)"

definition IN6_IS_ADDR_MC_LINKLOCAL :: "byte list \<Rightarrow> bool" where
  "IN6_IS_ADDR_MC_LINKLOCAL a \<longleftrightarrow> take 1 a = [0xFF] \<and> and (a ! 1) 0x0F = 2"

definition new_sock :: ua_sock where
  "new_sock = \<lparr>us_ifindex = 0, us_hops = 1, us_source = None\<rparr>"

definition set_multicast_if :: "bool \<Rightarrow> nat \<Rightarrow> ua_sock \<Rightarrow> int \<times> ua_sock" where
  "set_multicast_if works ifindex s = (if works then (0, s\<lparr>us_ifindex := ifindex\<rparr>) else (- 1, s))"

definition set_multicast_hops :: "bool \<Rightarrow> nat \<Rightarrow> ua_sock \<Rightarrow> int \<times> ua_sock" where
  "set_multicast_hops works hop s = (if works then (0, s\<lparr>us_hops := hop\<rparr>) else (- 1, s))"

definition bind_source :: "bool \<Rightarrow> in6 \<Rightarrow> nat \<Rightarrow> ua_sock \<Rightarrow> int \<times> ua_sock" where
  "bind_source works a scope s = (if works then (0, s\<lparr>us_source := Some (a, scope)\<rparr>) else (- 1, s))"

text \<open>The status and the advertisement handed to \<open>sendto\<close>, if it comes to that; a null name faults.\<close>

definition send_ua :: "ip6_env \<Rightarrow> in6 \<Rightarrow> string option \<Rightarrow> ip6_state \<Rightarrow> int result \<times> ip6_state" where
  "send_ua env src_ip if_name st =
     (let ans = ua_answers env (ua_count st); st1 = st\<lparr>ua_count := ua_count st + 1\<rparr> in
      if \<not> ua_socket ans then (Ret (- 1), st1)
      else case if_name of
        None \<Rightarrow> (Fault, st1)
      | Some name \<Rightarrow>
          let ifindex = if_nametoindex env name;
              (rc1, s1) = set_multicast_if (ua_multicast_if ans) ifindex new_sock in
          if rc1 < 0 then (Ret (- 1), st1)
          else let (rc2, s2) = set_multicast_hops (ua_multicast_hops ans) 255 s1 in
            if rc2 < 0 then (Ret (- 1), st1)
            else let scope = (if IN6_IS_ADDR_LINKLOCAL (in6_bytes src_ip) \<or> IN6_IS_ADDR_MC_LINKLOCAL (in6_bytes src_ip)
                              then ifindex else 0);
                     (rc3, s3) = bind_source (ua_bind ans) src_ip scope s2 in
              if rc3 < 0 then (Ret (- 1), st1)
              else case ua_hwaddr ans of
                None \<Rightarrow> (Ret (- 1), st1)
              | Some hwaddr \<Rightarrow>
                  if \<not> ua_memory ans then (Ret (- 1), st1)
                  else let payload = ua_payload src_ip hwaddr;
                           st2 = st1\<lparr>adverts := adverts st1 @
                             [\<lparr>ad_payload = payload, ad_dest = inet_pton6 BCAST_ADDR, ad_socket = s3\<rparr>]\<rparr>
                       in (if ua_sendto ans \<noteq> int (length payload) then Ret (- 1) else Ret 0, st2))"

text \<open>The loop that sends the advertisements one second apart, whatever their status.\<close>

fun ua_repeat :: "ip6_env \<Rightarrow> nat \<Rightarrow> in6 \<Rightarrow> string \<Rightarrow> ip6_state \<Rightarrow> int result \<times> ip6_state" where
  "ua_repeat env 0 addr6 if_name st = (Ret OCF_SUCCESS, st)"
| "ua_repeat env (Suc k) addr6 if_name st =
     and_then (send_ua env addr6 (Some if_name))
       (\<lambda>_ st'. ua_repeat env k addr6 if_name (st'\<lparr>slept := slept st' + 1\<rparr>)) st"

section \<open>The actions\<close>

definition scan_if ::
  "ip6_env \<Rightarrow> in6 \<Rightarrow> nat \<Rightarrow> bool \<Rightarrow> string option \<Rightarrow> ip6_state \<Rightarrow> (string \<times> nat) option" where
  "scan_if env addr_target plen_target use_mask prov_ifname st =
     (case if_inet6 env (ioctls st) of
        None \<Rightarrow> None
      | Some s \<Rightarrow> scan_if_loop addr_target plen_target use_mask prov_ifname s)"

definition find_if :: "ip6_env \<Rightarrow> in6 \<Rightarrow> nat \<Rightarrow> string option \<Rightarrow> ip6_state \<Rightarrow> (string \<times> nat) option" where
  "find_if env addr_target plen_target prov_ifname st =
     (case scan_if env addr_target plen_target True prov_ifname st of
        Some r \<Rightarrow> Some r
      | None \<Rightarrow>
          (case prov_ifname of
             Some n \<Rightarrow> if n \<noteq> [] \<and> plen_target \<noteq> 0 then Some (n, plen_target) else None
           | None \<Rightarrow> None))"

definition get_if :: "ip6_env \<Rightarrow> in6 \<Rightarrow> nat \<Rightarrow> string option \<Rightarrow> ip6_state \<Rightarrow> (string \<times> nat) option" where
  "get_if env addr_target plen_target prov_ifname st = scan_if env addr_target plen_target False prov_ifname st"

text \<open>\<open>assign_addr6\<close> and \<open>unassign_addr6\<close>: the name is copied with \<open>strcpy\<close> into \<open>ifr_name[16]\<close>.\<close>

definition assign_addr6 :: "ip6_env \<Rightarrow> in6 \<Rightarrow> nat \<Rightarrow> string \<Rightarrow> ip6_state \<Rightarrow> int result \<times> ip6_state" where
  "assign_addr6 env addr6 prefix_len if_name st =
     (if \<not> dgram_socket env then (Ret 1, st)
      else if length if_name \<ge> 16 then (Fault, st)
      else case if_index env if_name of
        None \<Rightarrow> (Ret (- 1), st)
      | Some ix \<Rightarrow>
          if \<not> addr_ioctl_ok env (ioctls st) (Assign addr6 prefix_len ix) then (Ret (- 1), st)
          else (Ret 0, st\<lparr>ioctls := ioctls st @ [Assign addr6 prefix_len ix]\<rparr>))"

definition unassign_addr6 :: "ip6_env \<Rightarrow> in6 \<Rightarrow> nat \<Rightarrow> string \<Rightarrow> ip6_state \<Rightarrow> int result \<times> ip6_state" where
  "unassign_addr6 env addr6 prefix_len if_name st =
     (if \<not> dgram_socket env then (Ret 1, st)
      else if length if_name \<ge> 16 then (Fault, st)
      else case if_index env if_name of
        None \<Rightarrow> (Ret (- 1), st)
      | Some ix \<Rightarrow>
          if \<not> addr_ioctl_ok env (ioctls st) (Unassign addr6 prefix_len ix) then (Ret (- 1), st)
          else (Ret 0, st\<lparr>ioctls := ioctls st @ [Unassign addr6 prefix_len ix]\<rparr>))"

text \<open>At most three polls of ten milliseconds; any message received counts.\<close>

fun ping_loop :: "nat \<Rightarrow> ping_event list \<Rightarrow> int" where
  "ping_loop 0 es = - 1"
| "ping_loop (Suc n) [] = ping_loop n []"
| "ping_loop (Suc n) (e # es) =
     (case e of
        No_Event \<Rightarrow> ping_loop n es
      | Received p \<Rightarrow> if p \<noteq> [] then 0 else - 1
      | Try_Again \<Rightarrow> ping_loop n es
      | Receive_Error \<Rightarrow> - 1)"

definition is_addr6_available :: "ip6_env \<Rightarrow> in6 \<Rightarrow> ip6_state \<Rightarrow> int \<times> ip6_state" where
  "is_addr6_available env addr6 st =
     (let run = ping_runs env (pings st); st1 = st\<lparr>pings := pings st + 1\<rparr>
      in if \<not> ping_socket run then (- 1, st1)
         else if ping_sendto run \<le> 0 then (- 1, st1)
         else (ping_loop 3 (ping_events run), st1))"

definition status_addr6 :: "ip6_env \<Rightarrow> in6 \<Rightarrow> nat \<Rightarrow> string option \<Rightarrow> ip6_state \<Rightarrow> int" where
  "status_addr6 env addr6 prefix_len prov_ifname st =
     (if get_if env addr6 prefix_len prov_ifname st = None then OCF_NOT_RUNNING else OCF_SUCCESS)"

definition monitor_addr6 :: "ip6_env \<Rightarrow> in6 \<Rightarrow> ip6_state \<Rightarrow> int \<times> ip6_state" where
  "monitor_addr6 env addr6 st =
     (case is_addr6_available env addr6 st of (rc, st') \<Rightarrow>
        (if rc = 0 then OCF_SUCCESS else OCF_NOT_RUNNING, st'))"

definition QUERY_COUNT :: nat where "QUERY_COUNT = 5"

fun query_loop :: "ip6_env \<Rightarrow> nat \<Rightarrow> in6 \<Rightarrow> ip6_state \<Rightarrow> bool \<times> ip6_state" where
  "query_loop env 0 addr6 st = (False, st)"
| "query_loop env (Suc k) addr6 st =
     (case is_addr6_available env addr6 st of (rc, st') \<Rightarrow>
        if rc = 0 then (True, st') else query_loop env k addr6 (st'\<lparr>slept := slept st' + 1\<rparr>))"

definition start_addr6 ::
  "ip6_env \<Rightarrow> in6 \<Rightarrow> nat \<Rightarrow> string option \<Rightarrow> ip6_state \<Rightarrow> int result \<times> ip6_state" where
  "start_addr6 env addr6 prefix_len prov_ifname st =
     (if status_addr6 env addr6 prefix_len prov_ifname st = OCF_SUCCESS then (Ret OCF_SUCCESS, st)
      else case find_if env addr6 prefix_len prov_ifname st of
        None \<Rightarrow> (Ret OCF_ERR_GENERIC, st)
      | Some (if_name, plen) \<Rightarrow>
          and_then (assign_addr6 env addr6 plen if_name)
            (\<lambda>rc st1. if rc \<noteq> 0 then (Ret OCF_ERR_GENERIC, st1)
               else case query_loop env QUERY_COUNT addr6 st1 of (ok, st2) \<Rightarrow>
                 if \<not> ok then (Ret OCF_ERR_GENERIC, st2)
                 else ua_repeat env UA_REPEAT_COUNT addr6 if_name st2) st)"

definition advt_addr6 ::
  "ip6_env \<Rightarrow> in6 \<Rightarrow> nat \<Rightarrow> string option \<Rightarrow> ip6_state \<Rightarrow> int result \<times> ip6_state" where
  "advt_addr6 env addr6 prefix_len prov_ifname st =
     (case get_if env addr6 prefix_len prov_ifname st of
        None \<Rightarrow> (Ret OCF_ERR_GENERIC, st)
      | Some (if_name, plen) \<Rightarrow> ua_repeat env UA_REPEAT_COUNT addr6 if_name st)"

definition stop_addr6 ::
  "ip6_env \<Rightarrow> in6 \<Rightarrow> nat \<Rightarrow> string option \<Rightarrow> ip6_state \<Rightarrow> int result \<times> ip6_state" where
  "stop_addr6 env addr6 prefix_len prov_ifname st =
     (if status_addr6 env addr6 prefix_len prov_ifname st = OCF_NOT_RUNNING then (Ret OCF_SUCCESS, st)
      else case get_if env addr6 prefix_len prov_ifname st of
        None \<Rightarrow> (Ret OCF_ERR_GENERIC, st)
      | Some (if_name, plen) \<Rightarrow>
          and_then (unassign_addr6 env addr6 plen if_name)
            (\<lambda>rc st1. (if rc \<noteq> 0 then Ret OCF_ERR_GENERIC else Ret OCF_SUCCESS, st1)) st)"

section \<open>The main program\<close>

text \<open>\<open>strncmp (CMD, argv[1], n) == 0\<close>.\<close>

definition is_cmd :: "string \<Rightarrow> nat \<Rightarrow> string \<Rightarrow> bool" where
  "is_cmd cmd n arg = strncmp_eq n cmd arg"

definition ip6_command ::
  "ip6_env \<Rightarrow> string \<Rightarrow> in6 \<Rightarrow> nat \<Rightarrow> string option \<Rightarrow> ip6_state \<Rightarrow> int result \<times> ip6_state" where
  "ip6_command env arg addr6 prefix_len prov_ifname st =
     (if is_cmd ''start'' 5 arg then start_addr6 env addr6 prefix_len prov_ifname st
      else if is_cmd ''stop'' 4 arg then stop_addr6 env addr6 prefix_len prov_ifname st
      else if is_cmd ''status'' 6 arg then (Ret (status_addr6 env addr6 prefix_len prov_ifname st), st)
      else if is_cmd ''monitor'' 7 arg then (case monitor_addr6 env addr6 st of (rc, st') \<Rightarrow> (Ret rc, st'))
      else if is_cmd ''reload'' 6 arg then (Ret OCF_ERR_UNIMPLEMENTED, st)
      else if is_cmd ''recover'' 7 arg then (Ret OCF_ERR_UNIMPLEMENTED, st)
      else if is_cmd ''validate-all'' 12 arg then (Ret OCF_SUCCESS, st)
      else if is_cmd ''advt'' 7 arg then advt_addr6 env addr6 prefix_len prov_ifname st
      else (Ret OCF_ERR_ARGS, st))"

text \<open>
  The parameters: the address text before a slash, and the prefix length from \<open>cidr_netmask\<close>, else
  from behind the slash, else 0.
\<close>

definition ip6_parameters :: "ip6_env \<Rightarrow> (string \<times> nat) option" where
  "ip6_parameters env =
     (case ip6_getenv env ''OCF_RESKEY_ipv6addr'' of
        None \<Rightarrow> None
      | Some s \<Rightarrow>
          let text = takeWhile (\<lambda>c. c \<noteq> CHR ''/'') s;
              legacy = (if CHR ''/'' \<in> set s then Some (atoi (drop (length text + 1) s)) else None)
          in if (case legacy of Some l \<Rightarrow> l < 0 \<or> l > 128 | None \<Rightarrow> False) then None
             else case ip6_getenv env ''OCF_RESKEY_cidr_netmask'' of
               Some m \<Rightarrow> if strtol10 m < 0 \<or> strtol10 m > 128 then None else Some (text, nat (strtol10 m))
             | None \<Rightarrow> Some (text, case legacy of Some l \<Rightarrow> nat l | None \<Rightarrow> 0))"

definition IPv6addr_main :: "ip6_env \<Rightarrow> string list \<Rightarrow> ip6_state \<Rightarrow> int result \<times> ip6_state" where
  "IPv6addr_main env args st =
     (case args of
        [] \<Rightarrow> (Ret OCF_ERR_ARGS, st)
      | arg # _ \<Rightarrow>
          if \<not> sigaction_works env then (Ret OCF_ERR_GENERIC, st)
          else if is_cmd ''meta-data'' 9 arg then (Ret OCF_SUCCESS, st)
          else case ip6_parameters env of
            None \<Rightarrow> (Ret OCF_ERR_ARGS, st)
          | Some (text, prefix_len) \<Rightarrow>
              (case inet_pton6 text of
                 None \<Rightarrow> (Ret OCF_ERR_ARGS, st)
               | Some bytes \<Rightarrow>
                   if \<not> if_inet6_access env then (Ret OCF_ERR_GENERIC, st)
                   else let pid_file = rsctmpdir env @ ''/IPv6addr-'' @ text in
                     if length pid_file \<ge> 256 then (Ret OCF_ERR_GENERIC, st)
                     else case write_pid_file6 (pid_answers env) pid_file (pid_part st) of
                       (Ret rc, p) \<Rightarrow>
                         if rc < 0 then (Ret OCF_ERR_GENERIC, st\<lparr>pid_part := p\<rparr>)
                         else and_then
                           (ip6_command env arg (in6_of_bytes bytes) prefix_len (ip6_getenv env ''OCF_RESKEY_nic''))
                           (\<lambda>ret st1. (Ret ret, st1\<lparr>pid_part := snd (unlink_pid (pid_part st1))\<rparr>))
                           (st\<lparr>pid_part := p\<rparr>)
                     | (Exit e, p) \<Rightarrow> (Exit e, st\<lparr>pid_part := p\<rparr>)
                     | (Fault, p) \<Rightarrow> (Fault, st\<lparr>pid_part := p\<rparr>)))"

section \<open>The address table\<close>

text \<open>Bit \<open>k\<close> of an address, counted from the most significant one.\<close>

definition addr_bit :: "in6 \<Rightarrow> nat \<Rightarrow> bool" where
  "addr_bit a k = bit (htonl (a ! (k div 32))) (31 - k mod 32)"

definition same_prefix :: "nat \<Rightarrow> in6 \<Rightarrow> in6 \<Rightarrow> bool" where
  "same_prefix n a b \<longleftrightarrow> (\<forall>k < n. addr_bit a k = addr_bit b k)"

lemma htonl_and: "htonl (and a b) = and (htonl a) (htonl b)"
  by (rule bit_word_eqI) (simp add: htonl_bits bit_simps)

lemma htonl_eq_iff [simp]: "htonl a = htonl b \<longleftrightarrow> a = b"
  by (metis htonl_htonl)

lemma htonl_minus_1 [simp]: "htonl (- 1) = - 1" "htonl 0 = 0"
proof -
  show z: "htonl 0 = 0" by (simp add: htonl_def)
  have "htonl (not 0) = not (htonl 0)" by (rule htonl_not)
  then show "htonl (- 1) = - 1" using z by simp
qed

lemma if_mask_bit:
  assumes "plen \<le> 128" and "i < 4" and "j < 32"
  shows "bit (htonl (if_mask True plen ! i)) j \<longleftrightarrow> 32 * i + (31 - j) < plen"
proof (cases "plen < 128")
  case True
  let ?n = "plen div 32" and ?s = "32 - plen mod 32"
  have d: "plen = 32 * ?n + plen mod 32" by simp
  have md: "plen mod 32 < 32" by simp
  consider "i < ?n" | "i = ?n" | "?n < i" by linarith
  then show ?thesis
  proof cases
    case 1
    then have "32 * i + 32 \<le> plen" using d by linarith
    with 1 assms True show ?thesis by (simp add: if_mask_def Let_def)
  next
    case 2
    then have e: "if_mask True plen ! i = htonl (if ?s = 32 then 0 else push_bit ?s 0xFFFFFFFF)"
      using assms True by (simp add: if_mask_def Let_def)
    have f: "(0xFFFFFFFF :: 32 word) = mask 32" by (simp add: mask_eq_exp_minus_1)
    have "bit (if ?s = 32 then 0 else push_bit ?s (mask 32 :: 32 word)) j \<longleftrightarrow> ?s \<le> j"
      using assms(3) md by (auto simp: bit_simps)
    moreover have "?s \<le> j \<longleftrightarrow> 31 - j < plen mod 32" using assms(3) md by linarith
    moreover have "32 * i + (31 - j) < plen \<longleftrightarrow> 31 - j < plen mod 32" using 2 d by linarith
    ultimately show ?thesis unfolding e f by (simp only: htonl_htonl)
  next
    case 3
    then have "32 * ?n + 32 \<le> 32 * i" by linarith
    then have "plen \<le> 32 * i" using d md by linarith
    with 3 assms True show ?thesis by (simp add: if_mask_def Let_def)
  qed
next
  case False
  then have "plen = 128" using assms(1) by simp
  with assms show ?thesis by (simp add: if_mask_def)
qed

text \<open>A masked comparison of two words looks at the bits of the mask.\<close>

lemma masked_eq_iff:
  "and (a :: 32 word) m = and b m \<longleftrightarrow> (\<forall>j < 32. bit m j \<longrightarrow> bit a j = bit b j)"
  by (auto simp: bit_eq_iff bit_simps dest: bit_imp_le_length)

lemma word_position: fixes P :: "nat \<Rightarrow> nat \<Rightarrow> nat \<Rightarrow> bool"
  shows "(\<forall>i < 4. \<forall>j < 32. P (32 * i + (31 - j)) i j) \<longleftrightarrow> (\<forall>k < 128. P k (k div 32) (31 - k mod 32))"
proof (intro iffI allI impI)
  fix k :: nat assume a: "\<forall>i < 4. \<forall>j < 32. P (32 * i + (31 - j)) i j" and k: "k < 128"
  have "k mod 32 < 32" by simp
  then have "31 - (31 - k mod 32) = k mod 32" by linarith
  then have "32 * (k div 32) + (31 - (31 - k mod 32)) = k" by simp
  moreover have "k div 32 < 4" "31 - k mod 32 < 32" using k by (simp_all add: div_less_iff_less_mult)
  ultimately show "P k (k div 32) (31 - k mod 32)" using a by metis
next
  fix i j :: nat assume a: "\<forall>k < 128. P k (k div 32) (31 - k mod 32)" and ij: "i < 4" "j < 32"
  let ?k = "32 * i + (31 - j)"
  have "31 - j < 32" by simp
  then have "?k div 32 = i" "?k mod 32 = 31 - j"
    by (simp_all only: div_mult_self4 mod_mult_self4 div_less mod_less)
  moreover have "?k < 128" using ij by linarith
  moreover have "31 - (31 - j) = j" using ij by simp
  ultimately show "P ?k i j" using a by metis
qed

lemma entry_same_prefix:
  assumes "e_plen e \<le> 128" and "length (e_addr e) = 4"
  shows "entry_same a True e \<longleftrightarrow> same_prefix (e_plen e) (map htonl (e_addr e)) a"
proof -
  let ?m = "if_mask True (e_plen e)"
  have "and (htonl p) m = and t m \<longleftrightarrow> and p (htonl m) = and (htonl t) (htonl m)" for p t m :: "32 word"
    by (metis htonl_and htonl_htonl)
  then have "entry_same a True e \<longleftrightarrow>
      (\<forall>i < 4. \<forall>j < 32. bit (htonl (?m ! i)) j \<longrightarrow> bit (e_addr e ! i) j = bit (htonl (a ! i)) j)"
    by (auto simp: entry_same_def list_all_iff masked_eq_iff)
  also have "\<dots> \<longleftrightarrow> (\<forall>i < 4. \<forall>j < 32. 32 * i + (31 - j) < e_plen e \<longrightarrow> bit (e_addr e ! i) j = bit (htonl (a ! i)) j)"
    using if_mask_bit[OF assms(1)] by auto
  also have "\<dots> \<longleftrightarrow> (\<forall>k < 128. k < e_plen e \<longrightarrow>
      bit (e_addr e ! (k div 32)) (31 - k mod 32) = bit (htonl (a ! (k div 32))) (31 - k mod 32))"
    by (rule word_position)
  also have "\<dots> \<longleftrightarrow> same_prefix (e_plen e) (map htonl (e_addr e)) a"
    using assms by (auto simp: same_prefix_def addr_bit_def div_less_iff_less_mult)
  finally show ?thesis .
qed

lemma entry_same_exact:
  assumes "length (e_addr e) = 4" and "length a = 4"
  shows "entry_same a False e \<longleftrightarrow> map htonl (e_addr e) = a"
proof -
  have "entry_same a False e \<longleftrightarrow> (\<forall>i < 4. htonl (e_addr e ! i) = a ! i)"
    by (auto simp: entry_same_def list_all_iff if_mask_def)
  also have "\<dots> \<longleftrightarrow> map htonl (e_addr e) = a" using assms by (auto simp: list_eq_iff_nth_eq)
  finally show ?thesis .
qed

text \<open>The table as the kernel prints it: hexadecimal fields of fixed width and the padded device name.\<close>

definition hex_char :: "nat \<Rightarrow> char" where
  "hex_char d = char_of (if d < 10 then 48 + d else 87 + d)"

fun hexw :: "nat \<Rightarrow> nat \<Rightarrow> string" where
  "hexw 0 v = []"
| "hexw (Suc n) v = hexw n (v div 16) @ [hex_char (v mod 16)]"

text \<open>\<open>printf\<close> with \<open>%02x\<close>: at least two digits.\<close>

fun hexs :: "nat \<Rightarrow> string" where
  "hexs v = (if v < 16 then [hex_char v] else hexs (v div 16) @ [hex_char (v mod 16)])"

declare hexs.simps [simp del]

definition hex02 :: "nat \<Rightarrow> string" where
  "hex02 v = (if v < 16 then hexw 2 v else hexs v)"

text \<open>
  A line of the file: address, interface index, prefix length, scope and flags, the last three below 256, and the
  device name padded on the left.
\<close>

definition entry_line :: "if_entry \<Rightarrow> string" where
  "entry_line e =
     concat (map (\<lambda>w. hexw 8 (unat w)) (e_addr e)) @ '' '' @ hex02 (e_index e) @ '' '' @ hexw 2 (e_plen e) @ '' '' @
     hexw 2 (e_scope e) @ '' '' @ hexw 2 (e_flags e) @ '' '' @
     replicate (8 - length (e_dev e)) (CHR '' '') @ e_dev e @ [CHR 0x0A]"

definition wf_entry :: "if_entry \<Rightarrow> bool" where
  "wf_entry e \<longleftrightarrow> length (e_addr e) = 4 \<and> e_index e < 2 ^ 31 \<and> e_plen e \<le> 128 \<and> e_scope e < 256 \<and> e_flags e < 256 \<and> e_dev e \<noteq> [] \<and> length (e_dev e) < 16 \<and>
     (\<forall>c\<in>set (e_dev e). \<not> isspace c)"

lemma hex_val_char: "d < 16 \<Longrightarrow> hex_val (hex_char d) = Some d"
  by (auto simp: hex_char_def hex_val_def Let_def)

lemma hexw_length [simp]: "length (hexw n v) = n"
  by (induction n arbitrary: v) auto

lemma hexw_digits: "c \<in> set (hexw n v) \<Longrightarrow> hex_val c \<noteq> None"
  by (induction n arbitrary: v) (auto simp: hex_val_char)

lemma hex_num_hexw: "hex_num (hexw n v) = v mod 16 ^ n"
proof (induction n arbitrary: v)
  case (Suc n)
  have "hex_num (hexw (Suc n) v) = 16 * (v div 16 mod 16 ^ n) + v mod 16"
    using Suc by (simp add: hex_num_def hex_val_char)
  also have "\<dots> = v mod (16 * 16 ^ n)" by (simp add: mod_mult2_eq)
  finally show ?case by simp
qed (simp add: hex_num_def)

lemma scan_x_hexw:
  assumes "0 < n" and "n \<le> 8" and "\<forall>c\<in>set sp. isspace c"
  shows "scan_x n (sp @ hexw n v @ r) = Some (of_nat (v mod 16 ^ n), r)"
proof -
  obtain c cs where c: "hexw n v = c # cs" using assms(1) by (metis hexw_length length_0_conv list.exhaust not_less0)
  then have "\<not> isspace c" using hexw_digits[of c n v] hex_not_space by auto
  then have d: "dropWhile isspace (sp @ hexw n v @ r) = hexw n v @ r"
    using c assms(3) by (simp add: dropWhile_append)
  have le: "v mod 16 ^ n < 16 ^ n" by simp
  have "(16::nat) ^ n \<le> 16 ^ 8" using assms(2) by (intro power_increasing) simp_all
  then have "(16::nat) ^ n \<le> 2 ^ 32" by simp
  with le have l: "v mod 16 ^ n < 2 ^ 32" by (rule less_le_trans)
  have "scan_lx ([] @ hexw n v @ []) = Some (of_nat (min (hex_num (hexw n v)) 18446744073709551615), [])"
    by (rule scan_lx_field) (use hexw_digits[of _ n v] c in \<open>auto simp del: not_None_eq\<close>)
  then have "scan_lx (hexw n v) = Some (of_nat (v mod 16 ^ n), [])" using l by (simp add: hex_num_hexw)
  moreover have "(ucast (of_nat k :: 64 word) :: 32 word) = of_nat k" for k by (rule bit_word_eqI) (simp add: bit_simps)
  ultimately show ?thesis by (simp add: scan_x_def d)
qed

lemma hexs_digits: "c \<in> set (hexs v) \<Longrightarrow> hex_val c \<noteq> None"
proof (induction v rule: hexs.induct)
  case (1 v)
  then show ?case by (subst (asm) (2) hexs.simps) (auto simp: hex_val_char split: if_splits)
qed

lemma hex_num_hexs: "hex_num (hexs v) = v"
proof (induction v rule: hexs.induct)
  case (1 v)
  show ?case
  proof (cases "v < 16")
    case True
    then show ?thesis by (subst hexs.simps) (simp add: hex_num_def hex_val_char)
  next
    case False
    then have "hex_num (hexs v) = 16 * hex_num (hexs (v div 16)) + v mod 16"
      by (subst hexs.simps) (simp add: hex_num_def hex_val_char)
    then show ?thesis using 1 False by simp
  qed
qed

lemma hexs_nonempty: "hexs v \<noteq> []"
  by (subst hexs.simps) simp

lemma hex02_digits: "\<forall>c \<in> set (hex02 v). hex_val c \<noteq> None"
  unfolding hex02_def using hexs_digits[of _ v] hexw_digits[of _ 2 v] by (cases "v < 16") (auto simp del: not_None_eq)

lemma hex02_num: "hex_num (hex02 v) = v"
  unfolding hex02_def using hex_num_hexs[of v] hex_num_hexw[of 2 v] by simp

lemma hex02_nonempty: "hex02 v \<noteq> []"
proof -
  have "length (hexw 2 v) \<noteq> 0" by simp
  then have "hexw 2 v \<noteq> []" by (simp only: length_0_conv not_False_eq_True)
  then show ?thesis using hexs_nonempty[of v] by (simp add: hex02_def)
qed

lemma scan_x_index:
  assumes "v < 2 ^ 31" and "k = length (CHR '' '' # hex02 v @ CHR '' '' # r)"
  shows "scan_x k (CHR '' '' # hex02 v @ CHR '' '' # r) = Some (of_nat v, CHR '' '' # r)"
proof -
  obtain c cs where c: "hex02 v = c # cs" using hex02_nonempty[of v] by (cases "hex02 v") auto
  have sp: "isspace (CHR '' '')" by (simp add: isspace_def)
  have "\<not> isspace c" using hex02_digits[of v] hex_not_space c by auto
  then have d: "dropWhile isspace (CHR '' '' # hex02 v @ CHR '' '' # r) = hex02 v @ CHR '' '' # r" using c sp by simp
  have "scan_lx ([] @ hex02 v @ (CHR '' '' # r)) =
      Some (of_nat (min (hex_num (hex02 v)) 18446744073709551615), CHR '' '' # r)"
    by (rule scan_lx_field) (simp_all add: hex02_nonempty hex02_digits sp del: not_None_eq)
  then have x: "scan_lx (hex02 v @ CHR '' '' # r) = Some (of_nat v, CHR '' '' # r)" using assms(1) by (simp add: hex02_num)
  have t: "take k (hex02 v @ CHR '' '' # r) = hex02 v @ CHR '' '' # r" "drop k (hex02 v @ CHR '' '' # r) = []"
    using assms(2) by simp_all
  have "(ucast (of_nat k :: 64 word) :: 32 word) = of_nat k" for k by (rule bit_word_eqI) (simp add: bit_simps)
  then show ?thesis unfolding scan_x_def Let_def d t x by simp
qed

lemma scan_s_word:
  assumes "\<forall>c\<in>set w. \<not> isspace c" and "w \<noteq> []" and "length w \<le> n" and "\<forall>c\<in>set sp. isspace c" and "isspace d"
  shows "scan_s n (sp @ w @ d # r) = Some (w, d # r)"
proof -
  have "dropWhile isspace (sp @ w @ d # r) = w @ d # r"
    using assms(1,2,4) by (cases w) (simp_all add: dropWhile_append)
  moreover have "takeWhile (\<lambda>c. \<not> isspace c) (w @ d # r) = w" using assms(1,5) by (simp add: takeWhile_append)
  moreover have "0 < n" using assms(2,3) by (cases w) auto
  ultimately show ?thesis using assms(2,3) by (simp add: scan_s_def Let_def)
qed

lemma scan_entry_line:
  assumes "wf_entry e"
  shows "scan_entry (entry_line e @ r) = Some (e, dropWhile isspace r)"
proof -
  have "length (e_addr e) = 4" using assms by (simp add: wf_entry_def)
  then obtain a0 a1 a2 a3 where a: "e_addr e = [a0, a1, a2, a3]" by (auto simp: numeral_eq_Suc length_Suc_conv)
  let ?t9 = "CHR 0x0A # r" and ?sp = "CHR '' '' # replicate (8 - length (e_dev e)) (CHR '' '')"
  let ?t8 = "?sp @ e_dev e @ ?t9"
  have sp: "isspace (CHR '' '')" "isspace (CHR 0x0A)" by (simp_all add: isspace_def)
  have x8: "scan_x 8 (hexw 8 (unat w) @ q) = Some (w, q)" for w :: "32 word" and q
    using scan_x_hexw[of 8 "[]" "unat w" q] unsigned_less[of w, where ?'a = nat] by simp
  have x2: "scan_x 2 (CHR '' '' # hexw 2 n @ q) = Some (of_nat n, q)" if "n < 256" for n q
    using scan_x_hexw[of 2 "'' ''" n q] that sp by simp
  have s: "scan_s 20 ?t8 = Some (e_dev e, ?t9)"
    using assms sp by (intro scan_s_word) (auto simp: wf_entry_def)
  have n: "e_plen e < 256" "e_scope e < 256" "e_flags e < 256" "e_index e < 2 ^ 31" using assms by (auto simp: wf_entry_def)
  then have u: "unat (of_nat (e_plen e) :: 32 word) = e_plen e" "unat (of_nat (e_scope e) :: 32 word) = e_scope e"
    "unat (of_nat (e_flags e) :: 32 word) = e_flags e" "unat (of_nat (e_index e) :: 32 word) = e_index e"
    by (simp_all add: unat_of_nat)
  have l: "entry_line e @ r = hexw 8 (unat a0) @ hexw 8 (unat a1) @ hexw 8 (unat a2) @ hexw 8 (unat a3) @
      (CHR '' '' # hex02 (e_index e) @ CHR '' '' # (hexw 2 (e_plen e) @ CHR '' '' # hexw 2 (e_scope e) @ CHR '' '' # hexw 2 (e_flags e) @ ?t8))"
    by (simp add: entry_line_def a)
  have e: "e = \<lparr>e_addr = [a0, a1, a2, a3], e_index = e_index e, e_plen = e_plen e, e_scope = e_scope e, e_flags = e_flags e,
      e_dev = e_dev e\<rparr>" by (simp add: a[symmetric])
  show ?thesis
    unfolding l scan_entry_def
    by (simp only: x8 Option.bind.bind_lunit case_prod_conv scan_x_index[OF n(4) refl] x2[OF n(1)] x2[OF n(2)] x2[OF n(3)] s u)
      (simp add: sp e[symmetric])
qed

definition table_text :: "if_entry list \<Rightarrow> string" where
  "table_text es = concat (map entry_line es)"

lemma table_text_start: "\<forall>e\<in>set es. wf_entry e \<Longrightarrow> dropWhile isspace (table_text es) = table_text es"
proof (cases es)
  case (Cons e r)
  moreover assume "\<forall>e\<in>set es. wf_entry e"
  ultimately obtain a as where a: "e_addr e = a # as" by (cases "e_addr e") (auto simp: wf_entry_def)
  obtain c cs where c: "hexw 8 (unat a) = c # cs" by (metis hexw_length length_0_conv list.exhaust zero_neq_numeral)
  then have "\<not> isspace c" using hexw_digits[of c 8 "unat a"] hex_not_space by auto
  then show ?thesis using Cons a c by (simp add: table_text_def entry_line_def)
qed (simp add: table_text_def)

text \<open>On a printed table the loop is a search of the list of entries.\<close>

lemma scan_if_loop_table:
  assumes "\<forall>e\<in>set es. wf_entry e"
  shows "scan_if_loop a p m prov (table_text es) =
    map_option (\<lambda>e. (e_dev e, e_plen e)) (find (\<lambda>e. entry_eligible p prov e \<and> entry_same a m e) es)"
  using assms
proof (induction es)
  case Nil
  have "scan_entry [] = None" by (simp add: scan_entry_def scan_x_def scan_lx_def)
  then show ?case by (subst scan_if_loop.simps) (simp add: table_text_def)
next
  case (Cons e es)
  have "scan_entry (table_text (e # es)) = Some (e, table_text es)"
    using scan_entry_line[of e "table_text es"] table_text_start[of es] Cons.prems by (simp add: table_text_def)
  then show ?case using Cons by (subst scan_if_loop.simps) simp
qed

text \<open>
  C27. The search of the address table: on the table the kernel prints, \<open>scan_if\<close> gives the device and
  prefix length of the first entry that is eligible and, with the mask, agrees with the address in the
  bits of its prefix, or, without the mask, is the address.  The masks put together from 32-bit words
  in network byte order thus mean what a prefix length means.
\<close>

theorem scan_if_first_match:
  assumes "\<forall>e\<in>set es. wf_entry e" and "length a = 4" and "if_inet6 env (ioctls st) = Some (table_text es)"
  shows "scan_if env a p use_mask prov st =
    map_option (\<lambda>e. (e_dev e, e_plen e))
      (find (\<lambda>e. entry_eligible p prov e \<and>
               (if use_mask then same_prefix (e_plen e) (map htonl (e_addr e)) a else map htonl (e_addr e) = a)) es)"
proof -
  have "entry_same a use_mask e \<longleftrightarrow>
      (if use_mask then same_prefix (e_plen e) (map htonl (e_addr e)) a else map htonl (e_addr e) = a)" if "e \<in> set es" for e
    using assms(1,2) that entry_same_prefix[of e a] entry_same_exact[of e a] by (auto simp: wf_entry_def)
  then have "find (\<lambda>e. entry_eligible p prov e \<and> entry_same a use_mask e) es =
      find (\<lambda>e. entry_eligible p prov e \<and>
               (if use_mask then same_prefix (e_plen e) (map htonl (e_addr e)) a else map htonl (e_addr e) = a)) es"
    by (intro find_cong) auto
  then show ?thesis using scan_if_loop_table[OF assms(1)] assms(3) by (simp add: scan_if_def)
qed

definition demo_entries :: "if_entry list" where
  "demo_entries =
     [\<lparr>e_addr = [0, 0, 0, 1], e_index = 1, e_plen = 128, e_scope = 0x10, e_flags = 0x80, e_dev = ''lo''\<rparr>,
      \<lparr>e_addr = [0x20010DB8, 0, 0, 1], e_index = 258, e_plen = 64, e_scope = 0, e_flags = 0x80, e_dev = ''eth0''\<rparr>]"

lemma demo_entries_wf: "\<forall>e\<in>set demo_entries. wf_entry e"
  by (simp add: demo_entries_def wf_entry_def isspace_def)

definition demo_ip6_state :: ip6_state where
  "demo_ip6_state = \<lparr>ioctls = [], pings = 0, ua_count = 0, adverts = [], slept = 0, pid_part = no_pid_file\<rparr>"

text \<open>A kernel that keeps the table, with the interfaces \<open>lo\<close> and \<open>eth0\<close>, and an address that answers.\<close>

definition addr_entry :: "in6 \<Rightarrow> nat \<Rightarrow> string \<Rightarrow> nat \<Rightarrow> nat \<Rightarrow> if_entry" where
  "addr_entry a l n ix f = \<lparr>e_addr = map htonl a, e_index = ix, e_plen = l, e_scope = 0, e_flags = f, e_dev = n\<rparr>"

definition has_addr :: "in6 \<Rightarrow> nat \<Rightarrow> if_entry \<Rightarrow> bool" where
  "has_addr a ix e \<longleftrightarrow> map htonl (e_addr e) = a \<and> e_index e = ix"

definition demo_if :: "nat \<Rightarrow> string" where
  "demo_if ix = (if ix = 1 then ''lo'' else ''eth0'')"

fun demo_table :: "ip6_ioctl list \<Rightarrow> if_entry list" where
  "demo_table [] = demo_entries"
| "demo_table (Assign a l ix # ios) =
     (if (ix = 1 \<or> ix = 258) \<and> wf_entry (addr_entry a l (demo_if ix) ix 0x80)
      then addr_entry a l (demo_if ix) ix 0x80 # demo_table ios else demo_table ios)"
| "demo_table (Unassign a l ix # ios) = filter (\<lambda>e. \<not> (has_addr a ix e \<and> e_plen e = l)) (demo_table ios)"

fun demo_grants :: "ip6_ioctl list \<Rightarrow> ip6_ioctl \<Rightarrow> bool" where
  "demo_grants ios (Assign a l ix) \<longleftrightarrow> \<not> list_ex (has_addr a ix) (demo_table (rev ios))"
| "demo_grants ios (Unassign a l ix) \<longleftrightarrow> list_ex (\<lambda>e. has_addr a ix e \<and> e_plen e = l) (demo_table (rev ios))"

definition demo_ip6_env :: ip6_env where
  "demo_ip6_env =
     \<lparr>if_inet6 = \<lambda>ios. Some (table_text (demo_table (rev ios))), if_inet6_access = True, dgram_socket = True,
      if_index = [''lo'' \<mapsto> 1, ''eth0'' \<mapsto> 258], addr_ioctl_ok = demo_grants,
      ping_runs = \<lambda>_. \<lparr>ping_socket = True, ping_sendto = 64, ping_events = [Received [129]]\<rparr>,
      ua_answers = \<lambda>_. \<lparr>ua_socket = True, ua_multicast_if = True, ua_multicast_hops = True, ua_bind = True,
                        ua_hwaddr = Some [2, 0, 0, 0, 0, 1], ua_memory = True, ua_sendto = 32\<rparr>,
      sigaction_works = True, ip6_getenv = [''OCF_RESKEY_ipv6addr'' \<mapsto> ''2001:db8::5''], rsctmpdir = ''/run/resource-agents'',
      pid_answers = demo_pid_env\<rparr>"

theorem scan_if_first_match_witness:
  "scan_if demo_ip6_env (map htonl [0x20010DB8, 0, 0, 1]) 0 False None demo_ip6_state = Some (''eth0'', 64)"
proof -
  have "if_inet6 demo_ip6_env (ioctls demo_ip6_state) = Some (table_text demo_entries)"
    by (simp add: demo_ip6_env_def demo_ip6_state_def)
  from scan_if_first_match[OF demo_entries_wf _ this, of "map htonl [0x20010DB8, 0, 0, 1]" 0 False None] show ?thesis
    by (simp add: demo_entries_def entry_eligible_def)
qed

section \<open>Starting and stopping\<close>

text \<open>Whether the echo request number \<open>n\<close> was answered by some message.\<close>

definition answered :: "ip6_env \<Rightarrow> nat \<Rightarrow> bool" where
  "answered env n \<longleftrightarrow> ping_socket (ping_runs env n) \<and> ping_sendto (ping_runs env n) > 0 \<and> ping_loop 3 (ping_events (ping_runs env n)) = 0"

lemma available_iff:
  "is_addr6_available env a st = (rc, st') \<Longrightarrow> (rc = 0 \<longleftrightarrow> answered env (pings st)) \<and> st' = st\<lparr>pings := pings st + 1\<rparr>"
  by (auto simp: is_addr6_available_def answered_def Let_def split: if_splits)

lemma query_loop_effect:
  "query_loop env k a st = (ok, st') \<Longrightarrow>
   (ok \<longleftrightarrow> (\<exists>i<k. answered env (pings st + i))) \<and> ioctls st' = ioctls st \<and> ua_count st' = ua_count st \<and>
   adverts st' = adverts st"
proof (induction k arbitrary: st)
  case (Suc k)
  obtain rc s1 where s: "is_addr6_available env a st = (rc, s1)" by (cases "is_addr6_available env a st") auto
  note e = available_iff[OF s]
  show ?case
  proof (cases "rc = 0")
    case True
    with Suc.prems s e show ?thesis by (auto intro: exI[of _ 0])
  next
    case False
    then have "query_loop env k a (s1\<lparr>slept := slept s1 + 1\<rparr>) = (ok, st')" using Suc.prems s by simp
    from Suc.IH[OF this] False e show ?thesis by (auto simp: less_Suc_eq_0_disj)
  qed
qed simp

text \<open>What a call of \<open>send_ua\<close> does when every call it makes before \<open>sendto\<close> succeeds, and otherwise.\<close>

definition ua_ready :: "ua_answer \<Rightarrow> bool" where
  "ua_ready ans \<longleftrightarrow> ua_socket ans \<and> ua_multicast_if ans \<and> ua_multicast_hops ans \<and> ua_bind ans \<and> ua_hwaddr ans \<noteq> None \<and> ua_memory ans"

lemma send_ua_fails:
  "\<not> ua_ready (ua_answers env (ua_count st)) \<Longrightarrow>
   send_ua env a (Some n) st = (Ret (- 1), st\<lparr>ua_count := ua_count st + 1\<rparr>)"
  by (cases "ua_hwaddr (ua_answers env (ua_count st))")
    (auto simp: ua_ready_def send_ua_def Let_def set_multicast_if_def set_multicast_hops_def bind_source_def)

lemma send_ua_sends:
  assumes "ua_ready (ua_answers env (ua_count st))"
  obtains hw ad where "ua_hwaddr (ua_answers env (ua_count st)) = Some hw"
    "send_ua env a (Some n) st =
       (Ret (if ua_sendto (ua_answers env (ua_count st)) = int (length (ad_payload ad)) then 0 else - 1),
        st\<lparr>ua_count := ua_count st + 1, adverts := adverts st @ [ad]\<rparr>)"
    "ad_payload ad = ua_payload a hw" "ad_dest ad = inet_pton6 BCAST_ADDR" "us_hops (ad_socket ad) = 255"
    "us_ifindex (ad_socket ad) = if_nametoindex env n" "\<exists>scope. us_source (ad_socket ad) = Some (a, scope)"
proof -
  let ?ifx = "if_nametoindex env n"
  let ?scope = "if IN6_IS_ADDR_LINKLOCAL (in6_bytes a) \<or> IN6_IS_ADDR_MC_LINKLOCAL (in6_bytes a) then ?ifx else 0"
  obtain hw where hw: "ua_hwaddr (ua_answers env (ua_count st)) = Some hw" using assms by (auto simp: ua_ready_def)
  let ?ad = "\<lparr>ad_payload = ua_payload a hw, ad_dest = inet_pton6 BCAST_ADDR,
    ad_socket = \<lparr>us_ifindex = ?ifx, us_hops = 255, us_source = Some (a, ?scope)\<rparr>\<rparr>"
  have "send_ua env a (Some n) st =
       (Ret (if ua_sendto (ua_answers env (ua_count st)) = int (length (ad_payload ?ad)) then 0 else - 1),
        st\<lparr>ua_count := ua_count st + 1, adverts := adverts st @ [?ad]\<rparr>)"
    using assms hw by (simp add: ua_ready_def send_ua_def Let_def set_multicast_if_def set_multicast_hops_def bind_source_def new_sock_def)
  from that[OF hw this] show thesis by simp
qed

lemma send_ua_effect:
  "\<exists>rc ads. send_ua env a (Some n) st = (Ret rc, st\<lparr>ua_count := ua_count st + 1, adverts := adverts st @ ads\<rparr>)"
proof (cases "ua_ready (ua_answers env (ua_count st))")
  case True
  then show ?thesis by (rule send_ua_sends) blast
next
  case False
  show ?thesis unfolding send_ua_fails[OF False] by (intro exI[of _ "- 1"] exI[of _ "[]"]) simp
qed

lemma ua_repeat_effect:
  "\<exists>st'. ua_repeat env k a n st = (Ret OCF_SUCCESS, st') \<and> ua_count st' = ua_count st + k \<and> ioctls st' = ioctls st \<and>
    slept st' = slept st + k \<and> pid_part st' = pid_part st"
proof (induction k arbitrary: st)
  case (Suc k)
  obtain rc ads where "send_ua env a (Some n) st = (Ret rc, st\<lparr>ua_count := ua_count st + 1, adverts := adverts st @ ads\<rparr>)"
    using send_ua_effect by blast
  then show ?case
    using Suc[of "st\<lparr>ua_count := ua_count st + 1, adverts := adverts st @ ads, slept := slept st + 1\<rparr>"] by auto
qed simp

lemma status_iff:
  "status_addr6 env a p prov st = OCF_SUCCESS \<longleftrightarrow> get_if env a p prov st \<noteq> None"
  "status_addr6 env a p prov st = OCF_NOT_RUNNING \<longleftrightarrow> get_if env a p prov st = None"
  by (auto simp: status_addr6_def ocf_defs)

lemma assign_cases:
  assumes "assign_addr6 env a l n st = (r, st')"
  shows "(r = Fault \<and> length n \<ge> 16) \<or> (\<exists>rc. r = Ret rc \<and> rc \<noteq> 0 \<and> st' = st) \<or>
    (\<exists>ix. r = Ret 0 \<and> if_index env n = Some ix \<and> st' = st\<lparr>ioctls := ioctls st @ [Assign a l ix]\<rparr>)"
proof -
  have e: "r = fst (assign_addr6 env a l n st)" "st' = snd (assign_addr6 env a l n st)" using assms by simp_all
  show ?thesis unfolding e by (simp add: assign_addr6_def split: option.split)
qed

lemma unassign_cases:
  assumes "unassign_addr6 env a l n st = (r, st')"
  shows "(r = Fault \<and> length n \<ge> 16) \<or> (\<exists>rc. r = Ret rc \<and> rc \<noteq> 0 \<and> st' = st) \<or>
    (\<exists>ix. r = Ret 0 \<and> if_index env n = Some ix \<and> st' = st\<lparr>ioctls := ioctls st @ [Unassign a l ix]\<rparr>)"
proof -
  have e: "r = fst (unassign_addr6 env a l n st)" "st' = snd (unassign_addr6 env a l n st)" using assms by simp_all
  show ?thesis unfolding e by (simp add: unassign_addr6_def split: option.split)
qed

text \<open>The start action after a successful assignment.\<close>

lemma start_assigned:
  assumes "status_addr6 env a p prov st \<noteq> OCF_SUCCESS" and "find_if env a p prov st = Some (n, l)"
    and "assign_addr6 env a l n st = (Ret 0, st1)"
  shows "\<exists>st'. ioctls st' = ioctls st1 \<and>
    (if \<exists>i<5. answered env (pings st1 + i)
     then start_addr6 env a p prov st = (Ret OCF_SUCCESS, st') \<and> ua_count st' = ua_count st1 + 5
     else start_addr6 env a p prov st = (Ret OCF_ERR_GENERIC, st') \<and> ua_count st' = ua_count st1)"
proof -
  obtain ok st2 where q: "query_loop env QUERY_COUNT a st1 = (ok, st2)" by (cases "query_loop env QUERY_COUNT a st1") auto
  note e = query_loop_effect[OF q, unfolded QUERY_COUNT_def]
  obtain st3 where u: "ua_repeat env UA_REPEAT_COUNT a n st2 = (Ret OCF_SUCCESS, st3)" "ua_count st3 = ua_count st2 + 5" "ioctls st3 = ioctls st2"
    using ua_repeat_effect[of env UA_REPEAT_COUNT a n st2] by (auto simp: UA_REPEAT_COUNT_def)
  have s: "start_addr6 env a p prov st = (if ok then ua_repeat env UA_REPEAT_COUNT a n st2 else (Ret OCF_ERR_GENERIC, st2))"
    using assms q by (simp add: start_addr6_def)
  show ?thesis
  proof (cases ok)
    case True
    with e u s show ?thesis by (intro exI[of _ st3]) simp
  next
    case False
    with e s show ?thesis by (intro exI[of _ st2]) simp
  qed
qed

text \<open>
  C30. Every end of the start action, for every kernel and network: success without any change when the
  address is there already; success after exactly one assignment, of the prefix length of the network
  found, an answered echo request among at most five, and five calls that send an advertisement; the
  generic error with nothing changed, or with the address left assigned because no echo request was
  answered; or a write outside \<open>ifr_name\<close> by an interface name of 16 or more characters.
\<close>

theorem start_addr6_ends:
  assumes "start_addr6 env a p prov st = (r, st')"
  shows "(r = Ret OCF_SUCCESS \<and> st' = st \<and> get_if env a p prov st \<noteq> None) \<or>
    (\<exists>n l ix. get_if env a p prov st = None \<and> find_if env a p prov st = Some (n, l) \<and> if_index env n = Some ix \<and>
       ioctls st' = ioctls st @ [Assign a l ix] \<and>
       (if \<exists>i<5. answered env (pings st + i) then r = Ret OCF_SUCCESS \<and> ua_count st' = ua_count st + 5
        else r = Ret OCF_ERR_GENERIC \<and> ua_count st' = ua_count st)) \<or>
    (r = Ret OCF_ERR_GENERIC \<and> st' = st) \<or>
    (r = Fault \<and> (\<exists>n l. find_if env a p prov st = Some (n, l) \<and> 16 \<le> length n))"
proof (cases "get_if env a p prov st = None \<and> find_if env a p prov st \<noteq> None")
  case False
  with assms show ?thesis by (auto simp: start_addr6_def status_iff(1) split: option.splits if_splits)
next
  case True
  then obtain n l where f: "find_if env a p prov st = Some (n, l)" by auto
  have ns: "status_addr6 env a p prov st \<noteq> OCF_SUCCESS" using True by (simp add: status_iff(1))
  obtain ra st1 where g: "assign_addr6 env a l n st = (ra, st1)" by (cases "assign_addr6 env a l n st") auto
  from assign_cases[OF g] consider "ra = Fault" "16 \<le> length n" | rc where "ra = Ret rc" "rc \<noteq> 0" "st1 = st"
    | ix where "ra = Ret 0" "if_index env n = Some ix" "st1 = st\<lparr>ioctls := ioctls st @ [Assign a l ix]\<rparr>" by blast
  then show ?thesis
  proof cases
    case 1
    then show ?thesis using assms ns f g by (auto simp: start_addr6_def)
  next
    case 2
    then show ?thesis using assms ns f g by (auto simp: start_addr6_def)
  next
    case 3
    with start_assigned[OF ns f] g obtain s2 where
      "ioctls s2 = ioctls st1" "if \<exists>i<5. answered env (pings st1 + i)
       then start_addr6 env a p prov st = (Ret OCF_SUCCESS, s2) \<and> ua_count s2 = ua_count st1 + 5
       else start_addr6 env a p prov st = (Ret OCF_ERR_GENERIC, s2) \<and> ua_count s2 = ua_count st1" by blast
    with 3 assms True f show ?thesis
      by (intro disjI2 disjI1 exI[of _ n] exI[of _ l] exI[of _ ix]) (auto split: if_splits)
  qed
qed

lemma demo_table_text: "if_inet6 demo_ip6_env ios = Some (table_text (demo_table (rev ios)))"
  by (simp add: demo_ip6_env_def)

lemma demo_table_wf: "\<forall>e\<in>set (demo_table ios). wf_entry e"
proof (induction ios rule: demo_table.induct)
  case 1
  show ?case unfolding demo_table.simps by (rule demo_entries_wf)
next
  case (2 a l ix ios)
  then have "\<forall>e\<in>set (demo_table ios). wf_entry e" by blast
  then show ?case by (simp add: ball_Un)
next
  case (3 a l ix ios)
  then show ?case by (metis demo_table.simps(3) filter_is_subset subsetD)
qed

theorem start_addr6_ends_witness:
  "start_addr6 demo_ip6_env (map htonl [0x20010DB8, 0, 0, 1]) 0 None demo_ip6_state = (Ret OCF_SUCCESS, demo_ip6_state)"
proof -
  let ?a = "map htonl [0x20010DB8, 0, 0, 1]"
  have "scan_if_loop ?a 0 False None (table_text demo_entries) = Some (''eth0'', 64)"
    using scan_if_loop_table[OF demo_entries_wf, of ?a 0 False None]
    by (simp add: demo_entries_def entry_eligible_def entry_same_exact)
  then have g: "get_if demo_ip6_env ?a 0 None demo_ip6_state = Some (''eth0'', 64)"
    by (simp add: get_if_def scan_if_def demo_ip6_env_def demo_ip6_state_def)
  then have "fst (start_addr6 demo_ip6_env ?a 0 None demo_ip6_state) = Ret OCF_SUCCESS"
    by (simp add: start_addr6_def status_iff(1))
  then obtain st' where e: "start_addr6 demo_ip6_env ?a 0 None demo_ip6_state = (Ret OCF_SUCCESS, st')"
    by (metis prod.collapse)
  have "st' = demo_ip6_state" using start_addr6_ends[OF e] unfolding g by (simp add: ocf_defs)
  with e show ?thesis by simp
qed

text \<open>
  Every end of the stop action: success without any change when the search does not find the
  address, success after exactly one removal with the device and prefix length found in the table, the
  generic error with nothing changed, or a write outside \<open>ifr_name\<close>, for a name of 16 or more
  characters only.
\<close>

theorem stop_addr6_ends:
  assumes "stop_addr6 env a p prov st = (r, st')"
  shows "(r = Ret OCF_SUCCESS \<and> st' = st \<and> get_if env a p prov st = None) \<or>
    (\<exists>n l ix. r = Ret OCF_SUCCESS \<and> get_if env a p prov st = Some (n, l) \<and> if_index env n = Some ix \<and>
       st' = st\<lparr>ioctls := ioctls st @ [Unassign a l ix]\<rparr>) \<or>
    (r = Ret OCF_ERR_GENERIC \<and> st' = st \<and> get_if env a p prov st \<noteq> None) \<or>
    (r = Fault \<and> (\<exists>n l. get_if env a p prov st = Some (n, l) \<and> 16 \<le> length n))"
proof (cases "get_if env a p prov st")
  case None
  with assms show ?thesis by (simp add: stop_addr6_def status_iff(2))
next
  case (Some nl)
  obtain n l where nl: "nl = (n, l)" by (cases nl)
  have ns: "status_addr6 env a p prov st \<noteq> OCF_NOT_RUNNING" using Some by (simp add: status_iff(2))
  obtain ra st1 where g: "unassign_addr6 env a l n st = (ra, st1)" by (cases "unassign_addr6 env a l n st") auto
  from unassign_cases[OF g] consider "ra = Fault" "16 \<le> length n" | rc where "ra = Ret rc" "rc \<noteq> 0" "st1 = st"
    | ix where "ra = Ret 0" "if_index env n = Some ix" "st1 = st\<lparr>ioctls := ioctls st @ [Unassign a l ix]\<rparr>" by blast
  then show ?thesis
  proof cases
    case 1
    then show ?thesis using assms ns Some nl g by (auto simp: stop_addr6_def)
  next
    case 2
    then show ?thesis using assms ns Some nl g by (auto simp: stop_addr6_def)
  next
    case 3
    then have "stop_addr6 env a p prov st = (Ret OCF_SUCCESS, st1)" using ns Some nl g by (simp add: stop_addr6_def)
    then show ?thesis using assms Some nl 3 by simp
  qed
qed

theorem stop_addr6_ends_witness:
  "stop_addr6 (demo_ip6_env\<lparr>if_inet6 := \<lambda>_. None\<rparr>) [0, 0, 0, 0] 0 None demo_ip6_state = (Ret OCF_SUCCESS, demo_ip6_state)"
proof -
  let ?env = "demo_ip6_env\<lparr>if_inet6 := \<lambda>_. None\<rparr>"
  have g: "get_if ?env [0, 0, 0, 0] 0 None demo_ip6_state = None" by (simp add: get_if_def scan_if_def)
  then have "fst (stop_addr6 ?env [0, 0, 0, 0] 0 None demo_ip6_state) = Ret OCF_SUCCESS"
    by (simp add: stop_addr6_def status_iff(2))
  then obtain st' where e: "stop_addr6 ?env [0, 0, 0, 0] 0 None demo_ip6_state = (Ret OCF_SUCCESS, st')"
    by (metis prod.collapse)
  have "st' = demo_ip6_state" using stop_addr6_ends[OF e] unfolding g by (simp add: ocf_defs)
  with e show ?thesis by simp
qed

text \<open>
  A prefix length that differs from the one in the table hides the address: with such a parameter
  the status is \<open>OCF_NOT_RUNNING\<close>, and stop reports success and leaves the address in place.
\<close>

theorem stop_wrong_prefix:
  assumes "if_inet6 env (ioctls st) = Some (table_text es)" and "\<forall>e\<in>set es. wf_entry e" and "length a = 4" and "p \<noteq> 0"
    and "\<forall>e\<in>set es. map htonl (e_addr e) = a \<longrightarrow> e_plen e \<noteq> p"
  shows "status_addr6 env a p prov st = OCF_NOT_RUNNING \<and> stop_addr6 env a p prov st = (Ret OCF_SUCCESS, st)"
proof -
  have "find (\<lambda>e. entry_eligible p prov e \<and> entry_same a False e) es = None"
    using assms(2-5) by (auto simp: find_None_iff entry_eligible_def Let_def entry_same_exact wf_entry_def)
  then have "get_if env a p prov st = None"
    using scan_if_loop_table[OF assms(2), of a p False prov] assms(1) by (simp add: get_if_def scan_if_def)
  then show ?thesis by (simp add: stop_addr6_def status_iff(2))
qed

theorem stop_wrong_prefix_witness:
  "stop_addr6 demo_ip6_env (map htonl [0x20010DB8, 0, 0, 1]) 48 None demo_ip6_state = (Ret OCF_SUCCESS, demo_ip6_state)"
  using stop_wrong_prefix[OF demo_table_text demo_table_wf, of "map htonl [0x20010DB8, 0, 0, 1]" 48 demo_ip6_state None]
  by (simp add: demo_ip6_state_def demo_entries_def)

text \<open>
  What is used of the kernel, for a process that may change addresses.  The file lists the addresses in some order, each with
  the index of its interface.  A request to add a global address to an interface is granted when the interface does not have it
  (else \<open>EEXIST\<close>), and then the list has one more entry, with some flags; a request to remove an address of a given prefix length is granted when it is
  there (else \<open>EADDRNOTAVAIL\<close>), and then the list is without it.  Between the requests of this process nobody else changes the addresses.
\<close>

definition global_unicast :: "in6 \<Rightarrow> bool" where
  "global_unicast a \<longleftrightarrow> length a = 4 \<and> and (htonl (a ! 0)) 0xE0000000 = 0x20000000"

definition kernel_table :: "ip6_env \<Rightarrow> (ip6_ioctl list \<Rightarrow> if_entry list) \<Rightarrow> bool" where
  "kernel_table env tab \<longleftrightarrow>
     (\<forall>ios. if_inet6 env ios = Some (table_text (tab ios)) \<and>
        (\<forall>e\<in>set (tab ios). wf_entry e \<and> if_index env (e_dev e) = Some (e_index e))) \<and>
     (\<forall>ios a l n ix. if_index env n = Some ix \<and> global_unicast a \<and> wf_entry (addr_entry a l n ix 0) \<longrightarrow>
        (addr_ioctl_ok env ios (Assign a l ix) \<longleftrightarrow> \<not> (\<exists>e\<in>set (tab ios). has_addr a ix e)) \<and>
        (addr_ioctl_ok env ios (Assign a l ix) \<longrightarrow>
           (\<exists>f. set (tab (ios @ [Assign a l ix])) = insert (addr_entry a l n ix f) (set (tab ios)))) \<and>
        (addr_ioctl_ok env ios (Unassign a l ix) \<longleftrightarrow> (\<exists>e\<in>set (tab ios). has_addr a ix e \<and> e_plen e = l)) \<and>
        (addr_ioctl_ok env ios (Unassign a l ix) \<longrightarrow>
           set (tab (ios @ [Unassign a l ix])) = {e \<in> set (tab ios). \<not> (has_addr a ix e \<and> e_plen e = l)}))"

lemma kernel_get_if:
  assumes "kernel_table env tab" and "length a = 4"
  shows "get_if env a 0 None st =
    map_option (\<lambda>e. (e_dev e, e_plen e)) (find (\<lambda>e. e_scope e = 0 \<and> map htonl (e_addr e) = a) (tab (ioctls st)))"
proof -
  have t: "if_inet6 env (ioctls st) = Some (table_text (tab (ioctls st)))" "\<forall>e\<in>set (tab (ioctls st)). wf_entry e"
    using assms(1) by (auto simp: kernel_table_def)
  have "find (\<lambda>e. entry_eligible 0 None e \<and> entry_same a False e) (tab (ioctls st)) =
      find (\<lambda>e. e_scope e = 0 \<and> map htonl (e_addr e) = a) (tab (ioctls st))"
    using t(2) assms(2) by (intro find_cong) (auto simp: entry_eligible_def wf_entry_def entry_same_exact)
  then show ?thesis using t(1) scan_if_loop_table[OF t(2), of a 0 False None] by (simp add: get_if_def scan_if_def)
qed

lemma kernel_find_if:
  assumes "kernel_table env tab" and "length a = 4"
  shows "find_if env a 0 None st =
    map_option (\<lambda>e. (e_dev e, e_plen e))
      (find (\<lambda>e. e_scope e = 0 \<and> same_prefix (e_plen e) (map htonl (e_addr e)) a) (tab (ioctls st)))"
proof -
  have t: "if_inet6 env (ioctls st) = Some (table_text (tab (ioctls st)))" "\<forall>e\<in>set (tab (ioctls st)). wf_entry e"
    using assms(1) by (auto simp: kernel_table_def)
  have "find (\<lambda>e. entry_eligible 0 None e \<and> entry_same a True e) (tab (ioctls st)) =
      find (\<lambda>e. e_scope e = 0 \<and> same_prefix (e_plen e) (map htonl (e_addr e)) a) (tab (ioctls st))"
    using t(2) assms(2) by (intro find_cong) (auto simp: entry_eligible_def wf_entry_def entry_same_prefix)
  then show ?thesis
    using t(1) scan_if_loop_table[OF t(2), of a 0 True None] by (simp add: find_if_def scan_if_def split: option.split)
qed

text \<open>The first entry that fits does not depend on the order when only one entry fits.\<close>

lemma find_only: "x \<in> set xs \<Longrightarrow> P x \<Longrightarrow> \<forall>y\<in>set xs. P y \<longrightarrow> y = x \<Longrightarrow> find P xs = Some x"
proof (cases "find P xs")
  case None
  then show "x \<in> set xs \<Longrightarrow> P x \<Longrightarrow> find P xs = Some x" by (simp add: find_None_iff)
next
  case (Some y)
  then have "y \<in> set xs" "P y" by (auto simp: find_Some_iff)
  then show "\<forall>y\<in>set xs. P y \<longrightarrow> y = x \<Longrightarrow> find P xs = Some x" using Some by blast
qed

text \<open>
  C9. The life of an address on a kernel that keeps its table: a global address that is in no entry and
  lies in the network of an entry of an interface is assigned there by start with the prefix length of
  that network; the status is then success; stop removes it, the status is then
  \<open>OCF_NOT_RUNNING\<close>, and the table has the entries it had.  Where in the list the kernel puts the new entry, and with which
  flags, does not matter, nor does the number of digits of the interface index.
\<close>

theorem ip6_life_cycle:
  assumes "kernel_table env tab" and "global_unicast a" and "dgram_socket env"
    and "\<forall>e\<in>set (tab (ioctls st)). map htonl (e_addr e) \<noteq> a"
    and "find (\<lambda>e. e_scope e = 0 \<and> same_prefix (e_plen e) (map htonl (e_addr e)) a) (tab (ioctls st)) = Some net"
    and "answered env (pings st)"
  shows "\<exists>st1 st2 f. start_addr6 env a 0 None st = (Ret OCF_SUCCESS, st1) \<and>
    set (tab (ioctls st1)) = insert (addr_entry a (e_plen net) (e_dev net) (e_index net) f) (set (tab (ioctls st))) \<and>
    status_addr6 env a 0 None st1 = OCF_SUCCESS \<and> stop_addr6 env a 0 None st1 = (Ret OCF_SUCCESS, st2) \<and>
    status_addr6 env a 0 None st2 = OCF_NOT_RUNNING \<and> set (tab (ioctls st2)) = set (tab (ioctls st))"
proof -
  let ?ix = "e_index net" and ?l = "e_plen net" and ?n = "e_dev net" and ?T = "set (tab (ioctls st))"
  let ?P = "\<lambda>e. e_scope e = 0 \<and> map htonl (e_addr e) = a"
  have a4: "length a = 4" using assms(2) by (simp add: global_unicast_def)
  have "net \<in> ?T" using assms(5) by (auto simp: find_Some_iff)
  then have ix: "if_index env ?n = Some ?ix" and wn: "wf_entry net" using assms(1) by (auto simp: kernel_table_def)
  then have we: "wf_entry (addr_entry a ?l ?n ?ix 0)" using a4 by (simp add: wf_entry_def addr_entry_def)
  have k: "(addr_ioctl_ok env ios (Assign a ?l ?ix) \<longleftrightarrow> \<not> (\<exists>e\<in>set (tab ios). has_addr a ?ix e)) \<and>
      (addr_ioctl_ok env ios (Assign a ?l ?ix) \<longrightarrow>
        (\<exists>f. set (tab (ios @ [Assign a ?l ?ix])) = insert (addr_entry a ?l ?n ?ix f) (set (tab ios)))) \<and>
      (addr_ioctl_ok env ios (Unassign a ?l ?ix) \<longleftrightarrow> (\<exists>e\<in>set (tab ios). has_addr a ?ix e \<and> e_plen e = ?l)) \<and>
      (addr_ioctl_ok env ios (Unassign a ?l ?ix) \<longrightarrow>
        set (tab (ios @ [Unassign a ?l ?ix])) = {e \<in> set (tab ios). \<not> (has_addr a ?ix e \<and> e_plen e = ?l)})" for ios
    using assms(1,2) ix we unfolding kernel_table_def by blast
  have none: "find ?P (tab (ioctls st)) = None" using assms(4) by (auto simp: find_None_iff)
  have g0: "get_if env a 0 None st = None" using none by (simp add: kernel_get_if[OF assms(1) a4])
  have fi: "find_if env a 0 None st = Some (?n, ?l)" using assms(5) by (simp add: kernel_find_if[OF assms(1) a4])
  have ok: "addr_ioctl_ok env (ioctls st) (Assign a ?l ?ix)" using k[of "ioctls st"] assms(4) by (auto simp: has_addr_def)
  let ?s = "st\<lparr>ioctls := ioctls st @ [Assign a ?l ?ix]\<rparr>"
  have l16: "\<not> 16 \<le> length ?n" using wn by (simp add: wf_entry_def)
  have "assign_addr6 env a ?l ?n st = (Ret 0, ?s)" using assms(3) ix l16 ok by (simp add: assign_addr6_def)
  moreover have "status_addr6 env a 0 None st \<noteq> OCF_SUCCESS" using g0 by (simp add: status_iff(1))
  moreover have "\<exists>i<5. answered env (pings ?s + i)" using assms(6) by (intro exI[of _ 0]) simp
  ultimately obtain st1 where st1: "start_addr6 env a 0 None st = (Ret OCF_SUCCESS, st1)" "ioctls st1 = ioctls ?s"
    using start_assigned[OF _ fi] by meson
  obtain f where t1: "set (tab (ioctls st1)) = insert (addr_entry a ?l ?n ?ix f) ?T"
    using k[of "ioctls st"] ok st1(2) by auto
  have new: "map htonl (e_addr (addr_entry a ?l ?n ?ix f)) = a" "has_addr a ?ix (addr_entry a ?l ?n ?ix f)"
    by (simp_all add: addr_entry_def has_addr_def o_def)
  have "find ?P (tab (ioctls st1)) = Some (addr_entry a ?l ?n ?ix f)"
    by (rule find_only) (use t1 new assms(4) in \<open>auto simp: addr_entry_def\<close>)
  then have g1: "get_if env a 0 None st1 = Some (?n, ?l)" by (simp add: kernel_get_if[OF assms(1) a4] addr_entry_def)
  have ok1: "addr_ioctl_ok env (ioctls st1) (Unassign a ?l ?ix)"
    using k[of "ioctls st1"] t1 new(2) by (auto simp: addr_entry_def)
  let ?s2 = "st1\<lparr>ioctls := ioctls st1 @ [Unassign a ?l ?ix]\<rparr>"
  have "unassign_addr6 env a ?l ?n st1 = (Ret 0, ?s2)" using assms(3) ix l16 ok1 by (simp add: unassign_addr6_def)
  then have stop: "stop_addr6 env a 0 None st1 = (Ret OCF_SUCCESS, ?s2)" using g1 by (simp add: stop_addr6_def status_iff(2))
  have "set (tab (ioctls ?s2)) = {e \<in> insert (addr_entry a ?l ?n ?ix f) ?T. \<not> (has_addr a ?ix e \<and> e_plen e = ?l)}"
    using k[of "ioctls st1"] ok1 t1 by simp
  also have "\<dots> = ?T" using assms(4) new by (auto simp: has_addr_def addr_entry_def)
  finally have t2: "set (tab (ioctls ?s2)) = ?T" .
  then have "find ?P (tab (ioctls ?s2)) = None" using assms(4) by (auto simp: find_None_iff)
  then have "get_if env a 0 None ?s2 = None" by (simp add: kernel_get_if[OF assms(1) a4])
  then show ?thesis
    using st1(1) t1 t2 stop g1 by (intro exI[of _ st1] exI[of _ ?s2] exI[of _ f]) (simp add: status_iff)
qed

lemma demo_table_index: "\<forall>e\<in>set (demo_table ios). if_index demo_ip6_env (e_dev e) = Some (e_index e)"
proof (induction ios rule: demo_table.induct)
  case (2 a l ix ios)
  have "ix = 1 \<or> ix = 258 \<Longrightarrow> if_index demo_ip6_env (e_dev (addr_entry a l (demo_if ix) ix 128)) = Some (e_index (addr_entry a l (demo_if ix) ix 128))"
    by (auto simp: demo_ip6_env_def demo_if_def addr_entry_def)
  with 2 show ?case by simp
qed (simp_all add: demo_entries_def demo_ip6_env_def)

lemma demo_if_index: "if_index demo_ip6_env n = Some ix \<Longrightarrow> (ix = 1 \<or> ix = 258) \<and> n = demo_if ix"
  by (auto simp: demo_ip6_env_def demo_if_def split: if_splits)

lemma demo_kernel: "kernel_table demo_ip6_env (\<lambda>ios. demo_table (rev ios))"
  unfolding kernel_table_def
proof (intro conjI allI impI)
  fix ios
  show "if_inet6 demo_ip6_env ios = Some (table_text (demo_table (rev ios)))" by (rule demo_table_text)
  show "\<forall>e\<in>set (demo_table (rev ios)). wf_entry e \<and> if_index demo_ip6_env (e_dev e) = Some (e_index e)"
    using demo_table_wf demo_table_index by blast
next
  fix ios a l n ix
  assume as: "if_index demo_ip6_env n = Some ix \<and> global_unicast a \<and> wf_entry (addr_entry a l n ix 0)"
  note d = demo_if_index[OF conjunct1[OF as]]
  have w: "wf_entry (addr_entry a l (demo_if ix) ix 128)" using as d by (simp add: wf_entry_def addr_entry_def)
  have o: "addr_ioctl_ok demo_ip6_env = demo_grants" by (simp add: demo_ip6_env_def)
  show "addr_ioctl_ok demo_ip6_env ios (Assign a l ix) = (\<not> (\<exists>e\<in>set (demo_table (rev ios)). has_addr a ix e))"
    "addr_ioctl_ok demo_ip6_env ios (Unassign a l ix) = (\<exists>e\<in>set (demo_table (rev ios)). has_addr a ix e \<and> e_plen e = l)"
    by (simp_all add: o list_ex_iff)
  show "\<exists>f. set (demo_table (rev (ios @ [Assign a l ix]))) = insert (addr_entry a l n ix f) (set (demo_table (rev ios)))"
    using d w by (intro exI[of _ 128]) simp
  show "set (demo_table (rev (ios @ [Unassign a l ix]))) = {e \<in> set (demo_table (rev ios)). \<not> (has_addr a ix e \<and> e_plen e = l)}"
    by simp
qed

theorem ip6_life_cycle_witness:
  "\<exists>st1. start_addr6 demo_ip6_env (map htonl [0x20010DB8, 0, 0, 5]) 0 None demo_ip6_state = (Ret OCF_SUCCESS, st1) \<and>
    status_addr6 demo_ip6_env (map htonl [0x20010DB8, 0, 0, 5]) 0 None st1 = OCF_SUCCESS"
proof -
  let ?a = "map htonl [0x20010DB8, 0, 0, 5]"
  let ?e = "\<lparr>e_addr = [0x20010DB8, 0, 0, 1], e_index = 258, e_plen = 64, e_scope = 0, e_flags = 0x80, e_dev = ''eth0''\<rparr>"
  have "addr_bit (map htonl [0x20010DB8, 0, 0, 1]) k = addr_bit ?a k" if "k < 64" for k
  proof -
    have "k div 32 = 0 \<or> k div 32 = 1" using that by (simp add: div_eq_0_iff) (auto simp: div_if)
    then show ?thesis by (auto simp: addr_bit_def)
  qed
  then have "same_prefix 64 (map htonl [0x20010DB8, 0, 0, 1]) ?a" by (simp add: same_prefix_def)
  then have f: "find (\<lambda>e. e_scope e = 0 \<and> same_prefix (e_plen e) (map htonl (e_addr e)) ?a) demo_entries = Some ?e"
    by (simp add: demo_entries_def)
  have "global_unicast ?a" by (simp add: global_unicast_def)
  moreover have "\<forall>e\<in>set demo_entries. map htonl (e_addr e) \<noteq> ?a" by (simp add: demo_entries_def)
  moreover have "answered demo_ip6_env 0" by (simp add: answered_def demo_ip6_env_def numeral_3_eq_3)
  ultimately show ?thesis
    using ip6_life_cycle[OF demo_kernel, of ?a demo_ip6_state ?e] f
    by (auto simp: demo_ip6_state_def demo_ip6_env_def)
qed

text \<open>
  The monitor action looks at no byte of what it receives: any message on the socket within three
  polls, from whatever address, makes it report success, also when the address is on no interface.
\<close>

theorem monitor_accepts_any_message:
  assumes "ping_socket (ping_runs env (pings st))" and "0 < ping_sendto (ping_runs env (pings st))"
    and "ping_events (ping_runs env (pings st)) = quiet @ Received msg # es" and "length quiet < 3"
    and "\<forall>q\<in>set quiet. q = No_Event \<or> q = Try_Again" and "msg \<noteq> []"
  shows "fst (monitor_addr6 env a st) = OCF_SUCCESS"
proof -
  have "ping_loop n (quiet @ Received msg # es) = 0" if "length quiet < n" for n
    using that assms(5,6)
  proof (induction quiet arbitrary: n)
    case Nil
    then show ?case by (cases n) auto
  next
    case (Cons q quiet)
    then show ?case by (cases n) auto
  qed
  then show ?thesis using assms by (simp add: monitor_addr6_def is_addr6_available_def Let_def)
qed

theorem monitor_accepts_any_message_witness:
  "fst (monitor_addr6 (demo_ip6_env\<lparr>ping_runs := \<lambda>_. \<lparr>ping_socket = True, ping_sendto = 64,
     ping_events = [No_Event, Received [1]]\<rparr>\<rparr>) [0, 0, 0, 0] demo_ip6_state) = OCF_SUCCESS"
  by (rule monitor_accepts_any_message[where quiet = "[No_Event]" and msg = "[1]" and es = "[]"])
    simp_all

lemma inet_pton6_all_nodes: "inet_pton6 BCAST_ADDR = Some ([0xFF, 2] @ replicate 13 0 @ [1])"
proof -
  have "hex_num ''ff02'' = 65282" "hex_num ''1'' = 1" by (simp_all add: hex_num_def hex_val_def)
  then have b: "group_bytes ''ff02'' = [0xFF, 2]" "group_bytes ''1'' = [0, 1]" by (simp_all add: group_bytes_def)
  have "hex_group ''ff02''" "hex_group ''1''" by (simp_all add: hex_group_def hex_val_def)
  with inet_pton6_compressed[of "[''ff02'']" "[''1'']"] show ?thesis
    by (simp add: BCAST_ADDR_def b) (simp add: replicate_append_same flip: replicate_Suc)
qed

text \<open>
  A neighbour, after RFC 4861: section 7.1.2 lists the checks on an advertisement received (hop limit 255, code 0, at least 24 bytes,
  a target that is no multicast address, no solicited flag when it was sent to a multicast address, no option of
  length 0); an advertisement that passes gives the target, the link-layer address of its option of type 2 and the override
  flag.
\<close>

fun nd_options :: "byte list \<Rightarrow> (byte \<times> byte list) list option" where
  "nd_options [] = Some []"
| "nd_options [t] = None"
| "nd_options (t # l # r) =
     (if l = 0 \<or> length r < 8 * unat l - 2 then None
      else map_option (Cons (t, take (8 * unat l - 2) r)) (nd_options (drop (8 * unat l - 2) r)))"

definition na_accept :: "nat \<Rightarrow> byte list \<Rightarrow> byte list \<Rightarrow> (byte list \<times> byte list option \<times> bool) option" where
  "na_accept hops dest p =
     (if hops \<noteq> 255 \<or> length p < 24 \<or> p ! 0 \<noteq> 136 \<or> p ! 1 \<noteq> 0 \<or> p ! 8 = 0xFF \<or> (hd dest = 0xFF \<and> bit (p ! 4) 6) then None
      else map_option (\<lambda>os. (take 16 (drop 8 p), map_of os 2, bit (p ! 4) 5)) (nd_options (drop 24 p)))"

text \<open>
  C39. Every neighbour accepts the advertisements and learns the address from them.  When each call before \<open>sendto\<close>
  succeeds, \<open>send_ua\<close> hands one message to it, on a socket bound to the address, on the interface named and for the all-nodes address
  \<open>ff02::1\<close>; a neighbour that receives it accepts it after RFC 4861 and gets the address as the target, the hardware address of the
  interface as its link-layer address, and the override flag; the status is 0 exactly when all 32 bytes were sent.  When one
  of these calls fails nothing is sent and the status is -1.
\<close>

theorem send_ua_message:
  assumes "length a = 4" and "hd (in6_bytes a) \<noteq> 0xFF" and "\<forall>hw. ua_hwaddr (ua_answers env (ua_count st)) = Some hw \<longrightarrow> 6 \<le> length hw"
  shows "if ua_ready (ua_answers env (ua_count st))
    then \<exists>hw ad dest. ua_hwaddr (ua_answers env (ua_count st)) = Some hw \<and> adverts (snd (send_ua env a (Some n) st)) = adverts st @ [ad] \<and>
      ad_dest ad = Some dest \<and> dest = [0xFF, 2] @ replicate 13 0 @ [1] \<and>
      us_ifindex (ad_socket ad) = if_nametoindex env n \<and> (\<exists>scope. us_source (ad_socket ad) = Some (a, scope)) \<and>
      na_accept (us_hops (ad_socket ad)) dest (ad_payload ad) = Some (in6_bytes a, Some (take 6 hw), True) \<and>
      fst (send_ua env a (Some n) st) = Ret (if ua_sendto (ua_answers env (ua_count st)) = 32 then 0 else - 1)
    else adverts (snd (send_ua env a (Some n) st)) = adverts st \<and> fst (send_ua env a (Some n) st) = Ret (- 1)"
proof (cases "ua_ready (ua_answers env (ua_count st))")
  case False
  then show ?thesis by (simp add: send_ua_fails)
next
  case True
  then obtain hw ad where d: "ua_hwaddr (ua_answers env (ua_count st)) = Some hw"
    "send_ua env a (Some n) st =
       (Ret (if ua_sendto (ua_answers env (ua_count st)) = int (length (ad_payload ad)) then 0 else - 1),
        st\<lparr>ua_count := ua_count st + 1, adverts := adverts st @ [ad]\<rparr>)"
    "ad_payload ad = ua_payload a hw" "ad_dest ad = inet_pton6 BCAST_ADDR" "us_hops (ad_socket ad) = 255"
    "us_ifindex (ad_socket ad) = if_nametoindex env n" "\<exists>scope. us_source (ad_socket ad) = Some (a, scope)"
    by (rule send_ua_sends)
  have l16: "length (in6_bytes a) = 16" using assms(1) by (auto simp: in6_bytes_def mem32_def length_concat o_def sum_list_triv)
  have hw6: "length (take 6 hw) = 6" using assms(3) d(1) by simp
  have p: "ua_payload a hw = [136, 0, 0, 0, 0x20, 0, 0, 0] @ in6_bytes a @ [2, 1] @ take 6 hw"
    by (simp add: ua_payload_def HWADDR_LEN_def)
  have l: "length (ua_payload a hw) = 32" unfolding p using l16 hw6 by simp
  have "ua_payload a hw ! 8 = hd (in6_bytes a)" unfolding p using l16 by (cases "in6_bytes a") (auto simp: nth_append)
  moreover have "ua_payload a hw ! 0 = 136" "ua_payload a hw ! 1 = 0" "ua_payload a hw ! 4 = 0x20" unfolding p by simp_all
  moreover have "drop 24 (ua_payload a hw) = 2 # 1 # take 6 hw" "take 16 (drop 8 (ua_payload a hw)) = in6_bytes a"
    unfolding p using l16 by simp_all
  moreover have "nd_options (2 # 1 # take 6 hw) = Some [(2, take 6 hw)]" using hw6 by simp
  moreover have "\<not> bit (0x20 :: byte) 6" "bit (0x20 :: byte) 5" by (simp_all add: bit_numeral_rec)
  ultimately have na: "na_accept 255 dest (ua_payload a hw) = Some (in6_bytes a, Some (take 6 hw), True)" for dest
    unfolding na_accept_def using assms(2) l by simp
  show ?thesis using True d l na by (auto simp: inet_pton6_all_nodes)
qed

theorem send_ua_message_witness:
  "\<exists>ad. adverts (snd (send_ua demo_ip6_env (map htonl [0x20010DB8, 0, 0, 5]) (Some ''eth0'') demo_ip6_state)) = [ad] \<and>
    na_accept (us_hops (ad_socket ad)) (the (ad_dest ad)) (ad_payload ad) =
      Some (in6_bytes (map htonl [0x20010DB8, 0, 0, 5]), Some [2, 0, 0, 0, 0, 1], True)"
proof -
  have "hd (in6_bytes (map htonl [0x20010DB8, 0, 0, 5])) \<noteq> 0xFF" by code_simp
  from send_ua_message[OF _ this, of demo_ip6_env demo_ip6_state "''eth0''"] show ?thesis
    by (auto simp: demo_ip6_env_def demo_ip6_state_def ua_ready_def)
qed

end
