(* ===== verification/Send_Ua.thy ===== *)
theory Send_Ua
  imports IPv6addr
begin

text \<open>
  The program \<^verbatim>\<open>src/heartbeat/send_ua.c\<close>, which sends unsolicited neighbour advertisements for an
  address: options, arguments and the sending loop.  The advertisement itself is \<open>send_ua\<close> of
  \<^verbatim>\<open>IPv6addr_utils.c\<close>.
\<close>

text \<open>The options; \<open>None\<close>: the program ends with the usage message.\<close>

fun ua_options :: "(char \<times> string) list \<Rightarrow> int \<times> int \<Rightarrow> (int \<times> int) option" where
  "ua_options [] ci = Some ci"
| "ua_options ((ch, optarg) # es) (cnt, interval) =
     (if ch = CHR ''c'' then ua_options es (atoi optarg, interval)
      else if ch = CHR ''i'' then ua_options es (cnt, atoi optarg)
      else None)"

text \<open>The loop, with the arguments of \<open>usleep\<close> in the order of the calls.\<close>

fun ua_loop ::
  "ip6_env \<Rightarrow> nat \<Rightarrow> int \<Rightarrow> in6 \<Rightarrow> string option \<Rightarrow> ip6_state \<times> 32 word list \<Rightarrow> int result \<times> ip6_state \<times> 32 word list" where
  "ua_loop env 0 interval addr6 name (st, us) = (Ret OCF_SUCCESS, st, us)"
| "ua_loop env (Suc k) interval addr6 name (st, us) =
     (case send_ua env addr6 name st of
        (Fault, st') \<Rightarrow> (Fault, st', us)
      | (_, st') \<Rightarrow> ua_loop env k interval addr6 name (st', us @ [word_of_int (interval * 1000)]))"

text \<open>
  The main program on the arguments after the program name.  With a single operand the interface is
  read from behind the end of the argument vector; with two it is the null pointer at its end.
\<close>

definition send_ua_main :: "ip6_env \<Rightarrow> string list \<Rightarrow> ip6_state \<Rightarrow> int result \<times> ip6_state \<times> 32 word list" where
  "send_ua_main env args st =
     (if length args < 3 then (Ret OCF_ERR_ARGS, st, [])
      else case getopt_all ''h?c:i:'' args of (es, ops) \<Rightarrow>
        case ua_options es (int UA_REPEAT_COUNT, 1000) of
          None \<Rightarrow> (Ret OCF_ERR_ARGS, st, [])
        | Some (cnt, interval) \<Rightarrow>
            if \<not> sigaction_works env then (Ret OCF_ERR_GENERIC, st, [])
            else case ops of
              [] \<Rightarrow> (Ret OCF_ERR_ARGS, st, [])
            | ipv6addr # rest \<Rightarrow>
                if rest = [] then (Fault, st, [])
                else case inet_pton6 (takeWhile (\<lambda>c. c \<noteq> CHR ''/'') ipv6addr) of
                  None \<Rightarrow> (Ret OCF_ERR_ARGS, st, [])
                | Some bytes \<Rightarrow>
                    if \<not> if_inet6_access env then (Ret OCF_ERR_GENERIC, st, [])
                    else ua_loop env (nat cnt) interval (in6_of_bytes bytes)
                           (case rest of _ # n # _ \<Rightarrow> Some n | _ \<Rightarrow> None) (st, []))"

section \<open>Properties\<close>

lemma ua_loop_runs:
  "\<exists>st'. ua_loop env k i a (Some n) (st, us) = (Ret OCF_SUCCESS, st', us @ replicate k (word_of_int (i * 1000))) \<and>
    ua_count st' = ua_count st + k"
proof (induction k arbitrary: st us)
  case (Suc k)
  obtain rc ads where "send_ua env a (Some n) st = (Ret rc, st\<lparr>ua_count := ua_count st + 1, adverts := adverts st @ ads\<rparr>)"
    using send_ua_effect by blast
  then show ?case
    using Suc[of "st\<lparr>ua_count := ua_count st + 1, adverts := adverts st @ ads\<rparr>" "us @ [word_of_int (i * 1000)]"] by auto
qed simp

text \<open>
  The program with a count and an interval: \<open>send_ua -c n -i m address prefix interface\<close> makes exactly
  \<open>n\<close> calls that send an advertisement, each followed by a pause of \<open>m\<close> milliseconds, and exits with
  success, whatever the status of the calls.
\<close>

theorem send_ua_count:
  assumes "inet_pton6 addr = Some bytes" and "CHR ''/'' \<notin> set addr" and "addr \<noteq> []" and "hd addr \<noteq> CHR ''-''"
    and "prefix \<noteq> []" and "hd prefix \<noteq> CHR ''-''" and "nic \<noteq> []" and "hd nic \<noteq> CHR ''-''"
    and "sigaction_works env" and "if_inet6_access env" and "int n \<le> INT_MAX" and "int m * 1000 \<le> INT_MAX"
  shows "\<exists>st' us. send_ua_main env [''-c'', show_nat n, ''-i'', show_nat m, addr, prefix, nic] st = (Ret OCF_SUCCESS, st', us) \<and>
    ua_count st' = ua_count st + n \<and> map unat us = replicate n (m * 1000)"
proof -
  have "getopt_all ''h?c:i:'' [addr, prefix, nic] = ([], [addr, prefix, nic])"
    using assms(3-8) by (simp add: getopt_operands del: getopt_all.simps(2))
  then have g: "getopt_all ''h?c:i:'' [''-c'', show_nat n, ''-i'', show_nat m, addr, prefix, nic] =
      ([(CHR ''c'', show_nat n), (CHR ''i'', show_nat m)], [addr, prefix, nic])"
    by (simp del: getopt_all.simps(2) add: getopt_all.simps(2)[of _ "''-c''"] getopt_all.simps(2)[of _ "''-i''"])
  have i: "atoi (show_nat k) = int k" if "int k \<le> INT_MAX" for k
    using atoi_show_int[of "int k"] that by (simp add: show_int_def)
  have m: "int m \<le> INT_MAX" using assms(12) by simp
  have t: "takeWhile (\<lambda>c. c \<noteq> CHR ''/'') addr = addr" using assms(2) by (auto simp: takeWhile_eq_all_conv)
  have "send_ua_main env [''-c'', show_nat n, ''-i'', show_nat m, addr, prefix, nic] st =
      ua_loop env n (int m) (in6_of_bytes bytes) (Some nic) (st, [])"
    unfolding send_ua_main_def g using assms(1,9-11) m by (simp add: i t)
  moreover have "unat (word_of_int (int m * 1000) :: 32 word) = m * 1000"
  proof -
    have "(word_of_int (int m * 1000) :: 32 word) = of_nat (m * 1000)" by simp
    moreover have "m * 1000 < 2 ^ LENGTH(32)" using assms(12) by (simp add: INT_MAX_def)
    ultimately show ?thesis by (simp only: unat_of_nat mod_less)
  qed
  ultimately show ?thesis
    using ua_loop_runs[of env n "int m" "in6_of_bytes bytes" nic st "[]"] by auto
qed

lemma demo_addr6: "inet_pton6 ''2001::5'' = Some (group_bytes ''2001'' @ replicate 12 0 @ group_bytes ''5'')"
  using inet_pton6_compressed[of "[''2001'']" "[''5'']"] by (simp add: hex_group_def hex_val_def)

theorem send_ua_count_witness:
  "\<exists>st' us. send_ua_main demo_ip6_env [''-c'', show_nat 3, ''-i'', show_nat 200, ''2001::5'', ''64'', ''eth0''] demo_ip6_state =
     (Ret OCF_SUCCESS, st', us) \<and> ua_count st' = 3"
  using send_ua_count[OF demo_addr6, of "''64''" "''eth0''" demo_ip6_env 3 200 demo_ip6_state]
  by (auto simp: demo_ip6_env_def demo_ip6_state_def INT_MAX_def)

text \<open>
  The form of the options shown by the usage message, with an equals sign, switches the program off:
  \<open>send_ua -c=d address prefix interface\<close> sends nothing and exits with success.
\<close>

theorem send_ua_equals_sign:
  assumes "inet_pton6 addr = Some bytes" and "CHR ''/'' \<notin> set addr" and "addr \<noteq> []" and "hd addr \<noteq> CHR ''-''"
    and "prefix \<noteq> []" and "hd prefix \<noteq> CHR ''-''" and "nic \<noteq> []" and "hd nic \<noteq> CHR ''-''"
    and "sigaction_works env" and "if_inet6_access env"
  shows "send_ua_main env [''-c='' @ d, addr, prefix, nic] st = (Ret OCF_SUCCESS, st, [])"
proof -
  have "getopt_all ''h?c:i:'' [addr, prefix, nic] = ([], [addr, prefix, nic])"
    using assms(3-8) by (simp add: getopt_operands del: getopt_all.simps(2))
  then have g: "getopt_all ''h?c:i:'' [''-c='' @ d, addr, prefix, nic] = ([(CHR ''c'', CHR ''='' # d)], [addr, prefix, nic])"
    by (simp del: getopt_all.simps(2) add: getopt_all.simps(2)[of _ "CHR ''-'' # CHR ''c'' # CHR ''='' # d"])
  have z: "atoi (CHR ''='' # d) = 0"
    by (simp add: atoi_def strtol10_def scan_dec_def cstr_Cons isspace_def is_digit_def dec_val_def LONG_MAX_def)
  have t: "takeWhile (\<lambda>c. c \<noteq> CHR ''/'') addr = addr" using assms(2) by (auto simp: takeWhile_eq_all_conv)
  show ?thesis unfolding send_ua_main_def g using assms(1,9,10) by (simp add: z t)
qed

theorem send_ua_equals_sign_witness:
  "send_ua_main demo_ip6_env [''-c=5'', ''2001::5'', ''64'', ''eth0''] demo_ip6_state = (Ret OCF_SUCCESS, demo_ip6_state, [])"
  using send_ua_equals_sign[OF demo_addr6, of "''64''" "''eth0''" demo_ip6_env "''5''" demo_ip6_state]
  by (simp add: demo_ip6_env_def)

end
