(* ===== verification/Send_Arp.thy ===== *)
theory Send_Arp
  imports Inet
begin

text \<open>
  The ARP tool \<^verbatim>\<open>src/tools/send_arp.linux.c\<close>, built with \<open>getifaddrs\<close> and without libcap, libsysfs and
  libidn: the choice of the device, the packets, the timer and packet handlers, and the main program.
  The global variables are the record \<open>arp\<close>.  After the set-up the program is a state machine driven by
  the alarm, received packets and SIGINT, modelled by \<open>arp_event\<close> and \<open>arp_run\<close>.  Times are in
  microseconds.  What is printed on the standard output is left out.
\<close>

section \<open>Constants and state\<close>

definition ARPHRD_ETHER :: nat where "ARPHRD_ETHER = 1"
definition ARPHRD_FDDI :: nat where "ARPHRD_FDDI = 774"
definition ETH_P_IP :: nat where "ETH_P_IP = 0x0800"
definition ARPOP_REQUEST :: nat where "ARPOP_REQUEST = 1"
definition ARPOP_REPLY :: nat where "ARPOP_REPLY = 2"
definition PACKET_HOST :: nat where "PACKET_HOST = 0"
definition PACKET_BROADCAST :: nat where "PACKET_BROADCAST = 1"
definition PACKET_MULTICAST :: nat where "PACKET_MULTICAST = 2"

lemmas arp_consts = ARPHRD_ETHER_def ARPHRD_FDDI_def ETH_P_IP_def ARPOP_REQUEST_def ARPOP_REPLY_def
  PACKET_HOST_def PACKET_BROADCAST_def PACKET_MULTICAST_def

text \<open>The members of \<open>sockaddr_ll\<close> that matter; the address has \<open>sll_halen\<close> bytes.\<close>

record sockaddr_ll =
  sll_hatype :: nat
  sll_halen :: nat
  sll_addr :: "byte list"

text \<open>An entry of \<open>getifaddrs\<close>; \<open>ifa_link\<close> is the length of its link-layer address, if it has one.\<close>

record ifaddr =
  ifa_name :: string
  ifa_link :: "nat option"
  ifa_flags :: nat
  ifa_broadaddr :: "byte list option"

record arp =
  quit_on_reply :: bool
  dev_name :: "string option"
  dev_ifindex :: nat
  dev_ifa :: "ifaddr option"
  dev_ifa_freed :: bool
  arp_source :: "string option"
  arp_target :: string
  arp_src :: "32 word"
  arp_dst :: "32 word"
  dad :: nat
  unsolicited :: nat
  arp_advert :: nat
  arp_quiet :: nat
  arp_count :: int
  arp_timeout :: int
  unicasting :: bool
  broadcast_only :: bool
  me :: sockaddr_ll
  he :: sockaddr_ll
  start_time :: int
  last_time :: int
  sent_pkts :: nat
  brd_sent :: nat
  received :: nat
  brd_recv :: nat
  req_recv :: nat
  arp_wire :: "byte list list"

definition tv_sec :: "int \<Rightarrow> int" where "tv_sec t = t div 1000000"

section \<open>Sending\<close>

definition be16 :: "nat \<Rightarrow> byte list" where
  "be16 n = mem16 (htons (of_nat n))"

text \<open>The packet \<open>send_pack\<close> builds.\<close>

definition arp_packet :: "arp \<Rightarrow> byte list" where
  "arp_packet st =
     (let hln = sll_halen (me st);
          hrd = (if sll_hatype (me st) = ARPHRD_FDDI then ARPHRD_ETHER else sll_hatype (me st))
      in be16 hrd @ be16 ETH_P_IP @ [of_nat hln, 4] @ be16 (if arp_advert st \<noteq> 0 then ARPOP_REPLY else ARPOP_REQUEST) @
         take hln (sll_addr (me st)) @ mem32 (arp_src st) @
         take hln (if arp_advert st \<noteq> 0 then sll_addr (me st) else sll_addr (he st)) @ mem32 (arp_dst st))"

text \<open>\<open>send_pack\<close> at a time and with the result of \<open>sendto\<close>; the packet is put together in 256 bytes.\<close>

definition send_pack :: "int \<Rightarrow> int \<Rightarrow> arp \<Rightarrow> unit result \<times> arp" where
  "send_pack now err st =
     (if 8 + 2 * (sll_halen (me st) + 4) > 256 then (Fault, st)
      else let st1 = st\<lparr>arp_wire := arp_wire st @ [arp_packet st]\<rparr>
           in (Ret (), if err = int (length (arp_packet st))
                       then st1\<lparr>last_time := now, sent_pkts := sent_pkts st + 1,
                                brd_sent := (if unicasting st then brd_sent st else brd_sent st + 1)\<rparr>
                       else st1))"

text \<open>The exit code of \<open>finish\<close>.\<close>

definition finish :: "arp \<Rightarrow> int" where
  "finish st =
     (if dad st \<noteq> 0 then (if received st \<noteq> 0 then 1 else 0)
      else if unsolicited st \<noteq> 0 then 0
      else if received st = 0 then 1 else 0)"

text \<open>\<open>catcher\<close> at a time \<open>tv\<close>; \<open>now\<close> and \<open>err\<close> are those of \<open>send_pack\<close>.\<close>

definition catcher :: "int \<Rightarrow> int \<Rightarrow> int \<Rightarrow> arp \<Rightarrow> unit result \<times> arp" where
  "catcher tv now err st0 =
     (let st1 = (if tv_sec (start_time st0) = 0 then st0\<lparr>start_time := tv\<rparr> else st0);
          st2 = st1\<lparr>arp_count := arp_count st1 - 1\<rparr>
      in if arp_count st1 = 0 \<or> (arp_timeout st1 \<noteq> 0 \<and> tv - start_time st1 > arp_timeout st1 * 1000000 + 500000)
         then (Exit (finish st2), st2)
         else if tv_sec (last_time st2) = 0 \<or> tv - last_time st2 > 500000 then
           and_then (send_pack now err)
             (\<lambda>_ st3. if arp_count st3 = 0 \<and> unsolicited st3 \<noteq> 0 then (Exit (finish st3), st3) else (Ret (), st3)) st2
         else (Ret (), st2))"

section \<open>Receiving\<close>

text \<open>The fields of a received packet: \<open>buf\<close> is the buffer of 4096 bytes.\<close>

definition rd16 :: "nat \<Rightarrow> byte list \<Rightarrow> nat" where
  "rd16 i buf = unat (htons (load16 (buf ! i) (buf ! (i + 1))))"

definition rd32 :: "nat \<Rightarrow> byte list \<Rightarrow> 32 word" where
  "rd32 i buf = load32 (buf ! i) (buf ! (i + 1)) (buf ! (i + 2)) (buf ! (i + 3))"

definition rdn :: "nat \<Rightarrow> nat \<Rightarrow> byte list \<Rightarrow> byte list" where
  "rdn i n buf = take n (drop i buf)"

text \<open>The filters of \<open>recv_pack\<close>; \<open>pkttype\<close> and \<open>hatype\<close> are those of the sender's address.\<close>

definition arp_accepts :: "arp \<Rightarrow> byte list \<Rightarrow> nat \<Rightarrow> nat \<Rightarrow> nat \<Rightarrow> bool" where
  "arp_accepts st buf len pkttype hatype =
     (let hln = unat (buf ! 4);
          src_ip = rd32 (8 + hln) buf; dst_ip = rd32 (8 + hln + 4 + hln) buf
      in (pkttype = PACKET_HOST \<or> pkttype = PACKET_BROADCAST \<or> pkttype = PACKET_MULTICAST) \<and>
         (rd16 6 buf = ARPOP_REQUEST \<or> rd16 6 buf = ARPOP_REPLY) \<and>
         (rd16 0 buf = hatype \<or> (hatype = ARPHRD_FDDI \<and> rd16 0 buf = ARPHRD_ETHER)) \<and>
         rd16 2 buf = ETH_P_IP \<and> unat (buf ! 5) = 4 \<and> hln = sll_halen (me st) \<and> 8 + 2 * (4 + hln) \<le> len \<and>
         (if dad st = 0 then
            src_ip = arp_dst st \<and> arp_src st = dst_ip \<and> rdn (8 + hln + 4) hln buf = take hln (sll_addr (me st))
          else
            src_ip = arp_dst st \<and> rdn 8 hln buf \<noteq> take hln (sll_addr (me st)) \<and>
            (arp_src st = 0 \<or> arp_src st = dst_ip)))"

definition recv_pack :: "byte list \<Rightarrow> nat \<Rightarrow> nat \<Rightarrow> nat \<Rightarrow> arp \<Rightarrow> unit result \<times> arp" where
  "recv_pack buf len pkttype hatype st =
     (if \<not> arp_accepts st buf len pkttype hatype then (Ret (), st)
      else let st1 = st\<lparr>received := received st + 1,
                        brd_recv := (if pkttype \<noteq> PACKET_HOST then brd_recv st + 1 else brd_recv st),
                        req_recv := (if rd16 6 buf = ARPOP_REQUEST then req_recv st + 1 else req_recv st)\<rparr>
           in if quit_on_reply st1 \<or> (arp_count st1 = 0 \<and> received st1 = sent_pkts st1) then (Exit (finish st1), st1)
              else if broadcast_only st1 then (Ret (), st1)
              else (Ret (), st1\<lparr>he := (he st1)\<lparr>sll_addr := rdn 8 (sll_halen (me st1)) buf @ drop (sll_halen (me st1)) (sll_addr (he st1))\<rparr>,
                               unicasting := True\<rparr>))"

section \<open>The device\<close>

definition IFF_UP :: nat where "IFF_UP = 1"
definition IFF_NOARP :: nat where "IFF_NOARP = 0x80"

definition check_ifflags :: "arp \<Rightarrow> nat \<Rightarrow> bool \<Rightarrow> int result" where
  "check_ifflags st ifflags fatal =
     (if and ifflags IFF_UP = 0 then (if fatal then Exit 2 else Ret (- 1))
      else if and ifflags (or IFF_NOARP 8) \<noteq> 0 then (if fatal then Exit (if dad st \<noteq> 0 then 0 else 2) else Ret (- 1))
      else Ret 0)"

text \<open>The loop over the addresses: the last suitable one and how many were met, two at most.\<close>

fun ifa_loop :: "arp \<Rightarrow> ifaddr list \<Rightarrow> ifaddr option \<times> nat \<Rightarrow> (ifaddr option \<times> nat) result" where
  "ifa_loop st [] acc = Ret acc"
| "ifa_loop st (ifa # ifas) (found, cnt) =
     (case ifa_link ifa of
        None \<Rightarrow> ifa_loop st ifas (found, cnt)
      | Some halen \<Rightarrow>
          if dev_name st \<noteq> None \<and> dev_name st \<noteq> Some (ifa_name ifa) then ifa_loop st ifas (found, cnt)
          else case check_ifflags st (ifa_flags ifa) (dev_name st \<noteq> None) of
            Exit e \<Rightarrow> Exit e
          | Fault \<Rightarrow> Fault
          | Ret rc \<Rightarrow>
              if rc < 0 \<or> halen = 0 \<or> ifa_broadaddr ifa = None then ifa_loop st ifas (found, cnt)
              else if cnt \<noteq> 0 then Ret (Some ifa, cnt + 1)
              else ifa_loop st ifas (Some ifa, cnt + 1))"

record arp_env =
  raw_socket :: bool
  getifaddrs :: "ifaddr list option"
  arp_if_index :: "string \<Rightarrow> nat"
  inet_socket :: bool
  dev_flags :: "string \<Rightarrow> nat option"
  dev_index :: "string \<Rightarrow> nat option"
  ifconf :: "string list option"
  hostbyname :: "string \<Rightarrow> 32 word option"
  probe_socket :: bool
  probe_bind :: bool
  probe_connect :: bool
  probe_name :: "32 word option"
  arp_bind :: bool
  arp_sockname :: "sockaddr_ll option"
  drop_ok :: bool

definition find_device_by_ifaddrs :: "arp_env \<Rightarrow> arp \<Rightarrow> int result \<times> arp" where
  "find_device_by_ifaddrs env st =
     (case getifaddrs env of
        None \<Rightarrow> (Ret (- 1), st)
      | Some ifas \<Rightarrow>
          (case ifa_loop st ifas (dev_ifa st, 0) of
             Exit e \<Rightarrow> (Exit e, st)
           | Fault \<Rightarrow> (Fault, st)
           | Ret (found, cnt) \<Rightarrow>
               let st1 = st\<lparr>dev_ifa := found\<rparr> in
               (case found of
                  Some ifa \<Rightarrow>
                    if cnt = 1 then
                      (let ix = arp_if_index env (ifa_name ifa) in
                       if ix = 0 then (Ret (- 1), st1\<lparr>dev_ifindex := 0, dev_ifa_freed := True\<rparr>)
                       else (Ret 0, st1\<lparr>dev_ifindex := ix, dev_name := Some (ifa_name ifa)\<rparr>))
                    else (Ret 1, st1)
                | None \<Rightarrow> (Ret 1, st1))))"

text \<open>Without libsysfs there is nothing to ask.\<close>

definition find_device_by_sysfs :: "arp \<Rightarrow> int result \<times> arp" where
  "find_device_by_sysfs st = (Ret (- 1), st)"

text \<open>
  The code of the check and the index stored in the request: the flags and the index share their place in
  the request, so the flags overwrite the lower half of an index that is there already.
\<close>

definition check_device_by_ioctl :: "arp_env \<Rightarrow> arp \<Rightarrow> string \<Rightarrow> nat \<Rightarrow> (int \<times> nat) result" where
  "check_device_by_ioctl env st name ix =
     (case dev_flags env name of
        None \<Rightarrow> Ret (- 1, ix)
      | Some f \<Rightarrow>
          (case check_ifflags st f (dev_name st \<noteq> None) of
             Exit e \<Rightarrow> Exit e
           | Fault \<Rightarrow> Fault
           | Ret rc \<Rightarrow>
               let ix1 = ix div 65536 * 65536 + f mod 65536 in
               if rc < 0 then Ret (1, ix1)
               else (case dev_index env name of None \<Rightarrow> Ret (- 1, ix1) | Some ix2 \<Rightarrow> Ret (0, ix2))))"

text \<open>
  The loop over the interfaces when no name is given: the request is checked before the name of the
  interface is copied into it.  The state is the name in the request, its index and the number found.
\<close>

fun ioctl_loop :: "arp_env \<Rightarrow> arp \<Rightarrow> string list \<Rightarrow> string \<times> nat \<times> nat \<Rightarrow> (string \<times> nat \<times> nat) result" where
  "ioctl_loop env st [] r = Ret r"
| "ioctl_loop env st (n # ns) (req, ix, cnt) =
     (case check_device_by_ioctl env st req ix of
        Exit e \<Rightarrow> Exit e
      | Fault \<Rightarrow> Fault
      | Ret (rc, ix') \<Rightarrow>
          if rc \<noteq> 0 then ioctl_loop env st ns (req, ix', cnt)
          else if cnt \<noteq> 0 then Ret (n, ix', cnt + 1)
          else ioctl_loop env st ns (n, ix', cnt + 1))"

definition find_device_by_ioctl :: "arp_env \<Rightarrow> arp \<Rightarrow> int result \<times> arp" where
  "find_device_by_ioctl env st =
     (if \<not> inet_socket env then (Ret (- 1), st)
      else case dev_name st of
        Some name \<Rightarrow>
          (case check_device_by_ioctl env st (take 15 name) 0 of
             Exit e \<Rightarrow> (Exit e, st)
           | Fault \<Rightarrow> (Fault, st)
           | Ret (rc, ix) \<Rightarrow>
               if rc \<noteq> 0 then (Ret (- 1), st)
               else (Ret (if ix = 0 then 1 else 0), st\<lparr>dev_ifindex := ix, dev_name := Some (take 15 name)\<rparr>))
      | None \<Rightarrow>
          (case ifconf env of
             None \<Rightarrow> (Ret (- 1), st)
           | Some names \<Rightarrow>
               (case ioctl_loop env st names ([], 0, 0) of
                  Exit e \<Rightarrow> (Exit e, st)
                | Fault \<Rightarrow> (Fault, st)
                | Ret (name, ix, cnt) \<Rightarrow>
                    let st1 = (if cnt = 1 then st\<lparr>dev_ifindex := ix, dev_name := Some name\<rparr> else st)
                    in (Ret (if dev_ifindex st1 = 0 then 1 else 0), st1))))"

definition find_device :: "arp_env \<Rightarrow> arp \<Rightarrow> int result \<times> arp" where
  "find_device env =
     and_then (find_device_by_ifaddrs env) (\<lambda>rc. if rc \<ge> 0 then Pair (Ret rc)
       else and_then find_device_by_sysfs (\<lambda>rc. if rc \<ge> 0 then Pair (Ret rc) else find_device_by_ioctl env))"

text \<open>The broadcast address: the one of the device if the lengths agree, else all ones.\<close>

definition set_device_broadcast :: "arp \<Rightarrow> nat \<Rightarrow> byte list result" where
  "set_device_broadcast st balen =
     (case dev_ifa st of
        None \<Rightarrow> Ret (replicate balen 0xFF)
      | Some ifa \<Rightarrow>
          if dev_ifa_freed st then Fault
          else case ifa_broadaddr ifa of
            Some ba \<Rightarrow> Ret (if length ba = balen then ba else replicate balen 0xFF)
          | None \<Rightarrow> Fault)"

section \<open>The main program\<close>

definition no_sll :: sockaddr_ll where
  "no_sll = \<lparr>sll_hatype = 0, sll_halen = 0, sll_addr = []\<rparr>"

definition arp_init :: arp where
  "arp_init = \<lparr>quit_on_reply = False, dev_name = Some ''eth0'', dev_ifindex = 0, dev_ifa = None, dev_ifa_freed = False,
     arp_source = None, arp_target = [], arp_src = 0, arp_dst = 0, dad = 0, unsolicited = 0, arp_advert = 0,
     arp_quiet = 0, arp_count = - 1, arp_timeout = 0, unicasting = False, broadcast_only = False, me = no_sll,
     he = no_sll, start_time = 0, last_time = 0, sent_pkts = 0, brd_sent = 0, received = 0, brd_recv = 0,
     req_recv = 0, arp_wire = []\<rparr>"

text \<open>The options; the flag is \<open>hb_mode\<close>.\<close>

definition arp_option :: "char \<Rightarrow> string \<Rightarrow> bool \<Rightarrow> arp \<Rightarrow> (bool \<times> arp) result" where
  "arp_option ch optarg hb st =
     (if ch = CHR ''b'' then Ret (hb, st\<lparr>broadcast_only := True\<rparr>)
      else if ch = CHR ''D'' then Ret (hb, st\<lparr>dad := dad st + 1, quit_on_reply := True\<rparr>)
      else if ch = CHR ''U'' then Ret (hb, st\<lparr>unsolicited := unsolicited st + 1\<rparr>)
      else if ch = CHR ''A'' then Ret (hb, st\<lparr>arp_advert := arp_advert st + 1, unsolicited := unsolicited st + 1\<rparr>)
      else if ch = CHR ''q'' then Ret (hb, st\<lparr>arp_quiet := arp_quiet st + 1\<rparr>)
      else if ch = CHR ''r'' then Ret (True, st\<lparr>arp_count := atoi optarg\<rparr>)
      else if ch = CHR ''c'' then Ret (hb, st\<lparr>arp_count := atoi optarg\<rparr>)
      else if ch = CHR ''w'' then Ret (hb, st\<lparr>arp_timeout := atoi optarg\<rparr>)
      else if ch = CHR ''I'' then Ret (hb, st\<lparr>dev_name := Some optarg\<rparr>)
      else if ch = CHR ''f'' then Ret (hb, st\<lparr>quit_on_reply := True\<rparr>)
      else if ch = CHR ''s'' then Ret (hb, st\<lparr>arp_source := Some optarg\<rparr>)
      else if ch = CHR ''V'' then Exit 0
      else if ch = CHR ''p'' \<or> ch = CHR ''i'' then Ret (True, st)
      else Exit 2)"

fun arp_options :: "(char \<times> string) list \<Rightarrow> bool \<Rightarrow> arp \<Rightarrow> (bool \<times> arp) result" where
  "arp_options [] hb st = Ret (hb, st)"
| "arp_options ((ch, optarg) # es) hb st =
     (case arp_option ch optarg hb st of
        Ret r \<Rightarrow> arp_options es (fst r) (snd r)
      | Exit e \<Rightarrow> Exit e
      | Fault \<Rightarrow> Fault)"

text \<open>The operands: those of the libnet version in the compatibility mode, else the target.\<close>

definition arp_operands :: "bool \<Rightarrow> string list \<Rightarrow> arp \<Rightarrow> unit result \<times> arp" where
  "arp_operands hb ops st =
     (if hb then
        (case ops of
           [dev, ip, mac, _, _] \<Rightarrow>
             (if mac \<noteq> ''auto'' then Exit 0 else Ret (), st\<lparr>unsolicited := 1, dev_name := Some dev, arp_target := ip\<rparr>)
         | _ \<Rightarrow> (Exit 2, st))
      else (case ops of [ip] \<Rightarrow> (Ret (), st\<lparr>arp_target := ip\<rparr>) | _ \<Rightarrow> (Exit 2, st)))"

text \<open>The device: an empty name stands for none.\<close>

definition arp_device :: "arp_env \<Rightarrow> arp \<Rightarrow> unit result \<times> arp" where
  "arp_device env st0 =
     (let st = (if dev_name st0 = Some [] then st0\<lparr>dev_name := None\<rparr> else st0)
      in if \<not> raw_socket env then (Exit 2, st)
         else and_then (find_device env)
           (\<lambda>rc st1. if rc < 0 \<or> dev_ifindex st1 = 0 then (Exit 2, st1) else (Ret (), st1)) st)"

text \<open>The addresses of the target and of the source.\<close>

definition arp_addresses :: "arp_env \<Rightarrow> arp \<Rightarrow> unit result \<times> arp" where
  "arp_addresses env st0 =
     (case (case inet_aton (arp_target st0) of None \<Rightarrow> hostbyname env (arp_target st0) | Some a \<Rightarrow> Some a) of
        None \<Rightarrow> (Exit 2, st0)
      | Some a \<Rightarrow>
          let st1 = st0\<lparr>arp_dst := a\<rparr> in
          (case (case arp_source st1 of None \<Rightarrow> Some (arp_src st1) | Some t \<Rightarrow> inet_aton t) of
             None \<Rightarrow> (Exit 2, st1)
           | Some b \<Rightarrow>
               let st2 = st1\<lparr>arp_src := (if dad st1 = 0 \<and> unsolicited st1 \<noteq> 0 \<and> b = 0 then a else b)\<rparr>
               in (Ret (), st2)))"

text \<open>The source address by a socket that is bound or connected.\<close>

definition arp_probe :: "arp_env \<Rightarrow> arp \<Rightarrow> unit result \<times> arp" where
  "arp_probe env st =
     (if dad st \<noteq> 0 \<and> arp_src st = 0 then (Ret (), st)
      else if \<not> probe_socket env then (Exit 2, st)
      else if arp_src st \<noteq> 0 then (if probe_bind env then Ret () else Exit 2, st)
      else if \<not> probe_connect env then (Exit 2, st)
      else case probe_name env of None \<Rightarrow> (Exit 2, st) | Some a \<Rightarrow> (Ret (), st\<lparr>arp_src := a\<rparr>))"

text \<open>The link-layer addresses of the interface and of the destination.\<close>

definition arp_link :: "arp_env \<Rightarrow> arp \<Rightarrow> unit result \<times> arp" where
  "arp_link env st =
     (if \<not> arp_bind env then (Exit 2, st)
      else case arp_sockname env of
        None \<Rightarrow> (Exit 2, st)
      | Some sll \<Rightarrow>
          if sll_halen sll = 0 then (Exit (if dad st \<noteq> 0 then 0 else 2), st\<lparr>me := sll\<rparr>)
          else case set_device_broadcast st (sll_halen sll) of
            Exit e \<Rightarrow> (Exit e, st\<lparr>me := sll\<rparr>)
          | Fault \<Rightarrow> (Fault, st\<lparr>me := sll\<rparr>)
          | Ret ba \<Rightarrow>
              let st1 = st\<lparr>me := sll, he := sll\<lparr>sll_addr := ba @ drop (sll_halen sll) (sll_addr sll)\<rparr>\<rparr>
              in if arp_src st1 = 0 \<and> dad st1 = 0 then (Exit 2, st1)
                 else if \<not> drop_ok env then (Exit (- 1), st1)
                 else (Ret (), st1))"

text \<open>Everything before the first call of \<open>catcher\<close>.\<close>

definition arp_setup :: "arp_env \<Rightarrow> string list \<Rightarrow> unit result \<times> arp" where
  "arp_setup env args =
     (case getopt_all ''h?bfDUAqc:w:s:I:Vr:i:p:'' args of (es, ops) \<Rightarrow>
        case arp_options es False arp_init of
          Exit e \<Rightarrow> (Exit e, arp_init)
        | Fault \<Rightarrow> (Fault, arp_init)
        | Ret (hb, st) \<Rightarrow>
            and_then (arp_operands hb ops) (\<lambda>_. and_then (arp_device env) (\<lambda>_. and_then (arp_addresses env)
              (\<lambda>_. and_then (arp_probe env) (\<lambda>_. arp_link env)))) st)"

text \<open>
  What drives the program afterwards: the alarm, with the times and the result of \<open>catcher\<close>, a received
  packet, which SIGALRM and SIGINT do not interrupt, and SIGINT.  A run that ends with \<open>Ret ()\<close> goes on.
\<close>

datatype arp_event = Alarm int int int | Packet "byte list" nat nat nat | Sigint

fun arp_step :: "arp_event \<Rightarrow> arp \<Rightarrow> unit result \<times> arp" where
  "arp_step (Alarm tv now err) st = catcher tv now err st"
| "arp_step (Packet buf len pkttype hatype) st = recv_pack buf len pkttype hatype st"
| "arp_step Sigint st = (Exit (finish st), st)"

fun arp_run :: "arp_event list \<Rightarrow> arp \<Rightarrow> unit result \<times> arp" where
  "arp_run [] st = (Ret (), st)"
| "arp_run (e # es) st = and_then (arp_step e) (\<lambda>_. arp_run es) st"

text \<open>The program: the set-up, the first call of \<open>catcher\<close>, then the events.\<close>

definition arp_main :: "arp_env \<Rightarrow> string list \<Rightarrow> int \<times> int \<times> int \<Rightarrow> arp_event list \<Rightarrow> unit result \<times> arp" where
  "arp_main env args first evs =
     (case first of (tv, now, err) \<Rightarrow>
        case arp_setup env args of
          (Ret _, st) \<Rightarrow> and_then (catcher tv now err) (\<lambda>_. arp_run evs) st
        | (Exit e, st) \<Rightarrow> (Exit e, st)
        | (Fault, st) \<Rightarrow> (Fault, st))"

section \<open>ARP frames\<close>

text \<open>The reference: an ARP frame for IPv4 as RFC 826 has it, from its hardware type, operation, and the
  hardware and protocol addresses of the sender and of the target.\<close>

definition arp_frame :: "nat \<Rightarrow> nat \<Rightarrow> byte list \<Rightarrow> 32 word \<Rightarrow> byte list \<Rightarrow> 32 word \<Rightarrow> byte list" where
  "arp_frame hrd op shw sip thw tip =
     be16 hrd @ be16 ETH_P_IP @ [of_nat (length shw), 4] @ be16 op @ shw @ mem32 sip @ thw @ mem32 tip"

lemma length_be16 [simp]: "length (be16 n) = 2"
  by (simp add: be16_def)

lemma rd16_append: "rd16 (length p) (p @ be16 n @ q) = n mod 65536"
proof -
  obtain a b where ab: "mem16 (htons (of_nat n)) = [a, b]" by (simp add: mem16_def)
  have "load16 a b = htons (of_nat n)" using ab by (rule load16_mem16)
  then show ?thesis by (simp add: rd16_def be16_def ab nth_append unat_of_nat)
qed

lemma rd32_append: "rd32 (length p) (p @ mem32 w @ q) = w"
proof -
  obtain a b c d where e: "mem32 w = [a, b, c, d]" by (simp add: mem32_def)
  show ?thesis using load32_mem32[OF e] by (simp add: rd32_def e nth_append)
qed

lemma rdn_append: "rdn (length p) (length x) (p @ x @ q) = x"
  by (simp add: rdn_def)

lemma rd16_at: "i = length p \<Longrightarrow> n < 65536 \<Longrightarrow> buf = p @ be16 n @ q \<Longrightarrow> rd16 i buf = n"
  by (simp add: rd16_append)

lemma rd32_at: "i = length p \<Longrightarrow> buf = p @ mem32 w @ q \<Longrightarrow> rd32 i buf = w"
  by (simp add: rd32_append)

lemma rdn_at: "i = length p \<Longrightarrow> n = length x \<Longrightarrow> buf = p @ x @ q \<Longrightarrow> rdn i n buf = x"
  by (simp add: rdn_append)
lemma unat_byte: "n < 256 \<Longrightarrow> unat (of_nat n :: byte) = n"
  by (simp add: unat_of_nat)

lemma frame_reads:
  assumes "length thw = length shw" and "length shw < 256" and "hrd < 65536" and "op < 65536"
    and buf: "buf = arp_frame hrd op shw sip thw tip @ pad"
  shows "rd16 0 buf = hrd" "rd16 2 buf = ETH_P_IP" "unat (buf ! 4) = length shw" "unat (buf ! 5) = 4" "rd16 6 buf = op"
    "rdn 8 (length shw) buf = shw" "rd32 (8 + length shw) buf = sip"
    "rdn (8 + length shw + 4) (length shw) buf = thw" "rd32 (8 + length shw + 4 + length shw) buf = tip"
proof -
  let ?h = "be16 hrd @ be16 ETH_P_IP" and ?l = "[of_nat (length shw), 4 :: byte]"
  show "rd16 0 buf = hrd" by (rule rd16_at[where p = "[]"]) (use assms in \<open>simp_all add: arp_frame_def\<close>)
  show "rd16 2 buf = ETH_P_IP"
    by (rule rd16_at[where p = "be16 hrd"]) (use assms in \<open>simp_all add: arp_frame_def ETH_P_IP_def\<close>)
  have b: "buf = ?h @ ?l @ (be16 op @ shw @ mem32 sip @ thw @ mem32 tip @ pad)" using buf by (simp add: arp_frame_def)
  show "unat (buf ! 4) = length shw" "unat (buf ! 5) = 4"
    using assms(2) unfolding b by (simp_all add: nth_append unat_byte)
  show "rd16 6 buf = op"
    by (rule rd16_at[where p = "?h @ ?l"]) (use assms in \<open>simp_all add: arp_frame_def\<close>)
  show "rdn 8 (length shw) buf = shw"
    by (rule rdn_at[where p = "?h @ ?l @ be16 op"]) (use assms in \<open>simp_all add: arp_frame_def\<close>)
  show "rd32 (8 + length shw) buf = sip"
    by (rule rd32_at[where p = "?h @ ?l @ be16 op @ shw"]) (use assms in \<open>simp_all add: arp_frame_def\<close>)
  show "rdn (8 + length shw + 4) (length shw) buf = thw"
    by (rule rdn_at[where p = "?h @ ?l @ be16 op @ shw @ mem32 sip"]) (use assms in \<open>simp_all add: arp_frame_def\<close>)
  show "rd32 (8 + length shw + 4 + length shw) buf = tip"
    by (rule rd32_at[where p = "?h @ ?l @ be16 op @ shw @ mem32 sip @ thw" and q = pad])
      (use assms in \<open>simp_all add: arp_frame_def\<close>)
qed

lemma take2_drop: "i + 1 < length buf \<Longrightarrow> take 2 (drop i buf) = [buf ! i, buf ! (i + 1)]"
  by (simp add: Cons_nth_drop_Suc[symmetric] numeral_2_eq_2)

lemma be16_rd16: "i + 1 < length buf \<Longrightarrow> be16 (rd16 i buf) = take 2 (drop i buf)"
  by (simp add: take2_drop be16_def rd16_def mem16_load16)

lemma mem32_rd32: "i + 3 < length buf \<Longrightarrow> mem32 (rd32 i buf) = take 4 (drop i buf)"
  by (simp add: rd32_def mem32_load32 Cons_nth_drop_Suc[symmetric] eval_nat_numeral)

lemma rd16_less: "rd16 i buf < 65536"
  using unsigned_less[of "htons (load16 (buf ! i) (buf ! (i + 1)))", where ?'a = nat] by (simp add: rd16_def)

lemma frame_parse:
  fixes buf :: "byte list"
  defines "h \<equiv> unat (buf ! 4)"
  assumes "8 + 2 * (h + 4) \<le> length buf" and "rd16 2 buf = ETH_P_IP" and "unat (buf ! 5) = 4"
  shows "buf = arp_frame (rd16 0 buf) (rd16 6 buf) (rdn 8 h buf) (rd32 (8 + h) buf) (rdn (8 + h + 4) h buf)
      (rd32 (8 + h + 4 + h) buf) @ drop (8 + 2 * (h + 4)) buf"
proof -
  have f: "[of_nat (length (rdn 8 h buf)), 4] = take 2 (drop 4 buf)"
  proof -
    have "length (rdn 8 h buf) = h" using assms(2) by (simp add: rdn_def)
    moreover have "buf ! 5 = of_nat 4" using assms(4) by (metis of_nat_unat ucast_id)
    moreover have "buf ! 4 = of_nat h" unfolding h_def by simp
    ultimately show ?thesis using assms(2) by (simp add: take2_drop)
  qed
  let ?n = "2 + (2 + (2 + (2 + (h + (4 + (h + 4))))))"
  have "take 2 buf @ take 2 (drop 2 buf) @ take 2 (drop 4 buf) @ take 2 (drop 6 buf) @ take h (drop 8 buf) @
      take 4 (drop (8 + h) buf) @ take h (drop (8 + h + 4) buf) @ take 4 (drop (8 + h + 4 + h) buf) = take ?n buf"
    by (simp only: take_add drop_drop append_assoc) (simp add: add.commute)
  moreover have "?n = 8 + 2 * (h + 4)" by simp
  ultimately have "arp_frame (rd16 0 buf) (rd16 6 buf) (rdn 8 h buf) (rd32 (8 + h) buf) (rdn (8 + h + 4) h buf)
      (rd32 (8 + h + 4 + h) buf) = take (8 + 2 * (h + 4)) buf"
    unfolding arp_frame_def f assms(3)[symmetric] using assms(2) by (simp add: be16_rd16 mem32_rd32 rdn_def)
  then show ?thesis by simp
qed

text \<open>
  The frames the program waits for, in terms of their contents: those that speak for the target address and,
  when probing, answer the program's own interface, or, when detecting duplicates, come from other hardware.
\<close>

definition awaited :: "arp \<Rightarrow> byte list \<Rightarrow> 32 word \<Rightarrow> byte list \<Rightarrow> 32 word \<Rightarrow> bool" where
  "awaited st shw sip thw tip =
     (sip = arp_dst st \<and>
      (if dad st = 0 then arp_src st = tip \<and> thw = take (sll_halen (me st)) (sll_addr (me st))
       else shw \<noteq> take (sll_halen (me st)) (sll_addr (me st)) \<and> (arp_src st = 0 \<or> arp_src st = tip)))"

definition plausible :: "nat \<Rightarrow> nat \<Rightarrow> nat \<Rightarrow> nat \<Rightarrow> bool" where
  "plausible hrd op pkttype hatype =
     (pkttype \<in> {PACKET_HOST, PACKET_BROADCAST, PACKET_MULTICAST} \<and> op \<in> {ARPOP_REQUEST, ARPOP_REPLY} \<and>
      (hrd = hatype \<or> (hatype = ARPHRD_FDDI \<and> hrd = ARPHRD_ETHER)))"

lemma plausible_bounds: "plausible hrd op pkttype hatype \<Longrightarrow> hatype < 65536 \<Longrightarrow> hrd < 65536 \<and> op < 65536"
  by (auto simp: plausible_def arp_consts)

lemma arp_accepts_frame:
  assumes "length shw = sll_halen (me st)" and "length thw = sll_halen (me st)" and "sll_halen (me st) < 256"
    and "hrd < 65536" and "op < 65536"
  shows "arp_accepts st (arp_frame hrd op shw sip thw tip @ pad) len pkttype hatype \<longleftrightarrow>
    plausible hrd op pkttype hatype \<and> 8 + 2 * (4 + sll_halen (me st)) \<le> len \<and> awaited st shw sip thw tip"
proof -
  define buf where "buf = arp_frame hrd op shw sip thw tip @ pad"
  have c: "length thw = length shw" "length shw < 256" using assms by simp_all
  note r = frame_reads[OF c assms(4,5) buf_def, unfolded assms(1)]
  show ?thesis unfolding buf_def[symmetric] arp_accepts_def awaited_def plausible_def Let_def r
    by (cases "dad st = 0") (simp_all only: insert_iff empty_iff simp_thms if_True if_False conj_ac)
qed

lemma arp_filter_char:
  assumes "length buf = 4096" and "sll_halen (me st) < 256" and "hatype < 65536"
  shows "arp_accepts st buf len pkttype hatype \<longleftrightarrow>
    (\<exists>hrd op shw sip thw tip pad. buf = arp_frame hrd op shw sip thw tip @ pad \<and>
       length shw = sll_halen (me st) \<and> length thw = sll_halen (me st) \<and> 8 + 2 * (4 + sll_halen (me st)) \<le> len \<and>
       plausible hrd op pkttype hatype \<and> awaited st shw sip thw tip)" (is "?l \<longleftrightarrow> ?r")
proof
  assume ?r
  then obtain hrd op shw sip thw tip pad where f: "buf = arp_frame hrd op shw sip thw tip @ pad"
    and n: "length shw = sll_halen (me st)" "length thw = sll_halen (me st)"
    and rest: "8 + 2 * (4 + sll_halen (me st)) \<le> len" "plausible hrd op pkttype hatype" "awaited st shw sip thw tip"
    by blast
  have "hrd < 65536" "op < 65536" using plausible_bounds[OF rest(2) assms(3)] by simp_all
  from arp_accepts_frame[OF n assms(2) this] rest show ?l unfolding f by simp
next
  assume l: ?l
  let ?h = "unat (buf ! 4)"
  have b: "rd16 2 buf = ETH_P_IP" "unat (buf ! 5) = 4" "?h = sll_halen (me st)"
    using l by (simp_all add: arp_accepts_def Let_def)
  have n: "8 + 2 * (?h + 4) \<le> length buf" using assms b by simp
  note e = frame_parse[OF n b(1,2)]
  have len: "length (rdn 8 ?h buf) = sll_halen (me st)" "length (rdn (8 + ?h + 4) ?h buf) = sll_halen (me st)"
    using n b(3) by (simp_all add: rdn_def)
  obtain hrd op shw sip thw tip pad where f: "buf = arp_frame hrd op shw sip thw tip @ pad"
    and m: "length shw = sll_halen (me st)" "length thw = sll_halen (me st)" and w: "hrd < 65536" "op < 65536"
    using e len rd16_less by blast
  from l[unfolded f arp_accepts_frame[OF m assms(2) w]] m show ?r unfolding f by blast
qed

text \<open>
  C21. The receive filter is exact: \<open>recv_pack\<close> counts a buffer if and only if it holds a complete ARP
  frame for IPv4 that is plausible for the link it came from and that the program waits for: in probe mode
  an answer of the target to this interface, in duplicate address detection a frame in which another
  hardware address claims the tested address.
\<close>

theorem arp_filter_exact:
  assumes "length buf = 4096" and "sll_halen (me st) < 256" and "hatype < 65536"
  shows "arp_accepts st buf len pkttype hatype \<longleftrightarrow>
    (\<exists>hrd op shw sip thw tip pad. buf = arp_frame hrd op shw sip thw tip @ pad \<and>
       length shw = sll_halen (me st) \<and> length thw = sll_halen (me st) \<and> 8 + 2 * (4 + sll_halen (me st)) \<le> len \<and>
       plausible hrd op pkttype hatype \<and> awaited st shw sip thw tip)"
  using assms by (rule arp_filter_char)

definition demo_tester :: arp where
  "demo_tester = arp_init\<lparr>dad := 1, quit_on_reply := True, arp_dst := 5, me := \<lparr>sll_hatype = 1, sll_halen = 6, sll_addr = replicate 8 1\<rparr>\<rparr>"

theorem arp_filter_exact_witness:
  "arp_accepts demo_tester (arp_frame 1 2 (replicate 6 7) 5 (replicate 6 0) 9 @ replicate 4068 0) 28 0 1"
proof -
  let ?buf = "arp_frame 1 2 (replicate 6 7) 5 (replicate 6 0) 9 @ replicate 4068 0"
  have b: "length ?buf = 4096" by (simp add: arp_frame_def)
  have h: "sll_halen (me demo_tester) = 6" by (simp add: demo_tester_def)
  have "plausible 1 2 0 1" by (simp add: plausible_def arp_consts)
  moreover have "awaited demo_tester (replicate 6 7) 5 (replicate 6 0) 9"
    by (simp add: awaited_def demo_tester_def arp_init_def replicate_eq_replicate)
  ultimately have "\<exists>hrd op shw sip thw tip pad. ?buf = arp_frame hrd op shw sip thw tip @ pad \<and>
       length shw = 6 \<and> length thw = 6 \<and> 8 + 2 * (4 + 6) \<le> (28::nat) \<and> plausible hrd op 0 1 \<and> awaited demo_tester shw sip thw tip"
    using length_replicate by (intro exI conjI) (rule refl | simp | assumption)+
  then show ?thesis using arp_filter_exact[of ?buf demo_tester 1 28 0] b h by simp
qed

text \<open>
  The search for a device by \<open>ioctl\<close> finds none when no name is given: the loop checks the request before
  it copies the name of the interface into it, so it asks for the empty name each time, which is no
  interface.
\<close>

theorem ioctl_search_finds_none:
  assumes "dev_name st = None" and "dev_flags env [] = None" and "inet_socket env" and "ifconf env = Some names"
  shows "find_device_by_ioctl env st = (Ret (if dev_ifindex st = 0 then 1 else 0), st)"
proof -
  have "ioctl_loop env st names ([], 0, 0) = Ret ([], 0, 0)"
    by (induction names) (simp_all add: check_device_by_ioctl_def assms(2))
  then show ?thesis using assms by (simp add: find_device_by_ioctl_def)
qed

theorem ioctl_search_finds_none_witness:
  "find_device_by_ioctl \<lparr>raw_socket = True, getifaddrs = None, arp_if_index = (\<lambda>_. 0), inet_socket = True,
       dev_flags = (\<lambda>n. if n = ''eth0'' then Some 3 else None), dev_index = (\<lambda>n. if n = ''eth0'' then Some 2 else None),
       ifconf = Some [''eth0''], hostbyname = (\<lambda>_. None), probe_socket = True, probe_bind = True, probe_connect = True,
       probe_name = None, arp_bind = True, arp_sockname = None, drop_ok = True\<rparr> (arp_init\<lparr>dev_name := None\<rparr>) =
     (Ret 1, arp_init\<lparr>dev_name := None\<rparr>)"
  by (subst ioctl_search_finds_none) (simp_all add: arp_init_def)

end
