(* ===== verification/Send_Arp_Run.thy ===== *)
theory Send_Arp_Run
  imports Send_Arp
begin

text \<open>
  The behaviour of \<^verbatim>\<open>src/tools/send_arp.linux.c\<close> once it runs: the invariant of the counters over the step
  relation \<open>arp_trans\<close>, the set-up on a working interface, the announcement of an address
  (\<open>gratuitous_announcement\<close>), duplicate address detection against its specification \<open>dad_spec\<close>, and the
  two together on two hosts.
\<close>


section \<open>The state machine\<close>

inductive arp_trans :: "arp \<Rightarrow> arp \<Rightarrow> bool" where
  "arp_step e st = (Ret (), st') \<Longrightarrow> arp_trans st st'"

text \<open>The invariant of a program that has not ended.\<close>

definition running :: "arp \<Rightarrow> bool" where
  "running st \<longleftrightarrow> brd_sent st \<le> sent_pkts st \<and> sent_pkts st \<le> length (arp_wire st) \<and> brd_recv st \<le> received st \<and>
     req_recv st \<le> received st \<and> (unicasting st \<longrightarrow> 0 < received st) \<and> (dad st \<noteq> 0 \<longrightarrow> quit_on_reply st) \<and>
     (quit_on_reply st \<longrightarrow> received st = 0)"

text \<open>What \<open>send_pack\<close> and \<open>catcher\<close> leave alone.\<close>

definition same_setup :: "arp \<Rightarrow> arp \<Rightarrow> bool" where
  "same_setup st st' \<longleftrightarrow> arp_src st' = arp_src st \<and> arp_dst st' = arp_dst st \<and> dad st' = dad st \<and>
     unsolicited st' = unsolicited st \<and> arp_advert st' = arp_advert st \<and> arp_timeout st' = arp_timeout st \<and>
     quit_on_reply st' = quit_on_reply st \<and> broadcast_only st' = broadcast_only st \<and> me st' = me st"

lemma send_pack_effect:
  assumes "send_pack now err st = (r, st')"
  shows "same_setup st st'" "arp_count st' = arp_count st" "he st' = he st" "r \<noteq> Exit e"
    "r = Ret () \<longleftrightarrow> sll_halen (me st) \<le> 120" "r = Ret () \<Longrightarrow> arp_wire st' = arp_wire st @ [arp_packet st]"
    "last_time st' = now \<or> last_time st' = last_time st" "running st \<Longrightarrow> running st'" "received st' = received st"
    "unicasting st' = unicasting st" "start_time st' = start_time st"
  using assms by (auto simp: send_pack_def Let_def same_setup_def running_def split: if_splits)

text \<open>The state in which \<open>catcher\<close> decides, and what it does then.\<close>

definition ticked :: "int \<Rightarrow> arp \<Rightarrow> arp" where
  "ticked tv st = st\<lparr>start_time := if tv_sec (start_time st) = 0 then tv else start_time st, arp_count := arp_count st - 1\<rparr>"

lemma ticked_simps [simp]:
  "same_setup st (ticked tv st)" "arp_count (ticked tv st) = arp_count st - 1" "he (ticked tv st) = he st"
  "me (ticked tv st) = me st" "last_time (ticked tv st) = last_time st" "arp_wire (ticked tv st) = arp_wire st"
  "received (ticked tv st) = received st" "unicasting (ticked tv st) = unicasting st" "running (ticked tv st) = running st"
  "unsolicited (ticked tv st) = unsolicited st" "arp_timeout (ticked tv st) = arp_timeout st"
  "arp_packet (ticked tv st) = arp_packet st" "tv_sec (start_time st) \<noteq> 0 \<Longrightarrow> start_time (ticked tv st) = start_time st"
  by (simp_all add: ticked_def same_setup_def running_def arp_packet_def)

lemma catcher_unfold:
  "catcher tv now err st =
     (if arp_count st = 0 \<or> (arp_timeout st \<noteq> 0 \<and> tv - start_time (ticked tv st) > arp_timeout st * 1000000 + 500000)
      then (Exit (finish (ticked tv st)), ticked tv st)
      else if tv_sec (last_time st) = 0 \<or> tv - last_time st > 500000
      then and_then (send_pack now err)
        (\<lambda>_ st3. if arp_count st3 = 0 \<and> unsolicited st3 \<noteq> 0 then (Exit (finish st3), st3) else (Ret (), st3)) (ticked tv st)
      else (Ret (), ticked tv st))"
  by (cases "tv_sec (start_time st) = 0") (simp_all add: catcher_def Let_def ticked_def cong: if_cong)

lemma catcherE:
  assumes "catcher tv now err st = (r, st')"
  obtains "st' = ticked tv st" "r = Ret () \<or> r = Exit (finish st')"
  | q where "send_pack now err (ticked tv st) = (q, st')" "r = q \<or> q = Ret () \<and> r = Exit (finish st')"
proof (cases "send_pack now err (ticked tv st)")
  case (Pair q st3)
  then show ?thesis using assms that
    by (cases q) (auto simp: catcher_unfold and_then_def split: if_splits)
qed

lemma same_setup_refl [simp]: "same_setup st st"
  by (simp add: same_setup_def)

lemma same_setup_trans: "same_setup a b \<Longrightarrow> same_setup b c \<Longrightarrow> same_setup a c"
  by (simp add: same_setup_def)

lemma catcher_effect:
  assumes "catcher tv now err st = (r, st')"
  shows "same_setup st st'" "arp_count st' = arp_count st - 1" "he st' = he st"
    "r = Exit e \<Longrightarrow> e = finish st'" "running st \<Longrightarrow> running st'" "received st' = received st"
    "unicasting st' = unicasting st" "start_time st' = start_time (ticked tv st)"
  using assms by (auto elim!: catcherE dest: send_pack_effect intro: same_setup_trans[OF ticked_simps(1)])

text \<open>The state in which \<open>recv_pack\<close> has counted a packet.\<close>

definition counted :: "byte list \<Rightarrow> nat \<Rightarrow> arp \<Rightarrow> arp" where
  "counted buf pkttype st = st\<lparr>received := received st + 1,
     brd_recv := (if pkttype \<noteq> PACKET_HOST then brd_recv st + 1 else brd_recv st),
     req_recv := (if rd16 6 buf = ARPOP_REQUEST then req_recv st + 1 else req_recv st)\<rparr>"

lemma counted_simps [simp]:
  "same_setup st (counted buf p st)" "arp_count (counted buf p st) = arp_count st" "he (counted buf p st) = he st"
  "me (counted buf p st) = me st" "last_time (counted buf p st) = last_time st" "arp_wire (counted buf p st) = arp_wire st"
  "received (counted buf p st) = received st + 1" "quit_on_reply (counted buf p st) = quit_on_reply st"
  "broadcast_only (counted buf p st) = broadcast_only st" "sent_pkts (counted buf p st) = sent_pkts st"
  "running st \<Longrightarrow> \<not> quit_on_reply st \<Longrightarrow> running (counted buf p st)"
  by (simp_all add: counted_def same_setup_def running_def)

text \<open>The hardware address of the sender becomes the destination.\<close>

definition answer :: "byte list \<Rightarrow> arp \<Rightarrow> arp" where
  "answer buf st = st\<lparr>he := (he st)\<lparr>sll_addr := rdn 8 (sll_halen (me st)) buf @ drop (sll_halen (me st)) (sll_addr (he st))\<rparr>,
     unicasting := True\<rparr>"

lemma answer_simps [simp]:
  "same_setup st (answer buf st)" "arp_count (answer buf st) = arp_count st" "last_time (answer buf st) = last_time st"
  "arp_wire (answer buf st) = arp_wire st" "running st \<Longrightarrow> 0 < received st \<Longrightarrow> running (answer buf st)"
  "sll_addr (he (answer buf st)) = rdn 8 (sll_halen (me st)) buf @ drop (sll_halen (me st)) (sll_addr (he st))"
  by (auto simp: answer_def same_setup_def running_def)

lemma recv_pack_unfold:
  "recv_pack buf len pkttype hatype st =
     (if \<not> arp_accepts st buf len pkttype hatype then (Ret (), st)
      else let st1 = counted buf pkttype st
           in if quit_on_reply st \<or> (arp_count st = 0 \<and> received st1 = sent_pkts st) then (Exit (finish st1), st1)
              else (Ret (), if broadcast_only st then st1 else answer buf st1))"
  unfolding recv_pack_def Let_def counted_def[symmetric] answer_def by simp

lemma recv_packE:
  assumes "recv_pack buf len pkttype hatype st = (r, st')"
  obtains "st' = st" "r = Ret ()" "\<not> arp_accepts st buf len pkttype hatype"
  | "st' = counted buf pkttype st" "r = Exit (finish st')" "arp_accepts st buf len pkttype hatype"
      "quit_on_reply st \<or> arp_count st = 0"
  | "st' = counted buf pkttype st" "r = Ret ()" "\<not> quit_on_reply st" "arp_accepts st buf len pkttype hatype"
  | "st' = answer buf (counted buf pkttype st)" "r = Ret ()" "\<not> quit_on_reply st" "arp_accepts st buf len pkttype hatype"
  using assms by (auto simp: recv_pack_unfold Let_def split: if_splits)

lemma recv_pack_effect:
  assumes "recv_pack buf len pkttype hatype st = (r, st')"
  shows "same_setup st st'" "arp_count st' = arp_count st" "last_time st' = last_time st" "arp_wire st' = arp_wire st"
    "r \<noteq> Fault" "r = Exit e \<Longrightarrow> e = finish st'" "running st \<Longrightarrow> r = Ret () \<Longrightarrow> running st'"
  using assms by (auto elim!: recv_packE simp: same_setup_trans[OF counted_simps(1) answer_simps(1)])

lemma arp_step_running: "arp_step e st = (Ret (), st') \<Longrightarrow> running st \<Longrightarrow> running st'"
  by (cases e) (auto dest: catcher_effect recv_pack_effect)

lemma arp_step_setup: "arp_step e st = (r, st') \<Longrightarrow> same_setup st st'"
  by (cases e) (auto dest: catcher_effect recv_pack_effect simp: same_setup_def)

interpretation arp_inv: step_invariant arp_trans running
  by unfold_locales (auto elim!: arp_trans.cases intro: arp_step_running)

interpretation arp_keep: step_invariant arp_trans "same_setup st0" for st0
  by unfold_locales (auto elim!: arp_trans.cases intro: same_setup_trans arp_step_setup)

lemma arp_run_trans: "arp_run evs st = (Ret (), st') \<Longrightarrow> arp_trans\<^sup>*\<^sup>* st st'"
proof (induction evs arbitrary: st)
  case (Cons e evs)
  then obtain st1 where "arp_step e st = (Ret (), st1)" "arp_run evs st1 = (Ret (), st')"
    by (auto simp: and_then_Ret)
  then show ?case using Cons.IH converse_rtranclp_into_rtranclp[of arp_trans st st1 st'] arp_trans.intros by blast
qed simp

text \<open>What the set-up establishes.\<close>

definition fresh :: "arp \<Rightarrow> bool" where
  "fresh st \<longleftrightarrow> sent_pkts st = 0 \<and> brd_sent st = 0 \<and> received st = 0 \<and> brd_recv st = 0 \<and> req_recv st = 0 \<and>
     \<not> unicasting st \<and> arp_wire st = [] \<and> start_time st = 0 \<and> last_time st = 0 \<and> (dad st \<noteq> 0 \<longrightarrow> quit_on_reply st)"

lemma fresh_running: "fresh st \<Longrightarrow> running st"
  by (simp add: fresh_def running_def)

lemma fresh_updates [simp]:
  "fresh (st\<lparr>dev_name := n\<rparr>) = fresh st" "fresh (st\<lparr>dev_ifindex := i\<rparr>) = fresh st" "fresh (st\<lparr>dev_ifa := a\<rparr>) = fresh st"
  "fresh (st\<lparr>dev_ifa_freed := b\<rparr>) = fresh st" "fresh (st\<lparr>arp_src := w\<rparr>) = fresh st" "fresh (st\<lparr>arp_dst := w\<rparr>) = fresh st"
  "fresh (st\<lparr>me := m\<rparr>) = fresh st" "fresh (st\<lparr>he := m\<rparr>) = fresh st" "fresh (st\<lparr>unsolicited := k\<rparr>) = fresh st"
  "fresh (st\<lparr>arp_target := t\<rparr>) = fresh st" "fresh (st\<lparr>broadcast_only := b\<rparr>) = fresh st" "fresh (st\<lparr>arp_advert := k\<rparr>) = fresh st"
  "fresh (st\<lparr>arp_quiet := k\<rparr>) = fresh st" "fresh (st\<lparr>arp_count := j\<rparr>) = fresh st" "fresh (st\<lparr>arp_timeout := j\<rparr>) = fresh st"
  "fresh (st\<lparr>arp_source := src\<rparr>) = fresh st" "fresh st \<Longrightarrow> fresh (st\<lparr>quit_on_reply := True\<rparr>)"
  "fresh st \<Longrightarrow> fresh (st\<lparr>dad := k, quit_on_reply := True\<rparr>)"
  by (simp_all add: fresh_def)

lemma arp_option_fresh: "arp_option ch optarg hb st = Ret r \<Longrightarrow> fresh st \<Longrightarrow> fresh (snd r)"
  by (drule sym) (simp add: arp_option_def split: if_splits)

lemma arp_options_fresh: "arp_options es hb st = Ret (hb', st') \<Longrightarrow> fresh st \<Longrightarrow> fresh st'"
proof (induction es arbitrary: hb st)
  case (Cons e es)
  obtain ch optarg where e: "e = (ch, optarg)" by (cases e)
  with Cons.prems obtain r where "arp_option ch optarg hb st = Ret r" "arp_options es (fst r) (snd r) = Ret (hb', st')"
    by (auto split: result.splits)
  then show ?case using Cons.IH[of "fst r" "snd r"] arp_option_fresh[of ch optarg hb st r] Cons.prems(2) by simp
qed simp

lemma fresh_ifaddrs: "fresh st \<Longrightarrow> fresh (snd (find_device_by_ifaddrs env st))"
  by (simp add: find_device_by_ifaddrs_def Let_def split: option.split result.split)

lemma fresh_ioctl: "fresh st \<Longrightarrow> fresh (snd (find_device_by_ioctl env st))"
  by (simp add: find_device_by_ioctl_def Let_def split: option.split result.split)

lemma fresh_find_device: "fresh st \<Longrightarrow> fresh (snd (find_device env st))"
  unfolding find_device_def
  by (intro and_then_snd[where P = fresh]) (simp_all add: fresh_ifaddrs find_device_by_sysfs_def fresh_ioctl and_then_snd[where P = fresh])

lemma fresh_operands: "fresh st \<Longrightarrow> fresh (snd (arp_operands hb ops st))"
  by (simp add: arp_operands_def split: list.split)

lemma fresh_device: "fresh st \<Longrightarrow> fresh (snd (arp_device env st))"
  unfolding arp_device_def Let_def by (simp add: and_then_snd[where P = fresh] fresh_find_device)

lemma fresh_addresses: "fresh st \<Longrightarrow> fresh (snd (arp_addresses env st))"
  by (simp add: arp_addresses_def Let_def split: option.split)

lemma fresh_probe: "fresh st \<Longrightarrow> fresh (snd (arp_probe env st))"
  by (simp add: arp_probe_def split: option.split)

lemma fresh_link: "fresh st \<Longrightarrow> fresh (snd (arp_link env st))"
  by (simp add: arp_link_def Let_def split: option.split result.split)

lemma fresh_setup: "fresh (snd (arp_setup env args))"
proof -
  have i: "fresh arp_init" by (simp add: arp_init_def fresh_def)
  show ?thesis
    by (auto simp: arp_setup_def i split: prod.split result.split
        intro!: and_then_snd[where P = fresh] fresh_operands fresh_device fresh_addresses fresh_probe fresh_link
        intro: arp_options_fresh[OF _ i])
qed

lemma arp_main_running:
  assumes "arp_main env args (tv, now, err) evs = (Ret (), st)"
  shows "running st"
proof -
  obtain st1 st2 where "arp_setup env args = (Ret (), st1)" and c: "catcher tv now err st1 = (Ret (), st2)"
    and r: "arp_run evs st2 = (Ret (), st)"
    using assms by (auto simp: arp_main_def and_then_Ret split: prod.splits result.splits)
  then have "running st1" using fresh_setup[of env args] fresh_running by simp
  then show ?thesis using catcher_effect(5)[OF c] arp_inv.steps_inv[OF arp_run_trans[OF r]] by simp
qed

section \<open>Duplicate address detection\<close>

text \<open>A received frame in which another interface claims the tested address.\<close>

definition conflict :: "arp \<Rightarrow> arp_event \<Rightarrow> bool" where
  "conflict st e \<longleftrightarrow>
     (\<exists>hrd op shw thw tip pad len pkttype hatype.
        e = Packet (arp_frame hrd op shw (arp_dst st) thw tip @ pad) len pkttype hatype \<and>
        length shw = sll_halen (me st) \<and> length thw = sll_halen (me st) \<and> 8 + 2 * (4 + sll_halen (me st)) \<le> len \<and>
        plausible hrd op pkttype hatype \<and> shw \<noteq> take (sll_halen (me st)) (sll_addr (me st)) \<and>
        (arp_src st = 0 \<or> arp_src st = tip))"

text \<open>The events the kernel can deliver: the buffer of the program and 16-bit hardware types.\<close>

fun wf_event :: "arp_event \<Rightarrow> bool" where
  "wf_event (Packet buf len pkttype hatype) = (length buf = 4096 \<and> hatype < 65536)"
| "wf_event _ = True"

lemma conflict_iff:
  assumes "dad st \<noteq> 0" and "sll_halen (me st) < 256" and "wf_event e"
  shows "conflict st e \<longleftrightarrow> (\<exists>buf len pkttype hatype. e = Packet buf len pkttype hatype \<and> arp_accepts st buf len pkttype hatype)"
proof (cases e)
  case (Packet buf len pkttype hatype)
  with assms(3) have "length buf = 4096" "hatype < 65536" by simp_all
  note f = arp_filter_char[OF this(1) assms(2) this(2), of len pkttype]
  have "(\<exists>b l p h. e = Packet b l p h \<and> arp_accepts st b l p h) \<longleftrightarrow> arp_accepts st buf len pkttype hatype"
    using Packet by simp
  then show ?thesis unfolding f awaited_def using assms(1) by (auto simp: conflict_def Packet)
qed (simp_all add: conflict_def)

lemma finish_dad: "dad st \<noteq> 0 \<Longrightarrow> finish st = (if received st \<noteq> 0 then 1 else 0)"
  by (simp add: finish_def)

lemma catcher_no_Fault:
  assumes "sll_halen (me st) \<le> 120"
  shows "fst (catcher tv now err st) \<noteq> Fault"
proof (cases "catcher tv now err st")
  case (Pair r st')
  then show ?thesis using assms by (auto elim!: catcherE dest: send_pack_effect(5))
qed

lemma finish_step: "arp_step e st = (Exit c, st') \<Longrightarrow> c = finish st'"
  by (cases e) (auto dest: catcher_effect(4) recv_pack_effect(6))

lemma dad_step:
  assumes "running st" and "dad st \<noteq> 0" and "wf_event e" and "sll_halen (me st) \<le> 120"
  shows "fst (arp_step e st) = (if conflict st e then Exit 1 else fst (arp_step e st)) \<and>
    (\<not> conflict st e \<longrightarrow> fst (arp_step e st) \<in> {Ret (), Exit 0})"
proof -
  have z: "quit_on_reply st" "received st = 0" using assms(1,2) by (auto simp: running_def)
  obtain r st' where s: "arp_step e st = (r, st')" by (cases "arp_step e st")
  then have d: "dad st' \<noteq> 0" using assms(2) arp_step_setup by (simp add: same_setup_def)
  show ?thesis
  proof (cases e)
    case (Alarm tv now err)
    then show ?thesis using s z(2) d catcher_effect(4,6)[of tv now err st] catcher_no_Fault[OF assms(4), of tv now err]
      by (cases r) (auto simp: conflict_def finish_dad)
  next
    case (Packet buf len pkttype hatype)
    then show ?thesis using s z d conflict_iff[OF assms(2) _ assms(3)] assms(4) by (auto elim!: recv_packE simp: finish_dad)
  next
    case Sigint
    then show ?thesis using z assms(2) by (auto simp: conflict_def finish_dad)
  qed
qed

text \<open>
  Duplicate address detection decides correctly at every moment: while \<open>send_arp -D\<close> runs, whatever its
  other arguments and whatever happened so far, the next event ends it with status 1 exactly when it is a
  frame in which other hardware claims the tested address; any other event leaves it running or, as the
  time-out, the last probe or SIGINT, ends it with status 0.  It never switches to unicast probes.
\<close>

theorem dad_verdict:
  assumes "arp_main env args first evs = (Ret (), st)" and "dad st \<noteq> 0" and "wf_event e" and "sll_halen (me st) \<le> 120"
  shows "fst (arp_step e st) \<in> {Ret (), Exit 0, Exit 1} \<and> (fst (arp_step e st) = Exit 1 \<longleftrightarrow> conflict st e) \<and>
    \<not> unicasting st"
proof -
  have r: "running st" using assms(1) arp_main_running by (cases first) simp
  then have "\<not> unicasting st" using assms(2) by (auto simp: running_def)
  with dad_step[OF r assms(2-4)] show ?thesis by (auto split: if_splits)
qed

section \<open>Gratuitous ARP\<close>

text \<open>
  The announcement of an address: a frame whose sender is the interface with the source address and whose
  target address is the destination.
\<close>

definition announces :: "arp \<Rightarrow> byte list \<Rightarrow> bool" where
  "announces st p \<longleftrightarrow>
     (\<exists>thw. length thw = sll_halen (me st) \<and>
        p = arp_frame (if sll_hatype (me st) = ARPHRD_FDDI then ARPHRD_ETHER else sll_hatype (me st))
              (if arp_advert st \<noteq> 0 then ARPOP_REPLY else ARPOP_REQUEST)
              (take (sll_halen (me st)) (sll_addr (me st))) (arp_src st) thw (arp_dst st))"

definition gratuitous :: "arp \<Rightarrow> bool" where
  "gratuitous st \<longleftrightarrow> unsolicited st \<noteq> 0 \<and> dad st = 0 \<and> \<not> quit_on_reply st \<and> arp_timeout st = 0 \<and>
     sll_halen (me st) \<le> 120 \<and> sll_halen (me st) \<le> length (sll_addr (me st)) \<and> sll_halen (me st) \<le> length (sll_addr (he st))"

lemma announces_packet: "gratuitous st \<Longrightarrow> announces st (arp_packet st)"
  unfolding announces_def
  by (rule exI[of _ "take (sll_halen (me st)) (if arp_advert st \<noteq> 0 then sll_addr (me st) else sll_addr (he st))"])
    (simp add: arp_packet_def arp_frame_def Let_def gratuitous_def min_absorb2)

lemma announces_same: "same_setup st st' \<Longrightarrow> announces st' p = announces st p"
  by (simp add: announces_def same_setup_def)

lemma gratuitous_same:
  "same_setup st st' \<Longrightarrow> gratuitous st \<Longrightarrow> sll_halen (me st) \<le> length (sll_addr (he st')) \<Longrightarrow> gratuitous st'"
  by (simp add: gratuitous_def same_setup_def)

lemma gratuitous_finish: "gratuitous st \<Longrightarrow> finish st = 0"
  by (simp add: gratuitous_def finish_def)

text \<open>
  The alarms come more than half a second after the packet before them, as \<open>alarm (1)\<close> has it; any
  packets may come in between.  The number of alarms.
\<close>

fun spaced :: "int \<Rightarrow> arp_event list \<Rightarrow> bool" where
  "spaced l [] = True"
| "spaced l (Alarm tv now err # es) = (tv - l > 500000 \<and> tv \<le> now \<and> spaced now es)"
| "spaced l (Packet buf len pkttype hatype # es) = (length buf = 4096 \<and> spaced l es)"
| "spaced l (Sigint # es) = False"

fun alarms :: "arp_event list \<Rightarrow> nat" where
  "alarms [] = 0"
| "alarms (Alarm tv now err # es) = Suc (alarms es)"
| "alarms (e # es) = alarms es"

lemma gratuitous_alarm:
  assumes "gratuitous st" and "tv - last_time st > 500000" and "arp_count st = int (Suc k)"
  obtains st' where "catcher tv now err st = (if k = 0 then Exit 0 else Ret (), st')" "same_setup st st'" "gratuitous st'"
    "arp_count st' = int k" "arp_wire st' = arp_wire st @ [arp_packet st]" "last_time st' = now \<or> last_time st' = last_time st"
proof -
  obtain r st' where s: "send_pack now err (ticked tv st) = (r, st')" by (cases "send_pack now err (ticked tv st)")
  note f = send_pack_effect[OF s]
  have r: "r = Ret ()" using f(5) assms(1) by (simp add: gratuitous_def)
  have st': "same_setup st st'" using f(1) same_setup_trans[OF ticked_simps(1)] by blast
  have g: "gratuitous st'" using gratuitous_same[OF st' assms(1)] f(3) assms(1) by (simp add: gratuitous_def)
  have "catcher tv now err st = (if k = 0 then Exit 0 else Ret (), st')"
    using s r assms f(2) gratuitous_finish[OF g] g by (auto simp: catcher_unfold gratuitous_def)
  then show thesis using that st' g f(2,6,7) r assms(3) by simp
qed

lemma gratuitous_packet:
  assumes "recv_pack buf len pkttype hatype st = (r, st')" and "gratuitous st" and "arp_count st \<noteq> 0" and "length buf = 4096"
  shows "r = Ret () \<and> gratuitous st'"
proof -
  have s: "same_setup st st'" using assms(1) by (rule recv_pack_effect(1))
  have h: "\<not> quit_on_reply st" "sll_halen (me st) \<le> 120" using assms(2) by (simp_all add: gratuitous_def)
  from assms(1) have "r = Ret () \<and> sll_halen (me st) \<le> length (sll_addr (he st'))"
    using h assms(2-4) by (cases rule: recv_packE) (auto simp: gratuitous_def rdn_def)
  then show ?thesis using gratuitous_same[OF s assms(2)] by simp
qed

lemma gratuitous_run:
  assumes "spaced l evs" and "last_time st \<le> l" and "gratuitous st" and "arp_count st = int k" and "0 < k" and "k \<le> alarms evs"
  shows "\<exists>ps st'. arp_run evs st = (Exit 0, st') \<and> arp_wire st' = arp_wire st @ ps \<and> length ps = k \<and> (\<forall>p\<in>set ps. announces st p)"
  using assms
proof (induction evs arbitrary: l st k)
  case (Cons e evs)
  show ?case
  proof (cases e)
    case (Alarm tv now err)
    obtain j where k: "k = Suc j" using Cons.prems(5) by (cases k) simp_all
    have t: "tv - last_time st > 500000" "last_time st \<le> now" using Cons.prems(1,2) Alarm by simp_all
    obtain st1 where st1: "catcher tv now err st = (if j = 0 then Exit 0 else Ret (), st1)" "same_setup st st1"
      "gratuitous st1" "arp_count st1 = int j" "arp_wire st1 = arp_wire st @ [arp_packet st]" "last_time st1 \<le> now"
      using gratuitous_alarm[OF Cons.prems(3) t(1), of j now err] Cons.prems(4) k t(2) by (metis order_refl)
    note a = announces_packet[OF Cons.prems(3)]
    show ?thesis
    proof (cases "j = 0")
      case True
      then show ?thesis using st1 a Alarm k by (intro exI[of _ "[arp_packet st]"]) auto
    next
      case False
      then obtain ps st' where "arp_run evs st1 = (Exit 0, st')" "arp_wire st' = arp_wire st1 @ ps" "length ps = j"
        "\<forall>p\<in>set ps. announces st1 p"
        using Cons.IH[of now st1 j] st1 Cons.prems(1,6) Alarm k by auto
      then show ?thesis using st1 a announces_same[OF st1(2)] False Alarm k
        by (intro exI[of _ "arp_packet st # ps"]) auto
    qed
  next
    case (Packet buf len pkttype hatype)
    obtain r st1 where s: "recv_pack buf len pkttype hatype st = (r, st1)" by (cases "recv_pack buf len pkttype hatype st")
    then have "r = Ret ()" "gratuitous st1"
      using gratuitous_packet[OF s Cons.prems(3)] Cons.prems(1,4,5) Packet by simp_all
    then show ?thesis using Cons.IH[of l st1 k] recv_pack_effect(1-4)[OF s] Cons.prems announces_same[of st st1] s Packet by simp
  next
    case Sigint
    then show ?thesis using Cons.prems(1) by simp
  qed
qed simp

section \<open>The set-up\<close>

text \<open>
  An interface on which the program can start: the one entry of its name has a link-layer address, is up
  and does ARP, and every system call on the way succeeds.
\<close>

definition link_of :: "string \<Rightarrow> ifaddr \<Rightarrow> bool" where
  "link_of dev ifa \<longleftrightarrow> ifa_link ifa \<noteq> None \<and> ifa_name ifa = dev"

definition arp_ready :: "arp_env \<Rightarrow> string \<Rightarrow> sockaddr_ll \<Rightarrow> byte list \<Rightarrow> bool" where
  "arp_ready env dev sll ba \<longleftrightarrow>
     (\<exists>ifas ifa. getifaddrs env = Some ifas \<and> filter (link_of dev) ifas = [ifa] \<and>
        and (ifa_flags ifa) IFF_UP \<noteq> 0 \<and> and (ifa_flags ifa) (or IFF_NOARP 8) = 0 \<and>
        ifa_link ifa \<noteq> Some 0 \<and> ifa_broadaddr ifa = Some ba) \<and>
     raw_socket env \<and> arp_if_index env dev \<noteq> 0 \<and> probe_socket env \<and> probe_bind env \<and> arp_bind env \<and> drop_ok env \<and>
     arp_sockname env = Some sll \<and> 0 < sll_halen sll \<and> sll_halen sll \<le> 120 \<and> sll_halen sll \<le> length (sll_addr sll) \<and>
     length ba = sll_halen sll"

lemma ifa_loop_none: "dev_name st = Some dev \<Longrightarrow> filter (link_of dev) ifas = [] \<Longrightarrow> ifa_loop st ifas acc = Ret acc"
proof (induction ifas)
  case (Cons i ifas)
  then show ?case by (cases acc) (auto simp: link_of_def split: option.splits if_splits)
qed simp

lemma ifa_loop_one:
  assumes "dev_name st = Some dev" and "filter (link_of dev) ifas = [ifa]" and "and (ifa_flags ifa) IFF_UP \<noteq> 0"
    and "and (ifa_flags ifa) (or IFF_NOARP 8) = 0" and "ifa_link ifa \<noteq> Some 0" and "ifa_broadaddr ifa \<noteq> None"
  shows "ifa_loop st ifas (f, 0) = Ret (Some ifa, 1)"
  using assms(2)
proof (induction ifas)
  case (Cons i ifas)
  show ?case
  proof (cases "link_of dev i")
    case True
    then have "i = ifa" "filter (link_of dev) ifas = []" using Cons.prems by simp_all
    then show ?thesis using True assms ifa_loop_none[OF assms(1), of ifas]
      by (auto simp: link_of_def check_ifflags_def split: option.splits)
  next
    case False
    then show ?thesis using Cons assms(1) by (auto simp: link_of_def split: option.splits)
  qed
qed simp

lemma find_device_ready:
  assumes "arp_ready env dev sll ba" and "dev_name st = Some dev"
  obtains ifa where "find_device env st = (Ret 0, st\<lparr>dev_ifa := Some ifa, dev_ifindex := arp_if_index env dev\<rparr>)"
    "ifa_broadaddr ifa = Some ba"
proof -
  obtain ifas ifa where i: "getifaddrs env = Some ifas" "filter (link_of dev) ifas = [ifa]" "and (ifa_flags ifa) IFF_UP \<noteq> 0"
    "and (ifa_flags ifa) (or IFF_NOARP 8) = 0" "ifa_link ifa \<noteq> Some 0" "ifa_broadaddr ifa = Some ba" and x: "arp_if_index env dev \<noteq> 0"
    using assms(1) by (auto simp: arp_ready_def)
  have n: "ifa_name ifa = dev"
    using i(2) by (metis filter_eq_Cons_iff link_of_def)
  have "find_device_by_ifaddrs env st = (Ret 0, st\<lparr>dev_ifa := Some ifa, dev_ifindex := arp_if_index env dev\<rparr>)"
    using i(1) ifa_loop_one[OF assms(2) i(2-5)] i(6) x n assms(2) by (simp add: find_device_by_ifaddrs_def Let_def)
  then have "find_device env st = (Ret 0, st\<lparr>dev_ifa := Some ifa, dev_ifindex := arp_if_index env dev\<rparr>)"
    by (simp add: find_device_def)
  then show thesis using that i(6) by blast
qed

definition started :: "arp_env \<Rightarrow> string \<Rightarrow> sockaddr_ll \<Rightarrow> byte list \<Rightarrow> 32 word \<Rightarrow> ifaddr \<Rightarrow> arp \<Rightarrow> arp" where
  "started env dev sll ba a ifa st =
     st\<lparr>dev_ifa := Some ifa, dev_ifindex := arp_if_index env dev, arp_dst := a, arp_src := if dad st = 0 then a else 0,
        me := sll, he := sll\<lparr>sll_addr := ba @ drop (sll_halen sll) (sll_addr sll)\<rparr>\<rparr>"

lemma arp_started:
  assumes "arp_ready env dev sll ba" and "dev_name st = Some dev" and "dev \<noteq> []" and "\<not> dev_ifa_freed st"
    and "inet_aton (arp_target st) = Some a" and "a \<noteq> 0" and "arp_source st = None" and "arp_src st = 0"
    and "dad st \<noteq> 0 \<or> unsolicited st \<noteq> 0"
  obtains ifa where "and_then (arp_device env) (\<lambda>_. and_then (arp_addresses env) (\<lambda>_. and_then (arp_probe env)
      (\<lambda>_. arp_link env))) st = (Ret (), started env dev sll ba a ifa st)"
proof -
  obtain ifa where f: "find_device env st = (Ret 0, st\<lparr>dev_ifa := Some ifa, dev_ifindex := arp_if_index env dev\<rparr>)"
    and b: "ifa_broadaddr ifa = Some ba"
    using find_device_ready[OF assms(1,2)] .
  let ?s1 = "st\<lparr>dev_ifa := Some ifa, dev_ifindex := arp_if_index env dev\<rparr>"
  let ?s2 = "?s1\<lparr>arp_dst := a, arp_src := if dad st = 0 then a else 0\<rparr>"
  note env = assms(1)[unfolded arp_ready_def]
  have 1: "arp_device env st = (Ret (), ?s1)" using f assms(2,3) env by (simp add: arp_device_def)
  have 2: "arp_addresses env ?s1 = (Ret (), ?s2)" using assms(5-9) by (auto simp: arp_addresses_def)
  have 3: "arp_probe env ?s2 = (Ret (), ?s2)" using env assms(6) by (simp add: arp_probe_def)
  have "set_device_broadcast ?s2 (sll_halen sll) = Ret ba" using b env assms(4) by (simp add: set_device_broadcast_def)
  then have 4: "arp_link env ?s2 = (Ret (), started env dev sll ba a ifa st)"
    using env assms(6) by (simp add: arp_link_def started_def)
  show thesis using 1 2 3 4 that by simp
qed

lemma atoi_show_nat: "int n \<le> INT_MAX \<Longrightarrow> atoi (show_nat n) = int n"
  using atoi_show_int[of "int n"] by (simp add: show_int_def)

lemma gratuitous_setup:
  assumes "arp_ready env dev sll ba" and "operand dev" and "operand ip" and "operand x" and "operand y"
    and "inet_aton ip = Some a" and "a \<noteq> 0" and "int n \<le> INT_MAX"
  obtains ifa st where "arp_setup env [''-i'', ms, ''-r'', show_nat n, ''-p'', pf, dev, ip, ''auto'', x, y] = (Ret (), st)"
    "st = started env dev sll ba a ifa (arp_init\<lparr>arp_count := int n, unsolicited := 1, dev_name := Some dev, arp_target := ip\<rparr>)"
proof -
  let ?os = "''h?bfDUAqc:w:s:I:Vr:i:p:''"
  have "getopt_all ?os [dev, ip, ''auto'', x, y] = ([], [dev, ip, ''auto'', x, y])"
    using assms(2-5) by (simp add: getopt_operands operand_def del: getopt_all.simps(2))
  then have g: "getopt_all ?os [''-i'', ms, ''-r'', show_nat n, ''-p'', pf, dev, ip, ''auto'', x, y] =
      ([(CHR ''i'', ms), (CHR ''r'', show_nat n), (CHR ''p'', pf)], [dev, ip, ''auto'', x, y])"
    by (simp del: getopt_all.simps(2) add: getopt_all.simps(2)[of _ "''-i''"] getopt_all.simps(2)[of _ "''-r''"]
        getopt_all.simps(2)[of _ "''-p''"])
  let ?st = "arp_init\<lparr>arp_count := int n, unsolicited := 1, dev_name := Some dev, arp_target := ip\<rparr>"
  have "dev_name ?st = Some dev" "dev \<noteq> []" "\<not> dev_ifa_freed ?st" "inet_aton (arp_target ?st) = Some a" "arp_source ?st = None"
    "arp_src ?st = 0" "dad ?st \<noteq> 0 \<or> unsolicited ?st \<noteq> 0"
    using assms(2,6) by (simp_all add: arp_init_def operand_def)
  from arp_started[OF assms(1) this(1-4) assms(7) this(5-7)] obtain ifa where
    "and_then (arp_device env) (\<lambda>_. and_then (arp_addresses env) (\<lambda>_. and_then (arp_probe env) (\<lambda>_. arp_link env))) ?st =
      (Ret (), started env dev sll ba a ifa ?st)" .
  then have "arp_setup env [''-i'', ms, ''-r'', show_nat n, ''-p'', pf, dev, ip, ''auto'', x, y] =
      (Ret (), started env dev sll ba a ifa ?st)"
    unfolding arp_setup_def g by (simp add: arp_option_def atoi_show_nat[OF assms(8)] arp_operands_def)
  then show thesis using that by blast
qed

lemma started_gratuitous:
  assumes "arp_ready env dev sll ba" and "unsolicited st \<noteq> 0" and "dad st = 0" and "\<not> quit_on_reply st" and "arp_timeout st = 0"
  shows "gratuitous (started env dev sll ba a ifa st)"
  using assms by (simp add: gratuitous_def started_def arp_ready_def)

text \<open>The frame that announces an address: an ARP request from and for it.\<close>

definition announcement :: "sockaddr_ll \<Rightarrow> 32 word \<Rightarrow> byte list \<Rightarrow> bool" where
  "announcement sll a p \<longleftrightarrow>
     (\<exists>thw. length thw = sll_halen sll \<and>
        p = arp_frame (if sll_hatype sll = ARPHRD_FDDI then ARPHRD_ETHER else sll_hatype sll) ARPOP_REQUEST
              (take (sll_halen sll) (sll_addr sll)) a thw a)"

lemma gratuitous_main:
  assumes "arp_ready env dev sll ba" and "operand dev" and "operand ip" and "operand x" and "operand y"
    and "inet_aton ip = Some a" and "a \<noteq> 0" and "0 < n" and "int n \<le> INT_MAX"
    and "spaced 0 (Alarm tv now err # evs)" and "n \<le> Suc (alarms evs)"
  shows "\<exists>st. arp_main env [''-i'', ms, ''-r'', show_nat n, ''-p'', pf, dev, ip, ''auto'', x, y] (tv, now, err) evs = (Exit 0, st) \<and>
    length (arp_wire st) = n \<and>
    (\<forall>p\<in>set (arp_wire st). announcement sll a p)"
proof -
  obtain ifa st where s: "arp_setup env [''-i'', ms, ''-r'', show_nat n, ''-p'', pf, dev, ip, ''auto'', x, y] = (Ret (), st)"
    and st: "st = started env dev sll ba a ifa (arp_init\<lparr>arp_count := int n, unsolicited := 1, dev_name := Some dev, arp_target := ip\<rparr>)"
    using gratuitous_setup[OF assms(1-7,9)] .
  have g: "gratuitous st" unfolding st using started_gratuitous[OF assms(1)] by (simp add: arp_init_def)
  have i: "arp_count st = int n" "last_time st \<le> 0" "arp_wire st = []" by (simp_all add: st started_def arp_init_def)
  obtain ps st' where r: "arp_run (Alarm tv now err # evs) st = (Exit 0, st')" "arp_wire st' = ps" "length ps = n"
    "\<forall>p\<in>set ps. announces st p"
    using gratuitous_run[OF assms(10) i(2) g i(1) assms(8)] assms(11) i(3) by auto
  moreover have "arp_main env [''-i'', ms, ''-r'', show_nat n, ''-p'', pf, dev, ip, ''auto'', x, y] (tv, now, err) evs =
      arp_run (Alarm tv now err # evs) st"
    by (simp add: arp_main_def s and_then_def)
  ultimately show ?thesis by (auto simp: announces_def announcement_def st started_def arp_init_def)
qed

text \<open>
  C18. The announcement of a moved address, as the resource agents call it
  (\<open>send_arp -i ms -r n -p pidfile device address auto x y\<close>): on a working interface, with the alarms a second
  apart and whatever packets arrive in between, the program sends exactly \<open>n\<close> frames and exits with status 0;
  each is an ARP request from the hardware address of the interface in which sender and target address are
  the address announced.
\<close>

theorem gratuitous_announcement:
  assumes "arp_ready env dev sll ba" and "operand dev" and "operand ip" and "operand x" and "operand y"
    and "inet_aton ip = Some a" and "a \<noteq> 0" and "0 < n" and "int n \<le> INT_MAX"
    and "spaced 0 (Alarm tv now err # evs)" and "n \<le> Suc (alarms evs)"
  shows "\<exists>st. arp_main env [''-i'', ms, ''-r'', show_nat n, ''-p'', pf, dev, ip, ''auto'', x, y] (tv, now, err) evs = (Exit 0, st) \<and>
    length (arp_wire st) = n \<and>
    (\<forall>p\<in>set (arp_wire st). announcement sll a p)"
  using assms by (rule gratuitous_main)

definition demo_sll :: sockaddr_ll where
  "demo_sll = \<lparr>sll_hatype = 1, sll_halen = 6, sll_addr = [2, 0, 0, 0, 0, 1, 0, 0]\<rparr>"

definition demo_arp_env :: arp_env where
  "demo_arp_env = \<lparr>raw_socket = True,
     getifaddrs = Some [\<lparr>ifa_name = ''lo'', ifa_link = Some 6, ifa_flags = 9, ifa_broadaddr = None\<rparr>,
       \<lparr>ifa_name = ''eth0'', ifa_link = Some 6, ifa_flags = 3, ifa_broadaddr = Some (replicate 6 0xFF)\<rparr>],
     arp_if_index = (\<lambda>_. 2), inet_socket = True, dev_flags = (\<lambda>_. None), dev_index = (\<lambda>_. None), ifconf = None,
     hostbyname = (\<lambda>_. None), probe_socket = True, probe_bind = True, probe_connect = True, probe_name = None,
     arp_bind = True, arp_sockname = Some demo_sll, drop_ok = True\<rparr>"

lemma demo_arp_ready: "arp_ready demo_arp_env ''eth0'' demo_sll (replicate 6 0xFF)"
  by (simp add: arp_ready_def demo_arp_env_def demo_sll_def link_of_def IFF_UP_def IFF_NOARP_def)

lemma demo_ip: "inet_aton ''10.0.0.1'' = Some 0x0100000A"
proof -
  have "show_nat 10 = ''10''" "show_nat 0 = ''0''" "show_nat 1 = ''1''" by code_simp+
  then show ?thesis using inet_aton_quad[of 10 0 0 1] by (simp add: quad_def)
qed

theorem gratuitous_announcement_witness:
  "\<exists>st. arp_main demo_arp_env [''-i'', ''200'', ''-r'', show_nat 2, ''-p'', ''/run/x'', ''eth0'', ''10.0.0.1'', ''auto'', ''x'', ''y'']
     (1000000, 1000001, 28) [Packet (replicate 4096 0) 60 1 1, Alarm 2000000 2000001 28] = (Exit 0, st) \<and> length (arp_wire st) = 2"
  using gratuitous_announcement[OF demo_arp_ready _ _ _ _ demo_ip, of "''x''" "''y''" 2 1000000 1000001 28
      "[Packet (replicate 4096 0) 60 1 1, Alarm 2000000 2000001 28]" "''200''" "''/run/x''"]
  by (auto simp: operand_def INT_MAX_def)

section \<open>Duplicate address detection against its specification\<close>

text \<open>
  The specification: for an interface and a tested address, the first of these events decides: a frame of
  other hardware that claims the address (1), an alarm after the deadline (0), SIGINT (0).
\<close>

definition claims :: "sockaddr_ll \<Rightarrow> 32 word \<Rightarrow> arp_event \<Rightarrow> bool" where
  "claims sll a e \<longleftrightarrow>
     (\<exists>hrd op shw thw tip pad len pkttype hatype.
        e = Packet (arp_frame hrd op shw a thw tip @ pad) len pkttype hatype \<and>
        length shw = sll_halen sll \<and> length thw = sll_halen sll \<and> 8 + 2 * (4 + sll_halen sll) \<le> len \<and>
        plausible hrd op pkttype hatype \<and> shw \<noteq> take (sll_halen sll) (sll_addr sll))"

fun dad_spec :: "sockaddr_ll \<Rightarrow> 32 word \<Rightarrow> int \<Rightarrow> arp_event list \<Rightarrow> unit result" where
  "dad_spec sll a deadline [] = Ret ()"
| "dad_spec sll a deadline (e # es) =
     (if claims sll a e then Exit 1
      else case e of
        Alarm tv _ _ \<Rightarrow> if tv > deadline then Exit 0 else dad_spec sll a deadline es
      | Packet _ _ _ _ \<Rightarrow> dad_spec sll a deadline es
      | Sigint \<Rightarrow> Exit 0)"

lemma conflict_claims: "arp_src st = 0 \<Longrightarrow> conflict st e = claims (me st) (arp_dst st) e"
  unfolding conflict_def claims_def by simp

text \<open>The states of a detection without a count that has a time-out.\<close>

definition detecting :: "int \<Rightarrow> arp \<Rightarrow> bool" where
  "detecting t st \<longleftrightarrow> running st \<and> dad st \<noteq> 0 \<and> unsolicited st = 0 \<and> arp_src st = 0 \<and> arp_count st < 0 \<and>
     arp_timeout st > 0 \<and> tv_sec t \<noteq> 0 \<and> start_time st = t \<and> sll_halen (me st) \<le> 120"

lemma detecting_alarm:
  assumes "detecting t st" and c: "catcher tv now err st = (r, st')"
  shows "r = (if tv > t + arp_timeout st * 1000000 + 500000 then Exit 0 else Ret ())" "detecting t st'"
proof -
  note d = assms(1)[unfolded detecting_def]
  show "detecting t st'" using d catcher_effect[OF c] by (simp add: detecting_def same_setup_def)
  then have f: "finish st' = 0" by (auto simp: detecting_def running_def finish_def)
  obtain q s3 where s: "send_pack now err (ticked tv st) = (q, s3)" by (cases "send_pack now err (ticked tv st)")
  then have q: "q = Ret ()" using send_pack_effect(5)[OF s] d by simp
  have u: "unsolicited s3 = 0" using send_pack_effect(1)[OF s] d by (simp add: same_setup_def)
  have "tv - start_time (ticked tv st) > arp_timeout st * 1000000 + 500000 \<longleftrightarrow> tv > t + arp_timeout st * 1000000 + 500000"
    using d by auto
  then show "r = (if tv > t + arp_timeout st * 1000000 + 500000 then Exit 0 else Ret ())"
    using c f d s q u by (auto simp: catcher_unfold split: if_splits)
qed

lemma detecting_run:
  assumes "detecting t st" and "list_all wf_event evs"
  shows "fst (arp_run evs st) = dad_spec (me st) (arp_dst st) (t + arp_timeout st * 1000000 + 500000) evs"
  using assms
proof (induction evs arbitrary: st)
  case (Cons e evs)
  note d = Cons.prems(1)[unfolded detecting_def]
  have w: "wf_event e" "list_all wf_event evs" using Cons.prems(2) by simp_all
  note cl = conflict_claims[of st e]
  obtain r st' where s: "arp_step e st = (r, st')" by (cases "arp_step e st")
  have dad: "if claims (me st) (arp_dst st) e then r = Exit 1 else r \<in> {Ret (), Exit 0}"
    using dad_step[of st e] d w(1) cl s by (auto split: if_splits)
  show ?case
  proof (cases e)
    case (Alarm tv now err)
    have c: "catcher tv now err st = (r, st')" using s Alarm by simp
    have "\<not> claims (me st) (arp_dst st) e" using Alarm by (simp add: claims_def)
    moreover have "same_setup st st'" using arp_step_setup s by blast
    ultimately show ?thesis
      using detecting_alarm[OF Cons.prems(1) c] Cons.IH[of st'] w(2) c Alarm by (auto simp: same_setup_def and_then_def)
  next
    case (Packet buf len pkttype hatype)
    then show ?thesis
    proof (cases "claims (me st) (arp_dst st) e")
      case True
      then show ?thesis using dad s by (simp add: and_then_def)
    next
      case False
      then have "\<not> arp_accepts st buf len pkttype hatype" using conflict_iff[of st e] d w(1) cl Packet by auto
      then show ?thesis using False Cons.IH[OF Cons.prems(1) w(2)] Packet by (simp add: recv_pack_def and_then_def)
    qed
  next
    case Sigint
    then show ?thesis using d by (auto simp: claims_def and_then_def running_def finish_def)
  qed
qed simp

lemma dad_setup:
  assumes "arp_ready env dev sll ba" and "operand dev" and "operand ip" and "inet_aton ip = Some a" and "a \<noteq> 0" and "int n \<le> INT_MAX"
  obtains ifa st where "arp_setup env [''-D'', ''-w'', show_nat n, ''-I'', dev, ip] = (Ret (), st)"
    "st = started env dev sll ba a ifa
       (arp_init\<lparr>dad := 1, quit_on_reply := True, arp_timeout := int n, dev_name := Some dev, arp_target := ip\<rparr>)"
proof -
  let ?os = "''h?bfDUAqc:w:s:I:Vr:i:p:''"
  have "getopt_all ?os [ip] = ([], [ip])"
    using assms(3) by (simp add: getopt_operands operand_def del: getopt_all.simps(2))
  then have g: "getopt_all ?os [''-D'', ''-w'', show_nat n, ''-I'', dev, ip] =
      ([(CHR ''D'', []), (CHR ''w'', show_nat n), (CHR ''I'', dev)], [ip])"
    by (simp del: getopt_all.simps(2) add: getopt_all.simps(2)[of _ "''-D''"] getopt_all.simps(2)[of _ "''-w''"]
        getopt_all.simps(2)[of _ "''-I''"])
  let ?st = "arp_init\<lparr>dad := 1, quit_on_reply := True, arp_timeout := int n, dev_name := Some dev, arp_target := ip\<rparr>"
  have "dev_name ?st = Some dev" "dev \<noteq> []" "\<not> dev_ifa_freed ?st" "inet_aton (arp_target ?st) = Some a" "arp_source ?st = None"
    "arp_src ?st = 0" "dad ?st \<noteq> 0 \<or> unsolicited ?st \<noteq> 0"
    using assms(2,4) by (simp_all add: arp_init_def operand_def)
  from arp_started[OF assms(1) this(1-4) assms(5) this(5-7)] obtain ifa where
    "and_then (arp_device env) (\<lambda>_. and_then (arp_addresses env) (\<lambda>_. and_then (arp_probe env) (\<lambda>_. arp_link env))) ?st =
      (Ret (), started env dev sll ba a ifa ?st)" .
  moreover have "dad arp_init = 0" by (simp add: arp_init_def)
  ultimately have "arp_setup env [''-D'', ''-w'', show_nat n, ''-I'', dev, ip] = (Ret (), started env dev sll ba a ifa ?st)"
    unfolding arp_setup_def g by (simp add: arp_option_def atoi_show_nat[OF assms(6)] arp_operands_def)
  then show thesis using that by blast
qed

lemma dad_first:
  assumes "arp_ready env dev sll ba" and "operand dev" and "operand ip" and "inet_aton ip = Some a" and "a \<noteq> 0"
    and "0 < n" and "int n \<le> INT_MAX" and "tv \<ge> 1000000"
  obtains st where "detecting tv st" "me st = sll" "arp_dst st = a" "arp_timeout st = int n"
    "\<And>evs. arp_main env [''-D'', ''-w'', show_nat n, ''-I'', dev, ip] (tv, now, err) evs = arp_run evs st"
proof -
  obtain ifa st where s: "arp_setup env [''-D'', ''-w'', show_nat n, ''-I'', dev, ip] = (Ret (), st)"
    and st: "st = started env dev sll ba a ifa
       (arp_init\<lparr>dad := 1, quit_on_reply := True, arp_timeout := int n, dev_name := Some dev, arp_target := ip\<rparr>)"
    using dad_setup[OF assms(1-5,7)] .
  have t: "tv_sec tv \<noteq> 0" using zdiv_mono1[OF assms(8), of 1000000] by (simp add: tv_sec_def)
  have x: "sll_halen sll \<le> 120" using assms(1) by (simp add: arp_ready_def)
  obtain q s3 where p: "send_pack now err (ticked tv st) = (q, s3)" by (cases "send_pack now err (ticked tv st)")
  have m: "me st = sll" "arp_dst st = a" "arp_timeout st = int n" "dad st \<noteq> 0" "unsolicited st = 0" "arp_src st = 0"
    "arp_count st = - 1" "start_time st = 0" "last_time st = 0"
    by (simp_all add: st started_def arp_init_def)
  have q: "q = Ret ()" using send_pack_effect(5)[OF p] x m(1) by simp
  have u: "unsolicited s3 = 0" using send_pack_effect(1)[OF p] m(5) by (simp add: same_setup_def)
  have z: "start_time (ticked tv st) = tv" using m(8) by (simp add: ticked_def tv_sec_def)
  have r: "catcher tv now err st = (Ret (), s3)" using p q u m z by (simp add: catcher_unfold tv_sec_def)
  note e = catcher_effect[OF r]
  have "running st" using fresh_setup[of env "[''-D'', ''-w'', show_nat n, ''-I'', dev, ip]"] s fresh_running by simp
  then have "detecting tv s3" using e m t x z assms(6) by (simp add: detecting_def same_setup_def)
  moreover have "arp_main env [''-D'', ''-w'', show_nat n, ''-I'', dev, ip] (tv, now, err) evs = arp_run evs s3" for evs
    using s r by (simp add: arp_main_def)
  ultimately show thesis using that e(1) m by (simp add: same_setup_def)
qed

text \<open>
  C19. The whole program refines the specification of duplicate address detection: started as
  \<open>send_arp -D -w n -I device address\<close> on a working interface, for every sequence of alarms, packets and
  signals it is, after these events, exactly in the state the specification gives: ended with status 1 by
  the first claim of the address by other hardware, with 0 by the first alarm after \<open>n\<close> and a half
  seconds or by SIGINT, or still running.
\<close>

theorem dad_refines:
  assumes "arp_ready env dev sll ba" and "operand dev" and "operand ip" and "inet_aton ip = Some a" and "a \<noteq> 0"
    and "0 < n" and "int n \<le> INT_MAX" and "tv \<ge> 1000000" and "list_all wf_event evs"
  shows "fst (arp_main env [''-D'', ''-w'', show_nat n, ''-I'', dev, ip] (tv, now, err) evs) =
    dad_spec sll a (tv + int n * 1000000 + 500000) evs"
proof -
  obtain st where "detecting tv st" "me st = sll" "arp_dst st = a" "arp_timeout st = int n"
    "\<And>evs. arp_main env [''-D'', ''-w'', show_nat n, ''-I'', dev, ip] (tv, now, err) evs = arp_run evs st"
    using dad_first[OF assms(1-8)] by blast
  then show ?thesis using detecting_run[of tv st evs] assms(9) by simp
qed

theorem dad_refines_witness:
  "fst (arp_main demo_arp_env [''-D'', ''-w'', show_nat 2, ''-I'', ''eth0'', ''10.0.0.1''] (1000000, 1000001, 28)
     [Alarm 2000000 2000001 28, Alarm 4000000 4000001 28]) = Exit 0"
  using dad_refines[OF demo_arp_ready _ _ demo_ip, of 2 1000000 "[Alarm 2000000 2000001 28, Alarm 4000000 4000001 28]" 1000001 28]
  by (simp add: operand_def INT_MAX_def claims_def)

lemma arp_run_append: "arp_run (evs @ es) st = and_then (arp_run evs) (\<lambda>_. arp_run es) st"
proof (induction evs arbitrary: st)
  case (Cons e evs)
  then show ?case by (auto simp: and_then_def split: prod.split result.split)
qed simp

lemma arp_run_stop: "fst (arp_run evs st) = Exit c \<Longrightarrow> fst (arp_run (evs @ es) st) = Exit c"
  by (cases "arp_run evs st") (simp add: arp_run_append)

lemma dad_claim_ends:
  assumes "arp_ready env dev sll ba" and "operand dev" and "operand ip" and "inet_aton ip = Some a" and "a \<noteq> 0"
    and "0 < n" and "int n \<le> INT_MAX" and "tv \<ge> 1000000" and "list_all wf_event evs"
    and "fst (arp_main env [''-D'', ''-w'', show_nat n, ''-I'', dev, ip] (tv, now, err) evs) = Ret ()"
    and "claims sll a e" and "wf_event e"
  shows "fst (arp_main env [''-D'', ''-w'', show_nat n, ''-I'', dev, ip] (tv, now, err) (evs @ e # rest)) = Exit 1"
proof -
  obtain st where d: "detecting tv st" "me st = sll" "arp_dst st = a" "arp_timeout st = int n"
    "\<And>evs. arp_main env [''-D'', ''-w'', show_nat n, ''-I'', dev, ip] (tv, now, err) evs = arp_run evs st"
    using dad_first[OF assms(1-8)] by blast
  have "dad_spec sll a t (evs @ [e]) = Exit 1" if "dad_spec sll a t evs = Ret ()" for t
    using that assms(11) by (induction evs) (auto split: arp_event.splits if_splits)
  then have "fst (arp_run (evs @ [e]) st) = Exit 1"
    using detecting_run[OF d(1)] d(2-5) assms(9,10,12) by simp
  then show ?thesis using arp_run_stop[of "evs @ [e]" st 1 rest] d(5) by simp
qed

lemma announcement_claims:
  assumes "announcement sll' a p" and "sll_halen sll' = sll_halen sll" and "sll_halen sll' \<le> length (sll_addr sll')"
    and "take (sll_halen sll) (sll_addr sll') \<noteq> take (sll_halen sll) (sll_addr sll)"
  shows "claims sll a (Packet (p @ pad) (length p) PACKET_BROADCAST (sll_hatype sll'))"
proof -
  obtain thw where t: "length thw = sll_halen sll" and p: "p = arp_frame
      (if sll_hatype sll' = ARPHRD_FDDI then ARPHRD_ETHER else sll_hatype sll') ARPOP_REQUEST (take (sll_halen sll) (sll_addr sll')) a thw a"
    using assms(1,2) by (auto simp: announcement_def)
  have n: "length p = 8 + 2 * (4 + sll_halen sll)" using t assms(2,3) by (simp add: p arp_frame_def)
  show ?thesis unfolding claims_def
    by (rule exI[of _ "if sll_hatype sll' = ARPHRD_FDDI then ARPHRD_ETHER else sll_hatype sll'"], rule exI[of _ ARPOP_REQUEST],
        rule exI[of _ "take (sll_halen sll) (sll_addr sll')"], rule exI[of _ thw], rule exI[of _ a])
      (use assms t n in \<open>simp add: p plausible_def min_absorb2\<close>)
qed

text \<open>
  C20. Two hosts: while one host tests an address with \<open>send_arp -D -w n -I device address\<close> and another announces it,
  an announcement that arrives before the deadline, while no other event has ended the test, ends it with
  status 1; \<open>announcement\<close> is what \<open>send_arp -r\<close> sends.
\<close>

theorem announcement_detected:
  assumes "arp_ready env dev sll ba" and "operand dev" and "operand ip" and "inet_aton ip = Some a" and "a \<noteq> 0"
    and "0 < n" and "int n \<le> INT_MAX" and "tv \<ge> 1000000" and "list_all wf_event evs"
    and "fst (arp_main env [''-D'', ''-w'', show_nat n, ''-I'', dev, ip] (tv, now, err) evs) = Ret ()"
    and "arp_ready env' dev' sll' ba'" and "sll_hatype sll' < 65536" and "sll_halen sll' = sll_halen sll"
    and "take (sll_halen sll) (sll_addr sll') \<noteq> take (sll_halen sll) (sll_addr sll)"
    and "operand dev'" and "operand x" and "operand y" and "0 < m" and "int m \<le> INT_MAX"
    and "spaced 0 (Alarm tv' now' err' # evs')" and "m \<le> Suc (alarms evs')"
    and "p \<in> set (arp_wire (snd (arp_main env' [''-i'', ms, ''-r'', show_nat m, ''-p'', pf, dev', ip, ''auto'', x, y]
        (tv', now', err') evs')))" and "length (p @ pad) = 4096"
  shows "fst (arp_main env [''-D'', ''-w'', show_nat n, ''-I'', dev, ip] (tv, now, err)
      (evs @ Packet (p @ pad) (length p) PACKET_BROADCAST (sll_hatype sll') # rest)) = Exit 1"
proof -
  have "announcement sll' a p"
    using gratuitous_main[OF assms(11,15,3,16,17,4,5,18,19,20,21), of ms pf] assms(22) by auto
  moreover have "sll_halen sll' \<le> length (sll_addr sll')" using assms(11) by (simp add: arp_ready_def)
  ultimately have "claims sll a (Packet (p @ pad) (length p) PACKET_BROADCAST (sll_hatype sll'))"
    using announcement_claims assms(13,14) by simp
  then show ?thesis using dad_claim_ends[OF assms(1-10)] assms(12,23) by simp
qed

definition demo_sll2 :: sockaddr_ll where
  "demo_sll2 = demo_sll\<lparr>sll_addr := [2, 0, 0, 0, 0, 9, 0, 0]\<rparr>"

definition demo_arp_env2 :: arp_env where
  "demo_arp_env2 = demo_arp_env\<lparr>arp_sockname := Some demo_sll2\<rparr>"

lemma demo_arp_ready2: "arp_ready demo_arp_env2 ''eth0'' demo_sll2 (replicate 6 0xFF)"
  using demo_arp_ready by (simp add: arp_ready_def demo_arp_env2_def demo_sll2_def demo_sll_def demo_arp_env_def)

lemma demo_dad_running:
  "fst (arp_main demo_arp_env [''-D'', ''-w'', show_nat 2, ''-I'', ''eth0'', ''10.0.0.1''] (1000000, 1000001, 28) []) = Ret ()"
proof -
  obtain st where "\<And>evs. arp_main demo_arp_env [''-D'', ''-w'', show_nat 2, ''-I'', ''eth0'', ''10.0.0.1''] (1000000, 1000001, 28) evs = arp_run evs st"
    using dad_first[OF demo_arp_ready _ _ demo_ip, of 2 1000000 1000001 28] by (auto simp: operand_def INT_MAX_def)
  then show ?thesis by simp
qed

theorem announcement_detected_witness:
  "\<exists>p. p \<in> set (arp_wire (snd (arp_main demo_arp_env2 [''-i'', ''200'', ''-r'', show_nat 1, ''-p'', ''x'', ''eth0'', ''10.0.0.1'', ''auto'', ''x'', ''y'']
     (1000000, 1000001, 28) []))) \<and>
   fst (arp_main demo_arp_env [''-D'', ''-w'', show_nat 2, ''-I'', ''eth0'', ''10.0.0.1''] (1000000, 1000001, 28)
     ([] @ Packet (p @ replicate 4068 0) (length p) PACKET_BROADCAST 1 # [])) = Exit 1"
proof -
  let ?w = "arp_wire (snd (arp_main demo_arp_env2 [''-i'', ''200'', ''-r'', show_nat 1, ''-p'', ''x'', ''eth0'', ''10.0.0.1'', ''auto'', ''x'', ''y'']
     (1000000, 1000001, 28) []))"
  have s: "operand ''eth0''" "operand ''10.0.0.1''" "operand ''x''" "operand ''y''" "int 1 \<le> INT_MAX" "int 2 \<le> INT_MAX"
    "spaced 0 [Alarm 1000000 1000001 28]" "(1::nat) \<le> Suc (alarms [])" "(0x0100000A :: 32 word) \<noteq> 0"
    by (simp_all add: operand_def INT_MAX_def)
  have w: "length ?w = 1" "\<forall>p\<in>set ?w. announcement demo_sll2 0x0100000A p"
    using gratuitous_main[OF demo_arp_ready2 s(1-4) demo_ip s(9) zero_less_one s(5,7,8), of "''200''" "''x''"] by auto
  then obtain p where p: "p \<in> set ?w" "announcement demo_sll2 0x0100000A p" by (cases ?w) auto
  then have n: "length (p @ replicate 4068 0) = 4096"
    by (auto simp: announcement_def arp_frame_def demo_sll2_def demo_sll_def)
  have h: "sll_hatype demo_sll2 = 1" "sll_hatype demo_sll2 < 65536" "sll_halen demo_sll2 = sll_halen demo_sll"
    "take (sll_halen demo_sll) (sll_addr demo_sll2) \<noteq> take (sll_halen demo_sll) (sll_addr demo_sll)"
    by (simp_all add: demo_sll2_def demo_sll_def)
  show ?thesis
    using announcement_detected[OF demo_arp_ready s(1,2) demo_ip s(9) zero_less_numeral s(6) order_refl _ demo_dad_running
        demo_arp_ready2 h(2-4) s(1,3,4) zero_less_one s(5,7,8) p(1) n, of "[]"] p(1) h(1) by auto
qed

theorem dad_verdict_witness:
  "\<exists>st. arp_main demo_arp_env [''-D'', ''-w'', show_nat 2, ''-I'', ''eth0'', ''10.0.0.1''] (1000000, 1000001, 28) [] = (Ret (), st) \<and>
     (fst (arp_step Sigint st) = Exit 1 \<longleftrightarrow> conflict st Sigint)"
proof -
  obtain st where d: "detecting 1000000 st"
    "\<And>evs. arp_main demo_arp_env [''-D'', ''-w'', show_nat 2, ''-I'', ''eth0'', ''10.0.0.1''] (1000000, 1000001, 28) evs = arp_run evs st"
    using dad_first[OF demo_arp_ready _ _ demo_ip, of 2 1000000 1000001 28] by (auto simp: operand_def INT_MAX_def)
  then have r: "arp_main demo_arp_env [''-D'', ''-w'', show_nat 2, ''-I'', ''eth0'', ''10.0.0.1''] (1000000, 1000001, 28) [] = (Ret (), st)" by simp
  show ?thesis using dad_verdict[OF r, of Sigint] r d(1) by (simp add: detecting_def)
qed

end
