(* ===== verification/Send_Arp_Libnet.thy ===== *)
theory Send_Arp_Libnet
  imports Pid_File Send_Arp_Run
begin

text \<open>
  The ARP tool \<^verbatim>\<open>src/tools/send_arp.libnet.c\<close>, built with version 1.1 of libnet: the conversion of
  hardware addresses, the packets, the pid file and the main program.  libnet is not part of the
  repository: the answers of its functions are arguments, by the number of the call, and a context is what
  the program passed to \<open>libnet_build_arp\<close> and \<open>libnet_build_ethernet\<close>.  Log messages, the SIGTERM handler,
  which ends the process with 0, are left out; the version for libnet 1.0 is in \<open>Send_Arp_Libnet10\<close>.
\<close>

section \<open>Hardware addresses\<close>

text \<open>\<open>strtol (bits, NULL, 16)\<close> of two characters, converted to a byte.\<close>

definition hex_byte :: "char \<Rightarrow> char \<Rightarrow> byte" where
  "hex_byte a b = (case scan_lx (cstr [a, b]) of None \<Rightarrow> 0 | Some (w, _) \<Rightarrow> ucast w)"

fun mac_loop :: "string \<Rightarrow> nat \<Rightarrow> nat \<Rightarrow> byte list result" where
  "mac_loop s 0 pos = Ret []"
| "mac_loop s (Suc k) pos =
     (let p = (if char_at s 0 = Some (CHR '':'') then pos + 1 else pos)
      in case (char_at s p, char_at s (p + 1)) of
           (Some a, Some b) \<Rightarrow>
             (case mac_loop s k (p + 2) of Ret bs \<Rightarrow> Ret (hex_byte a b # bs) | Exit e \<Rightarrow> Exit e | Fault \<Rightarrow> Fault)
         | _ \<Rightarrow> Fault)"

definition convert_macaddr :: "string \<Rightarrow> byte list result" where
  "convert_macaddr macaddr = mac_loop macaddr 6 0"

section \<open>Packets\<close>

definition ETHERTYPE_ARP :: nat where "ETHERTYPE_ARP = 0x0806"

text \<open>The arguments of \<open>libnet_build_arp\<close> and \<open>libnet_build_ethernet\<close>.\<close>

record arp_build =
  ln_hrd :: nat
  ln_pro :: nat
  ln_hln :: nat
  ln_pln :: nat
  ln_op :: nat
  ln_sha :: "byte list"
  ln_spa :: "byte list"
  ln_tha :: "byte list"
  ln_tpa :: "byte list"

record eth_build =
  eth_dst :: "byte list"
  eth_src :: "byte list"
  eth_type :: nat

record libnet_ctx =
  ctx_arp :: "arp_build option"
  ctx_eth :: "eth_build option"

record ln_env =
  ln_sigaction :: bool
  ln_init :: "nat \<Rightarrow> bool"
  ln_get_hwaddr :: "nat \<Rightarrow> byte list option"
  ln_name2addr4 :: "string \<Rightarrow> 32 word"
  ln_build_arp :: "nat \<Rightarrow> bool"
  ln_build_ethernet :: "nat \<Rightarrow> bool"
  ln_write :: "nat \<Rightarrow> int"
  pidfile_base :: string
  dir_made :: bool
  ln_pid :: pid_env

record ln_state =
  ln_calls :: nat
  ln_written :: "libnet_ctx list"
  ln_sleeps :: "int list"
  ln_pidfile :: pid_state

definition ln_call :: "ln_state \<Rightarrow> ln_state" where
  "ln_call st = st\<lparr>ln_calls := ln_calls st + 1\<rparr>"

definition get_hw_addr :: "ln_env \<Rightarrow> ln_state \<Rightarrow> byte list option \<times> ln_state" where
  "get_hw_addr env st =
     (let st1 = ln_call st
      in if \<not> ln_init env (ln_calls st) then (None, st1)
         else (ln_get_hwaddr env (ln_calls st1), ln_call st1))"

text \<open>A context in which both headers are built, or none.\<close>

definition mk_packet :: "ln_env \<Rightarrow> libnet_ctx \<Rightarrow> 32 word \<Rightarrow> byte list \<Rightarrow> nat \<Rightarrow> ln_state \<Rightarrow> libnet_ctx option \<times> ln_state" where
  "mk_packet env lntag ip macaddr arptype st =
     (if arptype \<noteq> ARPOP_REQUEST \<and> arptype \<noteq> ARPOP_REPLY then (None, st)
      else let target_mac = (if arptype = ARPOP_REQUEST then replicate 6 0 else macaddr);
               st1 = ln_call st
           in if \<not> ln_build_arp env (ln_calls st) then (None, st1)
              else let ctx1 = lntag\<lparr>ctx_arp := Some \<lparr>ln_hrd = ARPHRD_ETHER, ln_pro = ETH_P_IP, ln_hln = 6, ln_pln = 4, ln_op = arptype,
                                ln_sha = macaddr, ln_spa = mem32 ip, ln_tha = target_mac, ln_tpa = mem32 ip\<rparr>\<rparr>
                   in case get_hw_addr env st1 of
                        (None, st2) \<Rightarrow> (None, st2)
                      | (Some device_mac, st2) \<Rightarrow>
                          if \<not> ln_build_ethernet env (ln_calls st2) then (None, ln_call st2)
                          else (Some (ctx1\<lparr>ctx_eth := Some \<lparr>eth_dst = replicate 6 0xFF, eth_src = device_mac, eth_type = ETHERTYPE_ARP\<rparr>\<rparr>),
                                ln_call st2))"

definition send_arp :: "ln_env \<Rightarrow> libnet_ctx \<Rightarrow> ln_state \<Rightarrow> int \<times> ln_state" where
  "send_arp env lntag st = (ln_write env (ln_calls st), (ln_call st)\<lparr>ln_written := ln_written st @ [lntag]\<rparr>)"

section \<open>The pid file\<close>

text \<open>When \<open>mkdir\<close> fails because another process has made the directory meanwhile, all is well.\<close>

definition create_pid_directory_ln :: "ln_env \<Rightarrow> int" where
  "create_pid_directory_ln env =
     (let penv = ln_pid env in
      if \<not> dir_copy_ok penv then - 1
      else case pid_dir penv of
        Stat_Fails \<Rightarrow> - 1
      | Dir_Exists \<Rightarrow> 0
      | Not_A_Directory \<Rightarrow> - 1
      | Dir_Missing \<Rightarrow> if mkdir_ok penv \<or> dir_made env then 0 else - 1)"

definition write_pid_file_ln :: "ln_env \<Rightarrow> string \<Rightarrow> pid_state \<Rightarrow> int result \<times> pid_state" where
  "write_pid_file_ln env pidfilename ps =
     (if take 1 pidfilename \<noteq> ''/'' then (Ret (- 1), ps)
      else if create_pid_directory_ln env < 0 then (Ret (- 1), ps)
      else pid_take (ln_pid env) ps)"

text \<open>The default name of the pid file: the buffer has no room for the terminating null byte.\<close>

definition default_pidfile :: "string \<Rightarrow> string \<Rightarrow> string" where
  "default_pidfile base ipaddr =
     (let pidflen = length base + length ipaddr in cstr (snprintf_bytes pidflen (base @ ipaddr)))"

section \<open>The main program\<close>

fun ln_options :: "(char \<times> string) list \<Rightarrow> int \<times> int \<times> string option \<Rightarrow> (int \<times> int \<times> string option) option" where
  "ln_options [] r = Some r"
| "ln_options ((flag, optarg) # es) (msinterval, repeatcount, pidfilename) =
     (if flag = CHR ''i'' then ln_options es (strtol10 optarg, repeatcount, pidfilename)
      else if flag = CHR ''r'' then ln_options es (msinterval, atoi optarg, pidfilename)
      else if flag = CHR ''p'' then ln_options es (msinterval, repeatcount, Some optarg)
      else None)"

definition mssleep_half :: "int \<Rightarrow> ln_state \<Rightarrow> ln_state" where
  "mssleep_half ms st = st\<lparr>ln_sleeps := ln_sleeps st @ [if ms \<ge> 0 then ms div 2 else - ((- ms) div 2)]\<rparr>"

text \<open>The loop over the pairs with \<open>k\<close> still to send; the result is the last answer, -1 at first.\<close>

fun pair_loop :: "(libnet_ctx \<Rightarrow> ln_state \<Rightarrow> int \<times> ln_state) \<Rightarrow> libnet_ctx \<Rightarrow> libnet_ctx \<Rightarrow> int \<Rightarrow> nat \<Rightarrow> int \<times> ln_state \<Rightarrow> int \<times> ln_state" where
  "pair_loop send request reply ms 0 (c, st) = (c, st)"
| "pair_loop send request reply ms (Suc k) (c, st) =
     (case send request st of (c1, st1) \<Rightarrow>
        if c1 < 0 then (c1, st1)
        else case send reply (mssleep_half ms st1) of (c2, st2) \<Rightarrow>
          if c2 < 0 then (c2, st2)
          else pair_loop send request reply ms k (c2, if k \<noteq> 0 then mssleep_half ms st2 else st2))"

definition unlink_pidfile :: "ln_state \<Rightarrow> ln_state" where
  "unlink_pidfile st = st\<lparr>ln_pidfile := snd (unlink_pid (ln_pidfile st))\<rparr>"

definition to_lower :: "char \<Rightarrow> char" where
  "to_lower c = (let n = (of_char c :: nat) in if 65 \<le> n \<and> n \<le> 90 then char_of (n + 32) else c)"

text \<open>From the source hardware address on; \<open>unlink\<close> is called at every return, and its result ignored.\<close>

definition ln_announce :: "ln_env \<Rightarrow> string \<Rightarrow> byte list \<Rightarrow> int \<Rightarrow> int \<Rightarrow> ln_state \<Rightarrow> int \<times> ln_state" where
  "ln_announce env ipaddr src_mac ms repeatcount st =
     (let empty_ctx = \<lparr>ctx_arp = None, ctx_eth = None\<rparr>; st1 = ln_call st; st2 = ln_call st1
      in if \<not> ln_init env (ln_calls st) then (1, unlink_pidfile st1)
         else if \<not> ln_init env (ln_calls st1) then (1, unlink_pidfile st2)
         else let ip = ln_name2addr4 env ipaddr
              in if ip = - 1 then (1, unlink_pidfile st2)
                 else case mk_packet env empty_ctx ip src_mac ARPOP_REQUEST st2 of (request, st3) \<Rightarrow>
                   case mk_packet env empty_ctx ip src_mac ARPOP_REPLY st3 of (reply, st4) \<Rightarrow>
                     (case (request, reply) of
                        (Some rq, Some rp) \<Rightarrow>
                          (case pair_loop (send_arp env) rq rp ms (nat repeatcount) (- 1, st4) of (c, st5) \<Rightarrow>
                             (if c < 0 then 1 else 0, unlink_pidfile st5))
                      | _ \<Rightarrow> (1, unlink_pidfile st4)))"

definition ln_source :: "ln_env \<Rightarrow> string \<Rightarrow> ln_state \<Rightarrow> byte list option result \<times> ln_state" where
  "ln_source env macaddr st =
     (if map to_lower macaddr = ''auto'' then (case get_hw_addr env st of (m, st1) \<Rightarrow> (Ret m, st1))
      else case convert_macaddr macaddr of
        Ret m \<Rightarrow> (Ret (Some m), st) | Exit e \<Rightarrow> (Exit e, st) | Fault \<Rightarrow> (Fault, st))"

text \<open>The program, with the code that depends on the version of libnet as arguments.\<close>

definition ln_main_with :: "(string \<Rightarrow> ln_state \<Rightarrow> byte list option result \<times> ln_state) \<Rightarrow>
  (string \<Rightarrow> byte list \<Rightarrow> int \<Rightarrow> int \<Rightarrow> ln_state \<Rightarrow> int \<times> ln_state) \<Rightarrow> ln_env \<Rightarrow> string list \<Rightarrow> ln_state \<Rightarrow> int result \<times> ln_state" where
  "ln_main_with source announce env args st =
     (if \<not> ln_sigaction env then (Ret 1, st)
      else case getopt_all ''i:r:p:'' args of (es, ops) \<Rightarrow>
        case ln_options es (1000, 1, None) of
          None \<Rightarrow> (Ret 1, st)
        | Some (ms, repeatcount, pf) \<Rightarrow>
            (case ops of
               [device, ipaddr, macaddr, _, _] \<Rightarrow>
                 let pidfilename = (case pf of Some p \<Rightarrow> p | None \<Rightarrow> default_pidfile (pidfile_base env) ipaddr)
                 in (case write_pid_file_ln env pidfilename (ln_pidfile st) of
                       (Exit e, ps) \<Rightarrow> (Exit e, st\<lparr>ln_pidfile := ps\<rparr>)
                     | (Fault, ps) \<Rightarrow> (Fault, st\<lparr>ln_pidfile := ps\<rparr>)
                     | (Ret rc, ps) \<Rightarrow>
                         if rc < 0 then (Ret 1, st\<lparr>ln_pidfile := ps\<rparr>)
                         else and_then (source macaddr)
                           (\<lambda>m st1. case m of
                               None \<Rightarrow> (Ret 1, unlink_pidfile st1)
                             | Some src_mac \<Rightarrow> (case announce ipaddr src_mac ms repeatcount st1 of (rc, st2) \<Rightarrow> (Ret rc, st2)))
                           (st\<lparr>ln_pidfile := ps\<rparr>))
             | _ \<Rightarrow> (Ret 1, st)))"

definition ln_main :: "ln_env \<Rightarrow> string list \<Rightarrow> ln_state \<Rightarrow> int result \<times> ln_state" where
  "ln_main env = ln_main_with (ln_source env) (ln_announce env) env"

section \<open>Properties\<close>

abbreviation hexv :: "char \<Rightarrow> nat" where "hexv c \<equiv> the (hex_val c)"

lemma hex_not_NUL: "hex_val c \<noteq> None \<Longrightarrow> c \<noteq> NUL"
  by (auto simp: hex_val_def)

lemma hexv_less: "hex_val c \<noteq> None \<Longrightarrow> hexv c < 16"
  by (auto simp: hex_val_def Let_def split: if_splits)

lemma ucast_of_nat_byte: "ucast (of_nat n :: 64 word) = (of_nat n :: byte)"
  by (rule bit_word_eqI) (simp add: bit_simps)

lemma hex_byte_digits:
  assumes "hex_val a \<noteq> None" and "hex_val b \<noteq> None"
  shows "hex_byte a b = of_nat (16 * hexv a + hexv b)"
proof -
  have "scan_lx ([] @ [a, b] @ []) = Some (of_nat (min (hex_num [a, b]) 18446744073709551615), [])"
    using assms by (intro scan_lx_field) auto
  then show ?thesis using assms hexv_less[OF assms(1)] hexv_less[OF assms(2)] hex_not_NUL
    by (simp add: hex_byte_def cstr_Cons hex_num_def min_absorb1 ucast_of_nat_byte del: of_nat_add of_nat_mult)
qed

lemma hex_byte_colon:
  shows "hex_byte (CHR '':'') b = 0" and "hex_val a \<noteq> None \<Longrightarrow> hex_byte a (CHR '':'') = of_nat (hexv a)"
proof -
  show "hex_byte (CHR '':'') b = 0"
    by (simp add: hex_byte_def scan_lx_def cstr_Cons isspace_def hex_val_def)
  assume a: "hex_val a \<noteq> None"
  note n = hex_not_space[OF a] hex_not_NUL[OF a]
  have "take 2 [a, CHR '':''] \<noteq> ''0x''" "take 2 [a, CHR '':''] \<noteq> ''0X''" by simp_all
  moreover have "hex_val (CHR '':'') = None" by (simp add: hex_val_def)
  ultimately show "hex_byte a (CHR '':'') = of_nat (hexv a)"
    using a n hexv_less[OF a] by (auto simp: hex_byte_def scan_lx_def cstr_Cons hex_num_def min_absorb1 ucast_of_nat_byte)
qed

text \<open>
  The hardware address on the command line: twelve hexadecimal digits are converted to the six bytes they
  stand for; the usual form with colons is accepted as well, but the colons are read as digits, so
  the second, third, fifth and sixth byte are wrong and the last four digits are ignored.
\<close>

theorem convert_macaddr_forms:
  assumes "\<forall>c\<in>{a, b, c, d, e, f, g, h, i, j, k, l}. hex_val c \<noteq> None"
  shows "convert_macaddr [a, b, c, d, e, f, g, h, i, j, k, l] =
      Ret [of_nat (16 * hexv a + hexv b), of_nat (16 * hexv c + hexv d), of_nat (16 * hexv e + hexv f),
        of_nat (16 * hexv g + hexv h), of_nat (16 * hexv i + hexv j), of_nat (16 * hexv k + hexv l)] \<and>
    convert_macaddr [a, b, CHR '':'', c, d, CHR '':'', e, f, CHR '':'', g, h, CHR '':'', i, j, CHR '':'', k, l] =
      Ret [of_nat (16 * hexv a + hexv b), 0, of_nat (hexv d), of_nat (16 * hexv e + hexv f), 0, of_nat (hexv h)]"
proof -
  have "hex_val (CHR '':'') = None" by (simp add: hex_val_def)
  then have "a \<noteq> CHR '':''" using assms by auto
  then show ?thesis
    using assms by (simp add: convert_macaddr_def char_at_def eval_nat_numeral hex_byte_digits hex_byte_colon)
qed

theorem convert_macaddr_forms_witness:
  "convert_macaddr ''00:a0:cc:34:a8:78'' = Ret [0, 0, 0, 0xCC, 0, 4]"
  using convert_macaddr_forms[of "CHR ''0''" "CHR ''0''" "CHR ''a''" "CHR ''0''" "CHR ''c''" "CHR ''c''" "CHR ''3''"
    "CHR ''4''" "CHR ''a''" "CHR ''8''" "CHR ''7''" "CHR ''8''"]
  by (simp add: hex_val_def)

lemma default_pidfile_name:
  "c_string (base @ ip) \<Longrightarrow> ip \<noteq> [] \<Longrightarrow> base \<noteq> [] \<Longrightarrow> default_pidfile base ip = base @ butlast ip"
  using cstr_snprintf[of "base @ ip" "length base + length ip" "[]"]
  by (cases ip rule: rev_cases) (simp_all add: default_pidfile_def Let_def)

lemma kill_target_show_nat:
  assumes "int pid \<le> INT_MAX"
  shows "kill_target (strtoul10 (take 10 (show_nat pid))) = int pid"
proof -
  have "length (show_nat pid) \<le> 10" using assms length_show_nat[of pid 10] by (simp add: INT_MAX_def)
  then have "strtoul10 (take 10 (show_nat pid)) = pid" using assms by (simp add: INT_MAX_def ULONG_MAX_def)
  then show ?thesis using assms sint32_id[of "int pid"] by (simp add: kill_target_def)
qed

text \<open>
  The default pid file does not belong to one address: its name lacks the last character of the address, so
  two addresses that differ only there share the file, and a process that announces the one is
  killed by the next process that announces the other.
\<close>

theorem default_pidfile_shared:
  assumes "c_string (base @ ip)" and "c_string (base @ ip')" and "take 1 base = ''/''" and "ip \<noteq> []" and "ip' \<noteq> []"
    and "butlast ip = butlast ip'" and "create_pid_directory_ln env = 0" and "int (own_pid (ln_pid env)) \<le> INT_MAX"
    and "pid_text ps = Some (show_nat pid)" and "pid_script ps = []" and "int pid \<le> INT_MAX" and "0 < pid" and "pid \<noteq> own_pid (ln_pid env)"
  shows "default_pidfile base ip = default_pidfile base ip' \<and>
    fst (write_pid_file_ln env (default_pidfile base ip') ps) = Ret 0 \<and>
    signalled (snd (write_pid_file_ln env (default_pidfile base ip') ps)) = signalled ps @ [(int pid, Call_Ok)]"
proof -
  have b: "base \<noteq> []" using assms(3) by auto
  have n: "default_pidfile base ip = base @ butlast ip" "default_pidfile base ip' = base @ butlast ip'"
    using assms(1,2,4,5) b by (simp_all add: default_pidfile_name)
  have t: "take 1 (base @ butlast ip') = ''/''" using assms(3) b by (cases base) auto
  have l: "length (show_nat (own_pid (ln_pid env))) \<le> 10"
    using assms(8) length_show_nat[of "own_pid (ln_pid env)" 10] by (simp add: INT_MAX_def)
  have nz: "show_nat pid \<noteq> []" by simp
  have k: "kill_target (strtoul10 (take 10 (show_nat pid))) = int pid" by (rule kill_target_show_nat[OF assms(11)])
  have "\<not> hits_self (ln_pid env) (int pid)" using assms(12,13) by (simp add: hits_self_def)
  with pid_take_quiet(2)[OF assms(10) l assms(9) nz] k obtain st' where "pid_take (ln_pid env) ps = (Ret 0, st')"
    "signalled st' = signalled ps @ [(int pid, Call_Ok)]" by auto
  then show ?thesis using assms(6,7) n t by (simp add: write_pid_file_ln_def)
qed

definition demo_ln_env :: ln_env where
  "demo_ln_env = \<lparr>ln_sigaction = True, ln_init = (\<lambda>_. True), ln_get_hwaddr = (\<lambda>_. Some [2, 0, 0, 0, 0, 9]),
     ln_name2addr4 = (\<lambda>_. 0x0100000A), ln_build_arp = (\<lambda>_. True), ln_build_ethernet = (\<lambda>_. True), ln_write = (\<lambda>_. 42),
     pidfile_base = ''/run/send_arp-'', dir_made = False, ln_pid = demo_pid_env\<rparr>"

lemma demo_ln_pid: "write_pid_file_ln demo_ln_env (CHR ''/'' # name) no_pid_file = (Ret 0, demo_pid_held)"
  using demo_pid_take by (simp add: write_pid_file_ln_def demo_ln_env_def create_pid_directory_ln_def demo_pid_env_def)

theorem default_pidfile_shared_witness:
  "signalled (snd (write_pid_file_ln demo_ln_env (default_pidfile ''/run/send_arp-'' ''10.0.0.2'') (old_pid_file (show_nat 99)))) =
    [(99, Call_Ok)]"
proof -
  have c: "c_string (''/run/send_arp-'' @ ''10.0.0.1'')" "c_string (''/run/send_arp-'' @ ''10.0.0.2'')" by (simp_all add: c_string_def)
  from default_pidfile_shared[OF c, of demo_ln_env "old_pid_file (show_nat 99)" 99] show ?thesis
    by (simp add: demo_ln_env_def demo_pid_env_def create_pid_directory_ln_def INT_MAX_def old_pid_file_def no_pid_file_def pid_text_def)
qed

section \<open>The announcement\<close>

text \<open>What a request and a reply of the program hold.\<close>

definition ln_packet :: "nat \<Rightarrow> 32 word \<Rightarrow> byte list \<Rightarrow> byte list \<Rightarrow> libnet_ctx" where
  "ln_packet op ip mac device_mac =
     \<lparr>ctx_arp = Some \<lparr>ln_hrd = ARPHRD_ETHER, ln_pro = ETH_P_IP, ln_hln = 6, ln_pln = 4, ln_op = op, ln_sha = mac, ln_spa = mem32 ip,
        ln_tha = (if op = ARPOP_REQUEST then replicate 6 0 else mac), ln_tpa = mem32 ip\<rparr>,
      ctx_eth = Some \<lparr>eth_dst = replicate 6 0xFF, eth_src = device_mac, eth_type = ETHERTYPE_ARP\<rparr>\<rparr>"

text \<open>libnet works: every call succeeds and the interface keeps its hardware address.\<close>

definition libnet_works :: "ln_env \<Rightarrow> byte list \<Rightarrow> bool" where
  "libnet_works env mac \<longleftrightarrow> (\<forall>n. ln_init env n \<and> ln_get_hwaddr env n = Some mac \<and> ln_build_arp env n \<and> ln_build_ethernet env n \<and>
     ln_write env n \<ge> 0)"

lemma get_hw_addr_works: "libnet_works env mac \<Longrightarrow> \<exists>k. get_hw_addr env st = (Some mac, st\<lparr>ln_calls := k\<rparr>)"
  by (auto simp: get_hw_addr_def libnet_works_def Let_def ln_call_def)

lemma mk_packet_works:
  assumes "libnet_works env dm" and "op = ARPOP_REQUEST \<or> op = ARPOP_REPLY"
  shows "\<exists>k. mk_packet env \<lparr>ctx_arp = None, ctx_eth = None\<rparr> ip mac op st = (Some (ln_packet op ip mac dm), st\<lparr>ln_calls := k\<rparr>)"
proof -
  obtain k where "get_hw_addr env (ln_call st) = (Some dm, (ln_call st)\<lparr>ln_calls := k\<rparr>)" using get_hw_addr_works[OF assms(1)] by blast
  then show ?thesis using assms by (auto simp: mk_packet_def libnet_works_def Let_def ln_call_def ln_packet_def)
qed

lemma pair_loop_works:
  assumes "libnet_works env dm" and "0 < n"
  shows "\<exists>c k. pair_loop (send_arp env) rq rp ms n (c0, st) =
    (c, st\<lparr>ln_calls := k, ln_written := ln_written st @ concat (replicate n [rq, rp]),
       ln_sleeps := ln_sleeps st @ replicate (2 * n - 1) (if ms \<ge> 0 then ms div 2 else - ((- ms) div 2))\<rparr>) \<and> c \<ge> 0"
  using assms(2)
proof (induction n arbitrary: c0 st)
  case (Suc n)
  have w: "\<not> ln_write env k < 0" "0 \<le> ln_write env k" for k using assms(1) by (simp_all add: libnet_works_def not_less)
  show ?case
  proof (cases "n = 0")
    case True
    then show ?thesis using w
      by (intro exI[of _ "ln_write env (ln_calls st + 1)"] exI[of _ "ln_calls st + 2"]) (simp add: send_arp_def mssleep_half_def ln_call_def)
  next
    case False
    let ?x = "if ms \<ge> 0 then ms div 2 else - ((- ms) div 2)"
    let ?s = "mssleep_half ms (snd (send_arp env rp (mssleep_half ms (snd (send_arp env rq st)))))"
    obtain c k where p: "pair_loop (send_arp env) rq rp ms n (ln_write env (ln_calls st + 1), ?s) =
      (c, ?s\<lparr>ln_calls := k, ln_written := ln_written ?s @ concat (replicate n [rq, rp]),
       ln_sleeps := ln_sleeps ?s @ replicate (2 * n - 1) ?x\<rparr>)" "c \<ge> 0"
      using Suc.IH[of "ln_write env (ln_calls st + 1)" ?s] False by auto
    have e: "pair_loop (send_arp env) rq rp ms (Suc n) (c0, st) = pair_loop (send_arp env) rq rp ms n (ln_write env (ln_calls st + 1), ?s)"
      using w False by (simp add: send_arp_def mssleep_half_def ln_call_def)
    have "2 * Suc n - 1 = Suc (Suc (2 * n - 1))" using False by simp
    then have r: "replicate (2 * Suc n - 1) ?x = [?x, ?x] @ replicate (2 * n - 1) ?x" by (metis append_Cons append_Nil replicate_Suc)
    show ?thesis unfolding e r p(1) using p(2)
      by (intro exI[of _ c] exI[of _ k]) (simp add: send_arp_def mssleep_half_def ln_call_def)
  qed
qed simp

lemma ln_announce_works:
  assumes "libnet_works env dm" and "ln_name2addr4 env ip \<noteq> - 1" and "0 < n"
  shows "\<exists>k. ln_announce env ip mac ms (int n) st =
    (0, unlink_pidfile (st\<lparr>ln_calls := k, ln_written := ln_written st @ concat (replicate n
        [ln_packet ARPOP_REQUEST (ln_name2addr4 env ip) mac dm, ln_packet ARPOP_REPLY (ln_name2addr4 env ip) mac dm]),
       ln_sleeps := ln_sleeps st @ replicate (2 * n - 1) (if ms \<ge> 0 then ms div 2 else - ((- ms) div 2))\<rparr>))"
proof -
  let ?ip = "ln_name2addr4 env ip" and ?s2 = "ln_call (ln_call st)"
  let ?rq = "ln_packet ARPOP_REQUEST ?ip mac dm" and ?rp = "ln_packet ARPOP_REPLY ?ip mac dm"
  obtain k1 where 1: "mk_packet env \<lparr>ctx_arp = None, ctx_eth = None\<rparr> ?ip mac ARPOP_REQUEST ?s2 = (Some ?rq, ?s2\<lparr>ln_calls := k1\<rparr>)"
    using mk_packet_works[OF assms(1)] by blast
  obtain k2 where 2: "mk_packet env \<lparr>ctx_arp = None, ctx_eth = None\<rparr> ?ip mac ARPOP_REPLY (?s2\<lparr>ln_calls := k1\<rparr>) =
      (Some ?rp, ?s2\<lparr>ln_calls := k2\<rparr>)"
    using mk_packet_works[OF assms(1), of ARPOP_REPLY ?ip mac "?s2\<lparr>ln_calls := k1\<rparr>"] by auto
  obtain c k3 where 3: "pair_loop (send_arp env) ?rq ?rp ms n (- 1, ?s2\<lparr>ln_calls := k2\<rparr>) =
    (c, ?s2\<lparr>ln_calls := k3, ln_written := ln_written ?s2 @ concat (replicate n [?rq, ?rp]),
       ln_sleeps := ln_sleeps ?s2 @ replicate (2 * n - 1) (if ms \<ge> 0 then ms div 2 else - ((- ms) div 2))\<rparr>)" "c \<ge> 0"
    using pair_loop_works[OF assms(1,3), of ?rq ?rp ms "- 1" "?s2\<lparr>ln_calls := k2\<rparr>"] by auto
  have i: "ln_init env k" for k using assms(1) by (simp add: libnet_works_def)
  show ?thesis
    by (rule exI[of _ k3]) (use 1 2 3 i assms(2) in \<open>simp add: ln_announce_def Let_def; simp add: ln_call_def\<close>)
qed

lemma getopt_ln:
  assumes "operand dev" and "operand ip" and "operand mac" and "operand x" and "operand y"
  shows "getopt_all ''i:r:p:'' [''-i'', ms, ''-r'', n, ''-p'', pf, dev, ip, mac, x, y] =
    ([(CHR ''i'', ms), (CHR ''r'', n), (CHR ''p'', pf)], [dev, ip, mac, x, y])"
proof -
  have "getopt_all ''i:r:p:'' [dev, ip, mac, x, y] = ([], [dev, ip, mac, x, y])"
    using assms by (simp add: getopt_operands operand_def del: getopt_all.simps(2))
  then show ?thesis
    by (simp del: getopt_all.simps(2) add: getopt_all.simps(2)[of _ "''-i''"] getopt_all.simps(2)[of _ "''-r''"]
        getopt_all.simps(2)[of _ "''-p''"])
qed

lemma strtol10_show_nat: "int n \<le> LONG_MAX \<Longrightarrow> strtol10 (show_nat n) = int n"
  by (simp add: strtol10_def scan_digits show_nat_digits)

lemma libnet_main:
  assumes "libnet_works env mac" and "ln_name2addr4 env ip \<noteq> - 1" and "0 < n" and "int n \<le> INT_MAX" and "int ms \<le> LONG_MAX"
    and "operand dev" and "operand ip" and "operand x" and "operand y" and "ln_sigaction env"
    and "write_pid_file_ln env pf (ln_pidfile st) = (Ret 0, ps)"
  shows "\<exists>st'. ln_main env [''-i'', show_nat ms, ''-r'', show_nat n, ''-p'', pf, dev, ip, ''auto'', x, y] st = (Ret 0, st') \<and>
    ln_written st' = ln_written st @ concat (replicate n
      [ln_packet ARPOP_REQUEST (ln_name2addr4 env ip) mac mac, ln_packet ARPOP_REPLY (ln_name2addr4 env ip) mac mac]) \<and>
    ln_sleeps st' = ln_sleeps st @ replicate (2 * n - 1) (int (ms div 2)) \<and>
    ln_pidfile st' = snd (unlink_pid ps) \<and> (fst (unlink_pid ps) \<longrightarrow> pid_text (ln_pidfile st') = None)"
proof -
  have "operand ''auto''" by (simp add: operand_def)
  note g = getopt_ln[OF assms(6,7) this assms(8,9), of "show_nat ms" "show_nat n" pf]
  let ?st = "st\<lparr>ln_pidfile := ps\<rparr>"
  have a: "map to_lower ''auto'' = ''auto''" by (simp add: to_lower_def)
  obtain k where k: "get_hw_addr env ?st = (Some mac, ?st\<lparr>ln_calls := k\<rparr>)" using get_hw_addr_works[OF assms(1)] by blast
  then have s: "ln_source env ''auto'' ?st = (Ret (Some mac), ?st\<lparr>ln_calls := k\<rparr>)" unfolding ln_source_def a by simp
  have w: "ln_options [(CHR ''i'', show_nat ms), (CHR ''r'', show_nat n), (CHR ''p'', pf)] (1000, 1, None) = Some (int ms, int n, Some pf)"
    using atoi_show_nat[OF assms(4)] strtol10_show_nat[OF assms(5)] by simp
  obtain k2 where "ln_announce env ip mac (int ms) (int n) (?st\<lparr>ln_calls := k\<rparr>) =
    (0, unlink_pidfile ((?st\<lparr>ln_calls := k\<rparr>)\<lparr>ln_calls := k2, ln_written := ln_written st @ concat (replicate n
        [ln_packet ARPOP_REQUEST (ln_name2addr4 env ip) mac mac, ln_packet ARPOP_REPLY (ln_name2addr4 env ip) mac mac]),
       ln_sleeps := ln_sleeps st @ replicate (2 * n - 1) (int ms div 2)\<rparr>))"
    using ln_announce_works[OF assms(1-3), of mac "int ms" "?st\<lparr>ln_calls := k\<rparr>"] by auto
  then show ?thesis using g w s assms(10,11) unfolding ln_main_def ln_main_with_def
    by (simp add: unlink_pidfile_def unlink_pid_done zdiv_int)
qed

text \<open>
  C22. The announcement with libnet: \<open>send_arp -i ms -r n -p pidfile device address auto x y\<close>, when libnet works and
  the pid file can be written, sends \<open>n\<close> pairs of an ARP request and an ARP reply in turn, all from the hardware
  address of the device and from and for the announced address, pauses for half the interval between any
  two packets, calls \<open>unlink\<close> for the pid file, after which it is gone if that call works, and returns 0.
\<close>

theorem libnet_announcement:
  assumes "libnet_works env mac" and "ln_name2addr4 env ip \<noteq> - 1" and "0 < n" and "int n \<le> INT_MAX" and "int ms \<le> LONG_MAX"
    and "operand dev" and "operand ip" and "operand x" and "operand y" and "ln_sigaction env"
    and "write_pid_file_ln env pf (ln_pidfile st) = (Ret 0, ps)"
  shows "\<exists>st'. ln_main env [''-i'', show_nat ms, ''-r'', show_nat n, ''-p'', pf, dev, ip, ''auto'', x, y] st = (Ret 0, st') \<and>
    ln_written st' = ln_written st @ concat (replicate n
      [ln_packet ARPOP_REQUEST (ln_name2addr4 env ip) mac mac, ln_packet ARPOP_REPLY (ln_name2addr4 env ip) mac mac]) \<and>
    ln_sleeps st' = ln_sleeps st @ replicate (2 * n - 1) (int (ms div 2)) \<and>
    ln_pidfile st' = snd (unlink_pid ps) \<and> (fst (unlink_pid ps) \<longrightarrow> pid_text (ln_pidfile st') = None)"
  using assms by (rule libnet_main)

lemma demo_libnet_works: "libnet_works demo_ln_env [2, 0, 0, 0, 0, 9]"
  by (simp add: libnet_works_def demo_ln_env_def)

definition demo_ln_state :: ln_state where
  "demo_ln_state = \<lparr>ln_calls = 0, ln_written = [], ln_sleeps = [], ln_pidfile = no_pid_file\<rparr>"

lemma demo_ln_hyps:
  "ln_name2addr4 demo_ln_env ip \<noteq> - 1" "ln_sigaction demo_ln_env" "ln_name2addr4 demo_ln_env ip = 0x0100000A"
  "write_pid_file_ln demo_ln_env (CHR ''/'' # name) (ln_pidfile demo_ln_state) = (Ret 0, demo_pid_held)"
  using demo_ln_pid by (simp_all add: demo_ln_env_def demo_ln_state_def)

theorem libnet_announcement_witness:
  "\<exists>st. ln_main demo_ln_env [''-i'', show_nat 200, ''-r'', show_nat 5, ''-p'', CHR ''/'' # ''run/x'', ''eth0'', ''10.0.0.1'', ''auto'', ''x'', ''y''] demo_ln_state =
     (Ret 0, st) \<and> length (ln_written st) = 10 \<and> ln_sleeps st = replicate 9 100"
  using libnet_announcement[OF demo_libnet_works demo_ln_hyps(1) _ _ _ _ _ _ _ demo_ln_hyps(2,4), of 5 200 "''eth0''" "''10.0.0.1''" "''x''" "''y''" "''run/x''"]
  by (auto simp: operand_def INT_MAX_def LONG_MAX_def demo_ln_state_def length_concat sum_list_replicate)

lemma get_hw_addr_effect: "get_hw_addr env st = (m, st') \<Longrightarrow> ln_written st' = ln_written st \<and> ln_pidfile st' = ln_pidfile st"
  by (auto simp: get_hw_addr_def Let_def ln_call_def split: if_splits)

lemma mk_packet_effect:
  assumes "mk_packet env \<lparr>ctx_arp = None, ctx_eth = None\<rparr> ip mac op st = (m, st')"
  shows "ln_written st' = ln_written st" "ln_pidfile st' = ln_pidfile st" "m = Some ctx \<Longrightarrow> \<exists>dm. ctx = ln_packet op ip mac dm"
proof -
  obtain h s where h: "get_hw_addr env (ln_call st) = (h, s)" by (cases "get_hw_addr env (ln_call st)")
  from get_hw_addr_effect[OF h] have "ln_written s = ln_written st" "ln_pidfile s = ln_pidfile st" by (simp_all add: ln_call_def)
  then show "ln_written st' = ln_written st" "ln_pidfile st' = ln_pidfile st"
    using assms h by (auto simp: mk_packet_def Let_def ln_call_def split: if_splits option.splits)
  assume "m = Some ctx"
  then show "\<exists>dm. ctx = ln_packet op ip mac dm"
    using assms h by (auto simp: mk_packet_def Let_def ln_packet_def split: if_splits option.splits)
qed

lemma mssleep_half_simps [simp]:
  "ln_written (mssleep_half ms st) = ln_written st" "ln_pidfile (mssleep_half ms st) = ln_pidfile st"
  by (simp_all add: mssleep_half_def)

lemma send_arp_effect:
  "send_arp env p st = (c, st') \<Longrightarrow> ln_written st' = ln_written st @ [p] \<and> ln_pidfile st' = ln_pidfile st"
  by (auto simp: send_arp_def ln_call_def)

lemma pair_loop_effect:
  assumes "pair_loop (send_arp env) rq rp ms n (c0, st) = (c, st')"
  shows "ln_pidfile st' = ln_pidfile st \<and> (n = 0 \<longrightarrow> c = c0) \<and>
    (0 \<le> c \<longrightarrow> ln_written st' = ln_written st @ concat (replicate n [rq, rp]))"
  using assms
proof (induction n arbitrary: c0 st)
  case (Suc n)
  obtain c1 s1 where 1: "send_arp env rq st = (c1, s1)" by fastforce
  obtain c2 s2 where 2: "send_arp env rp (mssleep_half ms s1) = (c2, s2)" by fastforce
  let ?s = "if n \<noteq> 0 then mssleep_half ms s2 else s2"
  have e: "ln_written s1 = ln_written st @ [rq]" "ln_pidfile s1 = ln_pidfile st" "ln_written s2 = ln_written s1 @ [rp]"
    "ln_pidfile s2 = ln_pidfile s1"
    using send_arp_effect[OF 1] send_arp_effect[OF 2] by simp_all
  have p: "pair_loop (send_arp env) rq rp ms (Suc n) (c0, st) =
      (if c1 < 0 then (c1, s1) else if c2 < 0 then (c2, s2) else pair_loop (send_arp env) rq rp ms n (c2, ?s))"
    using 1 2 by simp
  consider "c < 0" "st' = s1" | "c < 0" "st' = s2" | "pair_loop (send_arp env) rq rp ms n (c2, ?s) = (c, st')"
    using Suc.prems unfolding p by (auto split: if_splits)
  then show ?case
  proof cases
    case 3
    from Suc.IH[OF this] e show ?thesis by (auto split: if_splits)
  qed (use e in simp_all)
qed simp

lemma ln_announce_success:
  assumes "ln_announce env ip mac ms rc st = (0, st')"
  shows "ln_pidfile st' = snd (unlink_pid (ln_pidfile st)) \<and> (\<exists>d1 d2. 0 < rc \<and> ln_name2addr4 env ip \<noteq> - 1 \<and>
    ln_written st' = ln_written st @ concat (replicate (nat rc)
      [ln_packet ARPOP_REQUEST (ln_name2addr4 env ip) mac d1, ln_packet ARPOP_REPLY (ln_name2addr4 env ip) mac d2]))"
proof -
  let ?ip = "ln_name2addr4 env ip" and ?s2 = "ln_call (ln_call st)" and ?e = "\<lparr>ctx_arp = None, ctx_eth = None\<rparr>"
  obtain m1 s3 where 1: "mk_packet env ?e ?ip mac ARPOP_REQUEST ?s2 = (m1, s3)" by fastforce
  obtain m2 s4 where 2: "mk_packet env ?e ?ip mac ARPOP_REPLY s3 = (m2, s4)" by fastforce
  have "?ip \<noteq> - 1" using assms by (auto simp: ln_announce_def Let_def split: if_splits)
  moreover obtain rq rp where m: "m1 = Some rq" "m2 = Some rp"
    using assms 1 2 by (auto simp: ln_announce_def Let_def split: if_splits option.splits)
  moreover obtain c s5 where 3: "pair_loop (send_arp env) rq rp ms (nat rc) (- 1, s4) = (c, s5)" by fastforce
  ultimately have c: "0 \<le> c" "st' = unlink_pidfile s5"
    using assms 1 2 by (auto simp: ln_announce_def Let_def split: if_splits)
  note l = pair_loop_effect[OF 3]
  obtain d1 where d1: "rq = ln_packet ARPOP_REQUEST ?ip mac d1" using mk_packet_effect(3)[OF 1] m by blast
  obtain d2 where d2: "rp = ln_packet ARPOP_REPLY ?ip mac d2" using mk_packet_effect(3)[OF 2] m by blast
  have "ln_written s4 = ln_written st" and pid: "ln_pidfile s4 = ln_pidfile st"
    using mk_packet_effect(1,2)[OF 1] mk_packet_effect(1,2)[OF 2] by (simp_all add: ln_call_def)
  moreover have "nat rc \<noteq> 0" using l c(1) by auto
  ultimately have "ln_written st' = ln_written st @ concat (replicate (nat rc) [rq, rp])" "0 < rc"
    using l c by (auto simp: unlink_pidfile_def)
  moreover have "ln_pidfile st' = snd (unlink_pid (ln_pidfile st))" using c(2) l pid by (simp add: unlink_pidfile_def)
  ultimately show ?thesis using d1 d2 \<open>?ip \<noteq> - 1\<close> by auto
qed

lemma ln_source_effect:
  assumes "ln_source env mac st = (r, st')"
  shows "ln_written st' = ln_written st" and "ln_pidfile st' = ln_pidfile st"
proof -
  obtain m s where "get_hw_addr env st = (m, s)" by fastforce
  with get_hw_addr_effect[OF this] show "ln_written st' = ln_written st" "ln_pidfile st' = ln_pidfile st"
    using assms by (auto simp: ln_source_def split: if_splits result.splits)
qed

text \<open>
  C23. When \<open>main\<close> of the libnet tool returns 0, the announcement is complete, whatever libnet and the system answer: at least
  one pair, and as many as \<open>-r\<close> says, of an ARP request and an ARP reply were written in turn, all with one sender hardware address and from and for one
  address; the pid file was made before, \<open>unlink\<close> was called for it at the end, and it is gone if that call worked.  A process that is
  ended by \<open>SIGTERM\<close> exits with 0 as well (\<open>byebye\<close>), at any point of the run and with the pid file kept: the exit code alone does not tell the two apart,
  and this theorem speaks of the return of \<open>main\<close>.
\<close>

theorem libnet_success:
  assumes "ln_main env args st = (Ret 0, st')"
  shows "\<exists>ms n pf dev ipaddr macaddr x y ps rc mac d1 d2.
    getopt_all ''i:r:p:'' args = (fst (getopt_all ''i:r:p:'' args), [dev, ipaddr, macaddr, x, y]) \<and>
    ln_options (fst (getopt_all ''i:r:p:'' args)) (1000, 1, None) = Some (ms, int n, pf) \<and> 0 < n \<and>
    write_pid_file_ln env (case pf of Some p \<Rightarrow> p | None \<Rightarrow> default_pidfile (pidfile_base env) ipaddr) (ln_pidfile st) = (Ret rc, ps) \<and>
    0 \<le> rc \<and> ln_pidfile st' = snd (unlink_pid ps) \<and> (fst (unlink_pid ps) \<longrightarrow> pid_text (ln_pidfile st') = None) \<and>
    ln_written st' = ln_written st @ concat (replicate n
      [ln_packet ARPOP_REQUEST (ln_name2addr4 env ipaddr) mac d1, ln_packet ARPOP_REPLY (ln_name2addr4 env ipaddr) mac d2])"
proof -
  obtain es ops where g: "getopt_all ''i:r:p:'' args = (es, ops)" by fastforce
  obtain ms rc pf where w0: "ln_options es (1000, 1, None) = Some (ms, rc, pf)"
    using assms g by (auto simp: ln_main_def ln_main_with_def split: if_splits option.splits)
  obtain device ipaddr macaddr x y where ops: "ops = [device, ipaddr, macaddr, x, y]"
    using assms g w0 by (auto simp: ln_main_def ln_main_with_def split: if_splits list.splits)
  obtain r ps where w: "write_pid_file_ln env (case pf of Some p \<Rightarrow> p | None \<Rightarrow> default_pidfile (pidfile_base env) ipaddr) (ln_pidfile st) = (r, ps)"
    by fastforce
  obtain q s1 where s: "ln_source env macaddr (st\<lparr>ln_pidfile := ps\<rparr>) = (q, s1)" by fastforce
  have "\<exists>mac rc1. r = Ret rc1 \<and> 0 \<le> rc1 \<and> q = Ret (Some mac) \<and> ln_announce env ipaddr mac ms rc s1 = (0, st')"
    using assms g w0 ops w s unfolding ln_main_def ln_main_with_def
    by (auto simp: and_then_def Let_def split: if_splits result.splits option.splits prod.splits)
  then obtain mac rc1 where a: "r = Ret rc1" "0 \<le> rc1" "ln_announce env ipaddr mac ms rc s1 = (0, st')" by blast
  have e: "ln_written s1 = ln_written st" "ln_pidfile s1 = ps" using ln_source_effect[OF s] by simp_all
  from ln_announce_success[OF a(3)] e obtain d1 d2 where d: "ln_pidfile st' = snd (unlink_pid ps)" "0 < rc"
    "ln_written st' = ln_written st @ concat (replicate (nat rc)
      [ln_packet ARPOP_REQUEST (ln_name2addr4 env ipaddr) mac d1, ln_packet ARPOP_REPLY (ln_name2addr4 env ipaddr) mac d2])" by auto
  show ?thesis
    by (rule exI[of _ ms], rule exI[of _ "nat rc"], rule exI[of _ pf], rule exI[of _ device], rule exI[of _ ipaddr], rule exI[of _ macaddr],
        rule exI[of _ x], rule exI[of _ y], rule exI[of _ ps], rule exI[of _ rc1], rule exI[of _ mac], rule exI[of _ d1], rule exI[of _ d2])
      (use d g w0 ops w a unlink_pid_done[of ps] in simp)
qed

theorem libnet_success_witness:
  "\<exists>st. ln_main demo_ln_env [''-i'', show_nat 200, ''-r'', show_nat 5, ''-p'', CHR ''/'' # ''run/x'', ''eth0'', ''10.0.0.1'', ''auto'', ''x'', ''y''] demo_ln_state =
     (Ret 0, st) \<and> length (ln_written st) = 10"
proof -
  obtain st where m: "ln_main demo_ln_env [''-i'', show_nat 200, ''-r'', show_nat 5, ''-p'', CHR ''/'' # ''run/x'', ''eth0'', ''10.0.0.1'', ''auto'', ''x'', ''y''] demo_ln_state = (Ret 0, st)"
    using libnet_main[OF demo_libnet_works demo_ln_hyps(1) _ _ _ _ _ _ _ demo_ln_hyps(2,4), of 5 200 "''eth0''" "''10.0.0.1''" "''x''" "''y''" "''run/x''"]
    by (auto simp: operand_def INT_MAX_def LONG_MAX_def)
  have "atoi (show_nat 5) = int 5" by (rule atoi_show_nat) (simp add: INT_MAX_def)
  with libnet_success[OF m] have "length (ln_written st) = 10"
    by (auto simp: demo_ln_state_def length_concat sum_list_replicate)
  with m show ?thesis by blast
qed

section \<open>With the duplicate address detection of the other tool\<close>

text \<open>The layout of an ARP packet as libnet documents it: the arguments in network order, one after the other.\<close>

definition libnet_layout :: "(arp_build \<Rightarrow> byte list) \<Rightarrow> bool" where
  "libnet_layout frame_of \<longleftrightarrow>
     (\<forall>b. frame_of b = be16 (ln_hrd b) @ be16 (ln_pro b) @ [of_nat (ln_hln b), of_nat (ln_pln b)] @ be16 (ln_op b) @
        ln_sha b @ ln_spa b @ ln_tha b @ ln_tpa b)"

lemma ln_packet_claims:
  assumes "libnet_layout frame_of" and "op = ARPOP_REQUEST \<or> op = ARPOP_REPLY" and "length mac = 6" and "sll_halen sll = 6"
    and "mac \<noteq> take 6 (sll_addr sll)" and "ctx_arp (ln_packet op a mac dm) = Some b"
  shows "claims sll a (Packet (frame_of b @ pad) (length (frame_of b)) PACKET_BROADCAST ARPHRD_ETHER)"
proof -
  let ?thw = "if op = ARPOP_REQUEST then replicate 6 0 else mac"
  have f: "frame_of b = arp_frame ARPHRD_ETHER op mac a ?thw a"
    using assms(1,3,6) by (auto simp: libnet_layout_def ln_packet_def arp_frame_def)
  have n: "length (frame_of b) = 28" using assms(3) by (simp add: f arp_frame_def)
  show ?thesis unfolding claims_def n
    by (rule exI[of _ ARPHRD_ETHER], rule exI[of _ op], rule exI[of _ mac], rule exI[of _ ?thw], rule exI[of _ a])
      (use assms f in \<open>auto simp: plausible_def\<close>)
qed

text \<open>
  C35. The two tools together: a host tests an address with the Linux tool, \<open>send_arp -D -w n -I device address\<close>,
  while another announces it with the libnet tool, whose exit code is 0.  Every packet the
  announcement has written, request and reply alike, ends the test with status 1 if it arrives while
  the test runs.
\<close>

theorem libnet_announcement_detected:
  assumes "libnet_layout frame_of"
    and "arp_ready env dev sll ba" and "operand dev" and "operand ip" and "inet_aton ip = Some a" and "a \<noteq> 0"
    and "0 < n" and "int n \<le> INT_MAX" and "tv \<ge> 1000000" and "list_all wf_event evs"
    and "fst (arp_main env [''-D'', ''-w'', show_nat n, ''-I'', dev, ip] (tv, now, err) evs) = Ret ()"
    and "libnet_works lenv mac" and "ln_name2addr4 lenv ip = a" and "a \<noteq> - 1" and "0 < m" and "int m \<le> INT_MAX" and "int ms \<le> LONG_MAX"
    and "operand dev'" and "operand x" and "operand y" and "ln_sigaction lenv"
    and "write_pid_file_ln lenv pf (ln_pidfile st) = (Ret 0, ps)" and "ln_written st = []"
    and "ctx \<in> set (ln_written (snd (ln_main lenv [''-i'', show_nat ms, ''-r'', show_nat m, ''-p'', pf, dev', ip, ''auto'', x, y] st)))"
    and "ctx_arp ctx = Some b" and "length mac = 6" and "sll_halen sll = 6" and "mac \<noteq> take 6 (sll_addr sll)"
    and "length (frame_of b @ pad) = 4096"
  shows "fst (arp_main env [''-D'', ''-w'', show_nat n, ''-I'', dev, ip] (tv, now, err)
      (evs @ Packet (frame_of b @ pad) (length (frame_of b)) PACKET_BROADCAST ARPHRD_ETHER # rest)) = Exit 1"
proof -
  obtain st' where "ln_main lenv [''-i'', show_nat ms, ''-r'', show_nat m, ''-p'', pf, dev', ip, ''auto'', x, y] st = (Ret 0, st')"
    "ln_written st' = concat (replicate m [ln_packet ARPOP_REQUEST a mac mac, ln_packet ARPOP_REPLY a mac mac])"
    using libnet_main[OF assms(12) _ assms(15-18,4,19-22)] assms(13,14,23) by auto
  then obtain op where "ctx = ln_packet op a mac mac" "op = ARPOP_REQUEST \<or> op = ARPOP_REPLY"
    using assms(24) by (auto split: if_splits)
  then have "claims sll a (Packet (frame_of b @ pad) (length (frame_of b)) PACKET_BROADCAST ARPHRD_ETHER)"
    using ln_packet_claims[OF assms(1)] assms(25-28) by blast
  then show ?thesis using dad_claim_ends[OF assms(2-11)] assms(29) by (simp add: ARPHRD_ETHER_def)
qed

definition demo_layout :: "arp_build \<Rightarrow> byte list" where
  "demo_layout b = be16 (ln_hrd b) @ be16 (ln_pro b) @ [of_nat (ln_hln b), of_nat (ln_pln b)] @ be16 (ln_op b) @
     ln_sha b @ ln_spa b @ ln_tha b @ ln_tpa b"

theorem libnet_announcement_detected_witness:
  "\<exists>b. fst (arp_main demo_arp_env [''-D'', ''-w'', show_nat 2, ''-I'', ''eth0'', ''10.0.0.1''] (1000000, 1000001, 28)
     ([] @ Packet (demo_layout b @ replicate 4068 0) (length (demo_layout b)) PACKET_BROADCAST ARPHRD_ETHER # [])) = Exit 1"
proof -
  let ?w = "ln_written (snd (ln_main demo_ln_env [''-i'', show_nat 200, ''-r'', show_nat 1, ''-p'', CHR ''/'' # ''run/x'', ''eth0'', ''10.0.0.1'', ''auto'', ''x'', ''y'']
     demo_ln_state))"
  have s: "operand ''eth0''" "operand ''10.0.0.1''" "operand ''x''" "operand ''y''" "int 1 \<le> INT_MAX" "int 2 \<le> INT_MAX"
    "int 200 \<le> LONG_MAX" "(0x0100000A :: 32 word) \<noteq> 0" "(0x0100000A :: 32 word) \<noteq> - 1" "libnet_layout demo_layout"
    by (simp_all add: operand_def INT_MAX_def LONG_MAX_def libnet_layout_def demo_layout_def)
  obtain st where st: "ln_main demo_ln_env [''-i'', show_nat 200, ''-r'', show_nat 1, ''-p'', CHR ''/'' # ''run/x'', ''eth0'', ''10.0.0.1'', ''auto'', ''x'', ''y'']
      demo_ln_state = (Ret 0, st)" "ln_written st = ln_written demo_ln_state @ concat (replicate 1
        [ln_packet ARPOP_REQUEST (ln_name2addr4 demo_ln_env ''10.0.0.1'') [2, 0, 0, 0, 0, 9] [2, 0, 0, 0, 0, 9],
         ln_packet ARPOP_REPLY (ln_name2addr4 demo_ln_env ''10.0.0.1'') [2, 0, 0, 0, 0, 9] [2, 0, 0, 0, 0, 9]])"
    using libnet_main[OF demo_libnet_works demo_ln_hyps(1) zero_less_one s(5,7,1-4) demo_ln_hyps(2,4)] by blast
  let ?ctx = "ln_packet ARPOP_REPLY 0x0100000A [2, 0, 0, 0, 0, 9] [2, 0, 0, 0, 0, 9]"
  have c: "?ctx \<in> set ?w" using st by (simp add: demo_ln_hyps(3))
  obtain b where b: "ctx_arp ?ctx = Some b" by (simp add: ln_packet_def)
  then have l: "length (demo_layout b @ replicate 4068 0) = 4096" by (auto simp: ln_packet_def demo_layout_def)
  have h: "length [2, 0, 0, 0, 0, 9 :: byte] = 6" "sll_halen demo_sll = 6" "[2, 0, 0, 0, 0, 9] \<noteq> take 6 (sll_addr demo_sll)"
    "ln_written demo_ln_state = []" "list_all wf_event []"
    by (simp_all add: demo_sll_def demo_ln_state_def)
  show ?thesis
    using libnet_announcement_detected[OF s(10) demo_arp_ready s(1,2) demo_ip s(8) zero_less_numeral s(6) order_refl h(5) demo_dad_running
        demo_libnet_works demo_ln_hyps(3) s(9) zero_less_one s(5,7,1,3,4) demo_ln_hyps(2,4) h(4) c b h(1-3) l] by blast
qed

end
