(* ===== verification/Send_Arp_Libnet10.thy ===== *)
theory Send_Arp_Libnet10
  imports Send_Arp_Libnet
begin

text \<open>
  The code of \<^verbatim>\<open>src/tools/send_arp.libnet.c\<close> for version 1.0 of libnet, where a packet is a buffer and the link
  interface is opened once.  The answers are those of the other version: \<open>ln_init\<close> stands for
  \<open>libnet_open_link_interface\<close>, \<open>ln_name2addr4\<close> for \<open>libnet_name_resolve\<close>, \<open>ln_write\<close> for
  \<open>libnet_write_link_layer\<close>; \<open>ipk\<close> says whether \<open>libnet_init_packet\<close> succeeds.  A buffer is what was
  passed to the two building functions.  An \<open>unsigned long\<close> has 64 bits.
\<close>

definition get_hw_addr10 :: "ln_env \<Rightarrow> ln_state \<Rightarrow> byte list option \<times> ln_state" where
  "get_hw_addr10 env st =
     (let st1 = ln_call st
      in if \<not> ln_init env (ln_calls st) then (None, st1)
         else (ln_get_hwaddr env (ln_calls st1), ln_call st1))"

definition mk_packet10 :: "ln_env \<Rightarrow> (nat \<Rightarrow> bool) \<Rightarrow> 32 word \<Rightarrow> byte list \<Rightarrow> nat \<Rightarrow> ln_state \<Rightarrow> libnet_ctx option \<times> ln_state" where
  "mk_packet10 env ipk ip macaddr arptype st =
     (let st1 = ln_call st
      in if \<not> ipk (ln_calls st) then (None, st1)
         else case get_hw_addr10 env st1 of
           (None, st2) \<Rightarrow> (None, st2)
         | (Some device_mac, st2) \<Rightarrow>
             let st3 = ln_call st2
             in if \<not> ln_build_ethernet env (ln_calls st2) then (None, st3)
                else if arptype \<noteq> ARPOP_REQUEST \<and> arptype \<noteq> ARPOP_REPLY then (None, st3)
                else let target_mac = (if arptype = ARPOP_REQUEST then replicate 6 0 else macaddr);
                         st4 = ln_call st3
                     in if \<not> ln_build_arp env (ln_calls st3) then (None, st4)
                        else (Some \<lparr>ctx_arp = Some \<lparr>ln_hrd = ARPHRD_ETHER, ln_pro = ETH_P_IP, ln_hln = 6, ln_pln = 4, ln_op = arptype,
                                ln_sha = macaddr, ln_spa = mem32 ip, ln_tha = target_mac, ln_tpa = mem32 ip\<rparr>,
                              ctx_eth = Some \<lparr>eth_dst = replicate 6 0xFF, eth_src = device_mac, eth_type = ETHERTYPE_ARP\<rparr>\<rparr>, st4))"

definition send_arp10 :: "ln_env \<Rightarrow> libnet_ctx \<Rightarrow> ln_state \<Rightarrow> int \<times> ln_state" where
  "send_arp10 env buf st = (ln_write env (ln_calls st), (ln_call st)\<lparr>ln_written := ln_written st @ [buf]\<rparr>)"

text \<open>The address is a \<open>u_int32_t\<close>, compared with \<open>-1UL\<close>.\<close>

definition ln_announce10 :: "ln_env \<Rightarrow> (nat \<Rightarrow> bool) \<Rightarrow> string \<Rightarrow> byte list \<Rightarrow> int \<Rightarrow> int \<Rightarrow> ln_state \<Rightarrow> int \<times> ln_state" where
  "ln_announce10 env ipk ipaddr src_mac ms repeatcount st =
     (let ip = ln_name2addr4 env ipaddr; st1 = ln_call st
      in if (ucast ip :: 64 word) = - 1 then (1, unlink_pidfile st)
         else if \<not> ln_init env (ln_calls st) then (1, unlink_pidfile st1)
         else case mk_packet10 env ipk ip src_mac ARPOP_REQUEST st1 of (request, st2) \<Rightarrow>
           case mk_packet10 env ipk ip src_mac ARPOP_REPLY st2 of (reply, st3) \<Rightarrow>
             (case (request, reply) of
                (Some rq, Some rp) \<Rightarrow>
                  (case pair_loop (send_arp10 env) rq rp ms (nat repeatcount) (- 1, st3) of (c, st4) \<Rightarrow>
                     (if c < 0 then 1 else 0, unlink_pidfile st4))
              | _ \<Rightarrow> (1, unlink_pidfile st3)))"

definition ln_source10 :: "ln_env \<Rightarrow> string \<Rightarrow> ln_state \<Rightarrow> byte list option result \<times> ln_state" where
  "ln_source10 env macaddr st =
     (if map to_lower macaddr = ''auto'' then (case get_hw_addr10 env st of (m, st1) \<Rightarrow> (Ret m, st1))
      else case convert_macaddr macaddr of
        Ret m \<Rightarrow> (Ret (Some m), st) | Exit e \<Rightarrow> (Exit e, st) | Fault \<Rightarrow> (Fault, st))"

definition ln_main10 :: "ln_env \<Rightarrow> (nat \<Rightarrow> bool) \<Rightarrow> string list \<Rightarrow> ln_state \<Rightarrow> int result \<times> ln_state" where
  "ln_main10 env ipk = ln_main_with (ln_source10 env) (ln_announce10 env ipk) env"

section \<open>Properties\<close>

lemma send_arp10_eq: "send_arp10 env = send_arp env"
  by (simp add: fun_eq_iff send_arp10_def send_arp_def)

lemma ln_source10_eq: "ln_source10 env = ln_source env"
  by (simp add: fun_eq_iff ln_source10_def ln_source_def get_hw_addr10_def get_hw_addr_def)

text \<open>Widening does not reach \<open>-1UL\<close>: the test for a failed resolution never holds.\<close>

lemma widened_not_minus_one: "(ucast (w :: 32 word) :: 64 word) \<noteq> - 1"
proof
  assume "(ucast w :: 64 word) = - 1"
  then have "unat (ucast w :: 64 word) = unat (- 1 :: 64 word)" by simp
  moreover have u: "unat w < 2 ^ 32" using unsigned_less[of w] by simp
  then have "unat w < 2 ^ 64" by (rule order_less_trans) simp
  then have "unat (ucast w :: 64 word) = unat w" by (simp add: unsigned_ucast_eq take_bit_nat_eq_self_iff)
  moreover have "unat (- 1 :: 64 word) = 2 ^ 64 - 1" by (simp add: unsigned_minus_1_eq_mask mask_eq_exp_minus_1)
  ultimately show False using u by simp
qed

lemma mk_packet10_works:
  assumes "libnet_works env dm" and "\<forall>n. ipk n" and "op = ARPOP_REQUEST \<or> op = ARPOP_REPLY"
  shows "\<exists>k. mk_packet10 env ipk ip mac op st = (Some (ln_packet op ip mac dm), st\<lparr>ln_calls := k\<rparr>)"
  using assms by (auto simp: mk_packet10_def get_hw_addr10_def libnet_works_def Let_def ln_call_def ln_packet_def)

lemma ln_announce10_works:
  assumes "libnet_works env dm" and "\<forall>n. ipk n" and "0 < n"
  shows "\<exists>k. ln_announce10 env ipk ip mac ms (int n) st =
    (0, unlink_pidfile (st\<lparr>ln_calls := k, ln_written := ln_written st @ concat (replicate n
        [ln_packet ARPOP_REQUEST (ln_name2addr4 env ip) mac dm, ln_packet ARPOP_REPLY (ln_name2addr4 env ip) mac dm]),
       ln_sleeps := ln_sleeps st @ replicate (2 * n - 1) (if ms \<ge> 0 then ms div 2 else - ((- ms) div 2))\<rparr>))"
proof -
  let ?ip = "ln_name2addr4 env ip"
  let ?rq = "ln_packet ARPOP_REQUEST ?ip mac dm" and ?rp = "ln_packet ARPOP_REPLY ?ip mac dm"
  obtain k1 where 1: "mk_packet10 env ipk ?ip mac ARPOP_REQUEST (ln_call st) = (Some ?rq, st\<lparr>ln_calls := k1\<rparr>)"
    using mk_packet10_works[OF assms(1,2), of ARPOP_REQUEST ?ip mac "ln_call st"] by (auto simp: ln_call_def)
  obtain k2 where 2: "mk_packet10 env ipk ?ip mac ARPOP_REPLY (st\<lparr>ln_calls := k1\<rparr>) = (Some ?rp, st\<lparr>ln_calls := k2\<rparr>)"
    using mk_packet10_works[OF assms(1,2), of ARPOP_REPLY ?ip mac "st\<lparr>ln_calls := k1\<rparr>"] by auto
  obtain c k3 where 3: "pair_loop (send_arp env) ?rq ?rp ms n (- 1, st\<lparr>ln_calls := k2\<rparr>) =
    (c, st\<lparr>ln_calls := k3, ln_written := ln_written st @ concat (replicate n [?rq, ?rp]),
       ln_sleeps := ln_sleeps st @ replicate (2 * n - 1) (if ms \<ge> 0 then ms div 2 else - ((- ms) div 2))\<rparr>)" "c \<ge> 0"
    using pair_loop_works[OF assms(1,3), of ?rq ?rp ms "- 1" "st\<lparr>ln_calls := k2\<rparr>"] by auto
  have i: "ln_init env k" for k using assms(1) by (simp add: libnet_works_def)
  show ?thesis
    by (rule exI[of _ k3]) (use 1 2 3 i in \<open>simp add: ln_announce10_def Let_def widened_not_minus_one send_arp10_eq\<close>)
qed

lemma announce10_nothing:
  assumes "libnet_works env dm" and "\<forall>n. ipk n" and "rc \<le> 0" and "ln_name2addr4 env ip \<noteq> - 1"
  shows "\<exists>k. ln_announce10 env ipk ip mac ms rc st = (1, unlink_pidfile (st\<lparr>ln_calls := k\<rparr>))"
    and "\<exists>k. ln_announce env ip mac ms rc st = (1, unlink_pidfile (st\<lparr>ln_calls := k\<rparr>))"
proof -
  let ?ip = "ln_name2addr4 env ip" and ?e = "\<lparr>ctx_arp = None, ctx_eth = None\<rparr>"
  have i: "ln_init env k" for k using assms(1) by (simp add: libnet_works_def)
  obtain p1 k1 where 1: "mk_packet10 env ipk ?ip mac ARPOP_REQUEST (ln_call st) = (Some p1, st\<lparr>ln_calls := k1\<rparr>)"
    using mk_packet10_works[OF assms(1,2), of ARPOP_REQUEST ?ip mac "ln_call st"] by (auto simp: ln_call_def)
  obtain p2 k2 where 2: "mk_packet10 env ipk ?ip mac ARPOP_REPLY (st\<lparr>ln_calls := k1\<rparr>) = (Some p2, st\<lparr>ln_calls := k2\<rparr>)"
    using mk_packet10_works[OF assms(1,2), of ARPOP_REPLY ?ip mac "st\<lparr>ln_calls := k1\<rparr>"] by auto
  show "\<exists>k. ln_announce10 env ipk ip mac ms rc st = (1, unlink_pidfile (st\<lparr>ln_calls := k\<rparr>))"
    using 1 2 i assms(3) by (intro exI[of _ k2]) (simp add: ln_announce10_def Let_def widened_not_minus_one)
  obtain q1 k3 where 3: "mk_packet env ?e ?ip mac ARPOP_REQUEST (ln_call (ln_call st)) = (Some q1, st\<lparr>ln_calls := k3\<rparr>)"
    using mk_packet_works[OF assms(1), of ARPOP_REQUEST ?ip mac "ln_call (ln_call st)"] by (auto simp: ln_call_def)
  obtain q2 k4 where 4: "mk_packet env ?e ?ip mac ARPOP_REPLY (st\<lparr>ln_calls := k3\<rparr>) = (Some q2, st\<lparr>ln_calls := k4\<rparr>)"
    using mk_packet_works[OF assms(1), of ARPOP_REPLY ?ip mac "st\<lparr>ln_calls := k3\<rparr>"] by auto
  show "\<exists>k. ln_announce env ip mac ms rc st = (1, unlink_pidfile (st\<lparr>ln_calls := k\<rparr>))"
    using 3 4 i assms(3,4) by (intro exI[of _ k4]) (simp add: ln_announce_def Let_def)
qed

text \<open>States that differ only in the number of calls.\<close>

definition same_view :: "ln_state \<Rightarrow> ln_state \<Rightarrow> bool" where
  "same_view s s' \<longleftrightarrow> s\<lparr>ln_calls := 0\<rparr> = s'\<lparr>ln_calls := 0\<rparr>"

lemma announce_agree:
  assumes "libnet_works env dm" and "\<forall>n. ipk n" and "ln_name2addr4 env ip \<noteq> - 1"
  shows "fst (ln_announce10 env ipk ip mac ms rc st) = fst (ln_announce env ip mac ms rc st) \<and>
    same_view (snd (ln_announce10 env ipk ip mac ms rc st)) (snd (ln_announce env ip mac ms rc st))"
proof (cases "0 < rc")
  case True
  then obtain n where n: "rc = int n" "0 < n" using zero_less_imp_eq_int by blast
  from ln_announce10_works[OF assms(1,2) n(2), of ip mac ms st] ln_announce_works[OF assms(1,3) n(2), of mac ms st]
  show ?thesis unfolding n(1) by (auto simp: same_view_def unlink_pidfile_def)
next
  case False
  then have "rc \<le> 0" by simp
  from announce10_nothing[OF assms(1,2) this assms(3), of mac ms st] show ?thesis by (auto simp: same_view_def unlink_pidfile_def)
qed

text \<open>Every run of the program ends before the announcement, or with it.\<close>

lemma main_with_tail:
  assumes "getopt_all ''i:r:p:'' args = (es, [dv, ip, mac, x, y])" and "ln_options es (1000, 1, None) = Some (ms, rc, pf)" and "ln_sigaction env"
    and "write_pid_file_ln env (case pf of Some p \<Rightarrow> p | None \<Rightarrow> default_pidfile (pidfile_base env) ip) (ln_pidfile st) = (q, ps)"
    and "source mac (st\<lparr>ln_pidfile := ps\<rparr>) = (m, s1)"
  shows "ln_main_with source g env args st =
    (case q of Exit e \<Rightarrow> (Exit e, st\<lparr>ln_pidfile := ps\<rparr>) | Fault \<Rightarrow> (Fault, st\<lparr>ln_pidfile := ps\<rparr>)
     | Ret n \<Rightarrow> if n < 0 then (Ret 1, st\<lparr>ln_pidfile := ps\<rparr>)
         else (case m of Exit e \<Rightarrow> (Exit e, s1) | Fault \<Rightarrow> (Fault, s1) | Ret None \<Rightarrow> (Ret 1, unlink_pidfile s1)
               | Ret (Some src) \<Rightarrow> (Ret (fst (g ip src ms rc s1)), snd (g ip src ms rc s1))))"
  using assms by (simp add: ln_main_with_def and_then_def split: result.split prod.split option.split)

lemma main_with_cases:
  "(\<exists>r s. \<forall>g. ln_main_with source g env args st = (r, s)) \<or>
   (\<exists>ip mac ms rc s. \<forall>g. ln_main_with source g env args st = (Ret (fst (g ip mac ms rc s)), snd (g ip mac ms rc s)))"
proof -
  obtain es ops where g: "getopt_all ''i:r:p:'' args = (es, ops)" by fastforce
  show ?thesis
  proof (cases "ln_sigaction env \<and> ln_options es (1000, 1, None) \<noteq> None \<and> length ops = 5")
    case False
    then have "ln_main_with source f env args st = (Ret 1, st)" for f
      using g by (auto simp: ln_main_with_def split: option.split list.split)
    then show ?thesis by blast
  next
    case True
    then obtain ms rc pf where o: "ln_options es (1000, 1, None) = Some (ms, rc, pf)" "ln_sigaction env" by auto
    obtain dv ip mac x y where ops: "ops = [dv, ip, mac, x, y]" using True by (auto simp: length_Suc_conv eval_nat_numeral)
    obtain q ps where w: "write_pid_file_ln env (case pf of Some p \<Rightarrow> p | None \<Rightarrow> default_pidfile (pidfile_base env) ip) (ln_pidfile st) = (q, ps)"
      by fastforce
    obtain m s1 where m: "source mac (st\<lparr>ln_pidfile := ps\<rparr>) = (m, s1)" by fastforce
    note t = main_with_tail[OF g[unfolded ops] o w, of source, OF m]
    show ?thesis
    proof (cases "\<exists>n mc. q = Ret n \<and> \<not> n < 0 \<and> m = Ret (Some mc)")
      case True
      then obtain mc where "ln_main_with source h env args st = (Ret (fst (h ip mc ms rc s1)), snd (h ip mc ms rc s1))" for h
        using t by auto
      then show ?thesis by blast
    next
      case False
      then have "ln_main_with source h env args st = ln_main_with source (\<lambda>_ _ _ _ s. (0, s)) env args st" for h
        by (auto simp: t split: result.split option.split)
      then show ?thesis by (metis surj_pair)
    qed
  qed
qed

lemma main_with_agree:
  assumes "\<And>ip mac ms rc st. fst (f ip mac ms rc st) = fst (g ip mac ms rc st) \<and> same_view (snd (f ip mac ms rc st)) (snd (g ip mac ms rc st))"
  shows "fst (ln_main_with source f env args st) = fst (ln_main_with source g env args st) \<and>
    same_view (snd (ln_main_with source f env args st)) (snd (ln_main_with source g env args st))"
proof -
  consider r s where "\<forall>g. ln_main_with source g env args st = (r, s)"
    | ip mac ms rc s where "\<forall>g. ln_main_with source g env args st = (Ret (fst (g ip mac ms rc s)), snd (g ip mac ms rc s))"
    using main_with_cases[of source env args st] by blast
  then show ?thesis by cases (use assms in \<open>simp_all add: same_view_def\<close>)
qed

lemma all_true: "\<forall>n. (\<lambda>_. True) n"
  by simp

lemma announce_unresolved:
  "libnet_works env dm \<Longrightarrow> ln_name2addr4 env ip = - 1 \<Longrightarrow>
    ln_announce env ip mac ms rc st = (1, unlink_pidfile (ln_call (ln_call st)))"
  by (simp add: ln_announce_def Let_def libnet_works_def)

text \<open>The command line with an automatic hardware address, for either version.\<close>

lemma main_with_auto:
  assumes "0 < n" and "int n \<le> INT_MAX" and "int ms \<le> LONG_MAX"
    and "operand dev" and "operand ip" and "operand x" and "operand y" and "ln_sigaction env"
    and "write_pid_file_ln env pf (ln_pidfile st) = (Ret 0, ps)"
    and "source ''auto'' (st\<lparr>ln_pidfile := ps\<rparr>) = (Ret (Some mac), st1)" and "announce ip mac (int ms) (int n) st1 = (rc, st2)"
  shows "ln_main_with source announce env [''-i'', show_nat ms, ''-r'', show_nat n, ''-p'', pf, dev, ip, ''auto'', x, y] st = (Ret rc, st2)"
proof -
  have "operand ''auto''" by (simp add: operand_def)
  note g = getopt_ln[OF assms(4,5) this assms(6,7), of "show_nat ms" "show_nat n" pf]
  have w: "ln_options [(CHR ''i'', show_nat ms), (CHR ''r'', show_nat n), (CHR ''p'', pf)] (1000, 1, None) = Some (int ms, int n, Some pf)"
    using atoi_show_nat[OF assms(2)] strtol10_show_nat[OF assms(3)] by simp
  show ?thesis using g w assms(8-11) unfolding ln_main_with_def by simp
qed

text \<open>
  C32. The two versions of the code agree: when libnet works and the names resolve, the program built for
  libnet 1.0 ends like the one built for libnet 1.1 on every command line, with the same packets written in the same
  order, the same pauses and the same pid file.
\<close>

theorem libnet_versions_agree:
  assumes "libnet_works env dm" and "\<forall>n. ipk n" and "\<And>a. ln_name2addr4 env a \<noteq> - 1"
  shows "fst (ln_main10 env ipk args st) = fst (ln_main env args st) \<and>
    ln_written (snd (ln_main10 env ipk args st)) = ln_written (snd (ln_main env args st)) \<and>
    ln_sleeps (snd (ln_main10 env ipk args st)) = ln_sleeps (snd (ln_main env args st)) \<and>
    ln_pidfile (snd (ln_main10 env ipk args st)) = ln_pidfile (snd (ln_main env args st))"
proof -
  have "fst (ln_main10 env ipk args st) = fst (ln_main env args st) \<and> same_view (snd (ln_main10 env ipk args st)) (snd (ln_main env args st))"
    unfolding ln_main10_def ln_main_def ln_source10_eq by (rule main_with_agree) (rule announce_agree[OF assms])
  moreover have "same_view s s' \<Longrightarrow> ln_written s = ln_written s' \<and> ln_sleeps s = ln_sleeps s' \<and> ln_pidfile s = ln_pidfile s'" for s s'
    unfolding same_view_def by (metis (no_types, lifting) ln_state.select_convs(2-4) ln_state.surjective ln_state.update_convs(1))
  ultimately show ?thesis by blast
qed

theorem libnet_versions_agree_witness:
  "\<exists>st. ln_main10 demo_ln_env (\<lambda>_. True) [''-i'', show_nat 200, ''-r'', show_nat 5, ''-p'', CHR ''/'' # ''run/x'', ''eth0'', ''10.0.0.1'', ''auto'', ''x'', ''y''] demo_ln_state =
     (Ret 0, st) \<and> length (ln_written st) = 10"
proof -
  let ?args = "[''-i'', show_nat 200, ''-r'', show_nat 5, ''-p'', CHR ''/'' # ''run/x'', ''eth0'', ''10.0.0.1'', ''auto'', ''x'', ''y'']"
  obtain st where "ln_main demo_ln_env ?args demo_ln_state = (Ret 0, st)" "length (ln_written st) = 10"
    using libnet_main[OF demo_libnet_works demo_ln_hyps(1) _ _ _ _ _ _ _ demo_ln_hyps(2,4), of 5 200 "''eth0''" "''10.0.0.1''" "''x''" "''y''" "''run/x''"]
    by (auto simp: operand_def INT_MAX_def LONG_MAX_def demo_ln_state_def length_concat sum_list_replicate)
  with libnet_versions_agree[OF demo_libnet_works all_true demo_ln_hyps(1), of ?args demo_ln_state] show ?thesis
    by (intro exI[of _ "snd (ln_main10 demo_ln_env (\<lambda>_. True) ?args demo_ln_state)"]) (metis fst_conv prod.collapse snd_conv)
qed

text \<open>
  A name that does not resolve: the program built for libnet 1.1 exits with 1 and sends nothing; the one for
  libnet 1.0 does not notice, because the 32-bit result is compared with the 64-bit \<open>-1UL\<close>: it announces
  255.255.255.255 and exits with 0.
\<close>

theorem libnet10_unresolved:
  assumes "libnet_works env mac" and "\<forall>n. ipk n" and "ln_name2addr4 env ip = - 1"
    and "0 < n" and "int n \<le> INT_MAX" and "int ms \<le> LONG_MAX"
    and "operand dev" and "operand ip" and "operand x" and "operand y" and "ln_sigaction env"
    and "write_pid_file_ln env pf (ln_pidfile st) = (Ret 0, ps)"
  shows "\<exists>s10 s11. ln_main10 env ipk [''-i'', show_nat ms, ''-r'', show_nat n, ''-p'', pf, dev, ip, ''auto'', x, y] st = (Ret 0, s10) \<and>
    ln_written s10 = ln_written st @ concat (replicate n [ln_packet ARPOP_REQUEST (- 1) mac mac, ln_packet ARPOP_REPLY (- 1) mac mac]) \<and>
    ln_main env [''-i'', show_nat ms, ''-r'', show_nat n, ''-p'', pf, dev, ip, ''auto'', x, y] st = (Ret 1, s11) \<and> ln_written s11 = ln_written st"
proof -
  have a: "map to_lower ''auto'' = ''auto''" by (simp add: to_lower_def)
  obtain k where "get_hw_addr env (st\<lparr>ln_pidfile := ps\<rparr>) = (Some mac, (st\<lparr>ln_pidfile := ps\<rparr>)\<lparr>ln_calls := k\<rparr>)"
    using get_hw_addr_works[OF assms(1)] by blast
  then have s: "ln_source env ''auto'' (st\<lparr>ln_pidfile := ps\<rparr>) = (Ret (Some mac), (st\<lparr>ln_pidfile := ps\<rparr>)\<lparr>ln_calls := k\<rparr>)"
    unfolding ln_source_def a by simp
  let ?st = "(st\<lparr>ln_pidfile := ps\<rparr>)\<lparr>ln_calls := k\<rparr>"
  obtain s10 where 1: "ln_announce10 env ipk ip mac (int ms) (int n) ?st = (0, s10)" "ln_written s10 = ln_written st @
      concat (replicate n [ln_packet ARPOP_REQUEST (- 1) mac mac, ln_packet ARPOP_REPLY (- 1) mac mac])"
    using ln_announce10_works[OF assms(1,2,4), of ip mac "int ms" ?st] assms(3) by (auto simp: unlink_pidfile_def)
  let ?s11 = "unlink_pidfile (ln_call (ln_call ?st))"
  have 2: "ln_announce env ip mac (int ms) (int n) ?st = (1, ?s11)" by (rule announce_unresolved[OF assms(1,3)])
  have 3: "ln_written ?s11 = ln_written st" by (simp add: unlink_pidfile_def ln_call_def)
  note m = main_with_auto[OF assms(4-12)]
  show ?thesis
    using m[where source = "ln_source env" and announce = "ln_announce10 env ipk", OF s 1(1)]
      m[where source = "ln_source env" and announce = "ln_announce env", OF s 2] 1(2) 3
    by (intro exI[of _ s10] exI[of _ ?s11]) (simp add: ln_main10_def ln_main_def ln_source10_eq)
qed

lemma pid_file_resolver: "write_pid_file_ln (env\<lparr>ln_name2addr4 := f\<rparr>) = write_pid_file_ln env"
proof -
  have "create_pid_directory_ln (env\<lparr>ln_name2addr4 := f\<rparr>) = create_pid_directory_ln env"
    unfolding create_pid_directory_ln_def Let_def by (simp cong: if_cong split: dir_state.split)
  then show ?thesis by (simp add: fun_eq_iff write_pid_file_ln_def)
qed

theorem libnet10_unresolved_witness:
  "\<exists>s10. ln_main10 (demo_ln_env\<lparr>ln_name2addr4 := \<lambda>_. - 1\<rparr>) (\<lambda>_. True)
     [''-i'', show_nat 200, ''-r'', show_nat 1, ''-p'', CHR ''/'' # ''run/x'', ''eth0'', ''nowhere'', ''auto'', ''x'', ''y''] demo_ln_state = (Ret 0, s10) \<and>
     length (ln_written s10) = 2"
proof -
  let ?env = "demo_ln_env\<lparr>ln_name2addr4 := \<lambda>_. - 1\<rparr>"
  have w: "libnet_works ?env [2, 0, 0, 0, 0, 9]" using demo_libnet_works by (simp add: libnet_works_def)
  have p: "write_pid_file_ln ?env (CHR ''/'' # ''run/x'') (ln_pidfile demo_ln_state) = (Ret 0, demo_pid_held)"
    using demo_ln_hyps(4)[of "''run/x''"] by (simp add: pid_file_resolver)
  have s: "operand ''eth0''" "operand ''nowhere''" "operand ''x''" "operand ''y''" "int 1 \<le> INT_MAX" "int 200 \<le> LONG_MAX"
    "ln_sigaction ?env" "ln_name2addr4 ?env ''nowhere'' = - 1"
    using demo_ln_hyps(2) by (simp_all add: operand_def INT_MAX_def LONG_MAX_def)
  from libnet10_unresolved[OF w all_true s(8) zero_less_one s(5,6,1-4,7) p] show ?thesis
    by (auto simp: demo_ln_state_def)
qed

end
