(* ===== verification/Send_Arp_Sysfs.thy ===== *)
theory Send_Arp_Sysfs
  imports Send_Arp
begin

text \<open>
  The search for a device with libsysfs in \<^verbatim>\<open>src/tools/send_arp.linux.c\<close>: reading the attributes of the network
  devices, the choice, and the broadcast address.  libsysfs is not part of the repository: the devices
  it lists, each with the text of its attributes, are the argument \<open>sysfs_env\<close>.
\<close>

section \<open>Attributes\<close>

text \<open>\<open>strtoul (s, &ep, base)\<close>: the value, the text at \<open>ep\<close>, and whether \<open>errno\<close> is set.\<close>

definition base_digit :: "nat \<Rightarrow> char \<Rightarrow> bool" where
  "base_digit base c = (case hex_val c of None \<Rightarrow> False | Some d \<Rightarrow> d < base)"

definition base_num :: "nat \<Rightarrow> string \<Rightarrow> nat" where
  "base_num base ds = foldl (\<lambda>a c. base * a + the (hex_val c)) 0 ds"

definition strtoul_base :: "nat \<Rightarrow> string \<Rightarrow> nat \<times> string \<times> bool" where
  "strtoul_base base s =
     (let t = dropWhile isspace s;
          neg = (case t of c # _ \<Rightarrow> c = CHR ''-'' | [] \<Rightarrow> False);
          u = (case t of c # r \<Rightarrow> if c = CHR ''-'' \<or> c = CHR ''+'' then r else t | [] \<Rightarrow> t);
          v = (case u of a # b # c # r \<Rightarrow>
                 if base = 16 \<and> a = CHR ''0'' \<and> (b = CHR ''x'' \<or> b = CHR ''X'') \<and> base_digit 16 c then c # r else u
               | _ \<Rightarrow> u);
          ds = takeWhile (base_digit base) v; n = base_num base ds
      in if ds = [] then (0, s, False)
         else if n > ULONG_MAX then (ULONG_MAX, dropWhile (base_digit base) v, True)
         else (if neg then (ULONG_MAX + 1 - n) mod (ULONG_MAX + 1) else n, dropWhile (base_digit base) v, False))"

datatype devattr = DEVATTR_IFINDEX | DEVATTR_FLAGS | DEVATTR_ADDR_LEN | DEVATTR_BROADCAST

definition devattrs :: "devattr list" where
  "devattrs = [DEVATTR_IFINDEX, DEVATTR_FLAGS, DEVATTR_ADDR_LEN, DEVATTR_BROADCAST]"

fun devattr_name :: "devattr \<Rightarrow> string" where
  "devattr_name DEVATTR_IFINDEX = ''ifindex''"
| "devattr_name DEVATTR_FLAGS = ''flags''"
| "devattr_name DEVATTR_ADDR_LEN = ''addr_len''"
| "devattr_name DEVATTR_BROADCAST = ''broadcast''"

record sysfs_devattr_values =
  sv_ifname :: "string option"
  sv_ifindex :: nat
  sv_flags :: nat
  sv_addr_len :: nat
  sv_broadcast :: "byte list option"

definition no_values :: sysfs_devattr_values where
  "no_values = \<lparr>sv_ifname = None, sv_ifindex = 0, sv_flags = 0, sv_addr_len = 0, sv_broadcast = None\<rparr>"

text \<open>The result and the number that is stored in any case.\<close>

definition sysfs_devattr_ulong :: "nat \<Rightarrow> string \<Rightarrow> int \<times> nat" where
  "sysfs_devattr_ulong base ptr =
     (case strtoul_base base ptr of (n, ep, erange) \<Rightarrow>
        (if (ptr \<noteq> [] \<and> isspace (hd ptr)) \<or> erange \<or> (ep \<noteq> [] \<and> hd ep \<noteq> CHR 0x0A) then - 1 else 0, n))"

text \<open>\<open>sscanf (s, "%02hhx", &b)\<close>\<close>

definition scan_hhx :: "string \<Rightarrow> byte option" where
  "scan_hhx s = map_option (\<lambda>(w, _). ucast w) (scan_lx (take 2 (dropWhile isspace s)))"

text \<open>The loop over the bytes of an address; no value when the text is malformed.\<close>

fun mac_bytes :: "string \<Rightarrow> nat \<Rightarrow> nat \<Rightarrow> byte list option result" where
  "mac_bytes ptr i 0 = Ret (Some [])"
| "mac_bytes ptr i (Suc k) =
     (case (if i = 0 then Some (CHR '':'') else char_at ptr (i * 3 - 1)) of
        None \<Rightarrow> Fault
      | Some c \<Rightarrow>
          if c \<noteq> CHR '':'' then Ret None
          else case scan_hhx (drop (i * 3) ptr) of
            None \<Rightarrow> Ret None
          | Some b \<Rightarrow>
              (case mac_bytes ptr (i + 1) k of
                 Ret r \<Rightarrow> Ret (map_option ((#) b) r) | Exit e \<Rightarrow> Exit e | Fault \<Rightarrow> Fault))"

definition sysfs_devattr_macaddr :: "string \<Rightarrow> sysfs_devattr_values \<Rightarrow> int result \<times> sysfs_devattr_values" where
  "sysfs_devattr_macaddr ptr v =
     (case mac_bytes ptr 0 (sv_addr_len v mod 4294967296) of
        Ret None \<Rightarrow> (Ret (- 1), v)
      | Ret (Some m) \<Rightarrow> (Ret 0, v\<lparr>sv_broadcast := Some m\<rparr>)
      | Exit e \<Rightarrow> (Exit e, v)
      | Fault \<Rightarrow> (Fault, v))"

fun sysfs_handler :: "devattr \<Rightarrow> string \<Rightarrow> sysfs_devattr_values \<Rightarrow> int result \<times> sysfs_devattr_values" where
  "sysfs_handler DEVATTR_IFINDEX ptr v = (case sysfs_devattr_ulong 10 ptr of (rc, n) \<Rightarrow> (Ret rc, v\<lparr>sv_ifindex := n\<rparr>))"
| "sysfs_handler DEVATTR_FLAGS ptr v = (case sysfs_devattr_ulong 16 ptr of (rc, n) \<Rightarrow> (Ret rc, v\<lparr>sv_flags := n\<rparr>))"
| "sysfs_handler DEVATTR_ADDR_LEN ptr v = (case sysfs_devattr_ulong 10 ptr of (rc, n) \<Rightarrow> (Ret rc, v\<lparr>sv_addr_len := n\<rparr>))"
| "sysfs_handler DEVATTR_BROADCAST ptr v = sysfs_devattr_macaddr ptr v"

text \<open>The attributes of one device, in order; \<open>attr\<close> gives their text, none when there is none or it cannot be read.\<close>

fun read_attrs :: "(string \<Rightarrow> string option) \<Rightarrow> devattr list \<Rightarrow> sysfs_devattr_values \<Rightarrow> int result \<times> sysfs_devattr_values" where
  "read_attrs attr [] v = (Ret 0, v)"
| "read_attrs attr (a # as) v =
     (case attr (devattr_name a) of
        None \<Rightarrow> (Ret (- 1), v)
      | Some ptr \<Rightarrow> and_then (sysfs_handler a ptr) (\<lambda>rc v. if rc < 0 then (Ret rc, v) else read_attrs attr as v) v)"

section \<open>The search\<close>

definition IFF_RUNNING :: nat where "IFF_RUNNING = 0x40"

record sysfs_env =
  sysfs_devices :: "(string \<times> (string \<Rightarrow> string option)) list option"
  sysfs_strdup :: bool

text \<open>
  The loop over the devices: the values recorded so far and how many devices were taken, two at most;
  the flag says that the name could be copied.
\<close>

fun sysfs_loop :: "bool \<Rightarrow> arp \<Rightarrow> (string \<times> (string \<Rightarrow> string option)) list \<Rightarrow> sysfs_devattr_values \<times> nat \<Rightarrow>
    (bool \<times> sysfs_devattr_values \<times> nat) result" where
  "sysfs_loop dup st [] (sv, cnt) = Ret (True, sv, cnt)"
| "sysfs_loop dup st ((name, attr) # ds) (sv, cnt) =
     (if dev_name st \<noteq> None \<and> dev_name st \<noteq> Some name then sysfs_loop dup st ds (sv, cnt)
      else case read_attrs attr devattrs no_values of
        (Exit e, _) \<Rightarrow> Exit e
      | (Fault, _) \<Rightarrow> Fault
      | (Ret rc, v) \<Rightarrow>
          if rc < 0 then sysfs_loop dup st ds (sv, cnt)
          else case check_ifflags st (sv_flags v mod 4294967296) (dev_name st \<noteq> None) of
            Exit e \<Rightarrow> Exit e
          | Fault \<Rightarrow> Fault
          | Ret rc \<Rightarrow>
              if rc < 0 \<or> sv_addr_len v = 0 then sysfs_loop dup st ds (sv, cnt)
              else if sv_ifindex sv \<noteq> 0 \<and> and (sv_flags sv) IFF_RUNNING \<noteq> 0 then sysfs_loop dup st ds (sv, cnt)
              else if \<not> dup then Ret (False, sv, cnt)
              else if cnt \<noteq> 0 then Ret (True, v\<lparr>sv_ifname := Some name\<rparr>, cnt + 1)
              else sysfs_loop dup st ds (v\<lparr>sv_ifname := Some name\<rparr>, cnt + 1))"

text \<open>The state is that of the program and \<open>device.sysfs\<close>.\<close>

definition find_device_by_libsysfs ::
  "sysfs_env \<Rightarrow> arp \<times> sysfs_devattr_values option \<Rightarrow> int result \<times> (arp \<times> sysfs_devattr_values option)" where
  "find_device_by_libsysfs env = (\<lambda>(st, dev).
     let sv = (case dev of None \<Rightarrow> no_values | Some v \<Rightarrow> v) in
     case sysfs_devices env of
       None \<Rightarrow> (Ret (- 1), (st, Some sv))
     | Some ds \<Rightarrow>
         (case sysfs_loop (sysfs_strdup env) st ds (sv, 0) of
            Exit e \<Rightarrow> (Exit e, (st, Some sv))
          | Fault \<Rightarrow> (Fault, (st, Some sv))
          | Ret (dup, sv', cnt) \<Rightarrow>
              if \<not> dup then (Ret (- 1), (st, Some sv'))
              else let st' = (if cnt = 1 then st\<lparr>dev_ifindex := sv_ifindex sv' mod 4294967296, dev_name := sv_ifname sv'\<rparr> else st)
                   in (Ret (if dev_ifindex st' = 0 then 1 else 0), (st', Some sv'))))"

definition find_device_libsysfs ::
  "arp_env \<Rightarrow> sysfs_env \<Rightarrow> arp \<times> sysfs_devattr_values option \<Rightarrow> int result \<times> (arp \<times> sysfs_devattr_values option)" where
  "find_device_libsysfs env senv =
     (let lift = (\<lambda>f (st, dev). case f st of (r, st') \<Rightarrow> (r, (st', dev))) in
      and_then (lift (find_device_by_ifaddrs env)) (\<lambda>rc. if rc \<ge> 0 then Pair (Ret rc)
        else and_then (find_device_by_libsysfs senv) (\<lambda>rc. if rc \<ge> 0 then Pair (Ret rc) else lift (find_device_by_ioctl env))))"

definition set_device_broadcast_sysfs :: "sysfs_devattr_values option \<Rightarrow> nat \<Rightarrow> byte list option result" where
  "set_device_broadcast_sysfs dev balen =
     (case dev of
        None \<Rightarrow> Ret None
      | Some v \<Rightarrow>
          if sv_addr_len v \<noteq> balen then Ret None
          else (case sv_broadcast v of None \<Rightarrow> Fault | Some ba \<Rightarrow> Ret (Some (take balen ba))))"

section \<open>What the kernel prints\<close>

definition hex_char :: "nat \<Rightarrow> char" where
  "hex_char n = ''0123456789abcdef'' ! n"

fun show_base :: "nat \<Rightarrow> nat \<Rightarrow> string" where
  "show_base b n = (if n < b \<or> b < 2 then [hex_char n] else show_base b (n div b) @ [hex_char (n mod b)])"

declare show_base.simps [simp del]

lemma hex_char_cases:
  assumes "n < 16"
  shows "hex_val (hex_char n) = Some n"
proof -
  have "list_all (\<lambda>k. hex_val (hex_char k) = Some k) [0..<16]" by code_simp
  then show ?thesis using assms by (simp add: list_all_iff)
qed

lemma show_base_digits:
  assumes "2 \<le> b" and "b \<le> 16"
  shows "show_base b n \<noteq> [] \<and> (\<forall>c\<in>set (show_base b n). base_digit b c) \<and> base_num b (show_base b n) = n"
  using assms
proof (induction b n rule: show_base.induct)
  case (1 b n)
  show ?case
  proof (cases "n < b")
    case True
    then show ?thesis using 1(2,3) hex_char_cases[of n] by (subst (1 2 3) show_base.simps) (simp add: base_digit_def base_num_def)
  next
    case False
    have m: "n mod b < b" using 1(2) by simp
    then have h: "hex_val (hex_char (n mod b)) = Some (n mod b)" using 1(3) by (intro hex_char_cases) linarith
    have "show_base b n = show_base b (n div b) @ [hex_char (n mod b)]" using False 1(2) by (subst show_base.simps) simp
    then show ?thesis using 1 False m h by (auto simp: base_digit_def base_num_def)
  qed
qed

lemma digit_no_sign: "base_digit b c \<Longrightarrow> \<not> isspace c \<and> c \<noteq> CHR ''-'' \<and> c \<noteq> CHR ''+'' \<and> c \<noteq> CHR ''x'' \<and> c \<noteq> CHR ''X''"
  using hex_not_space[of c] by (auto simp: base_digit_def split: option.splits)

lemma digits_then_newline:
  assumes "\<forall>c\<in>set ds. base_digit b c"
  shows "takeWhile (base_digit b) (ds @ [CHR 0x0A]) = ds" "dropWhile (base_digit b) (ds @ [CHR 0x0A]) = [CHR 0x0A]"
  using assms by (simp_all add: base_digit_def hex_val_def)

text \<open>A number with a newline, for base 16 with its prefix, is read back.\<close>

lemma ulong_dec:
  assumes "n \<le> ULONG_MAX"
  shows "sysfs_devattr_ulong 10 (show_base 10 n @ [CHR 0x0A]) = (0, n)"
proof -
  let ?ds = "show_base 10 n"
  have d: "?ds \<noteq> []" "\<forall>c\<in>set ?ds. base_digit 10 c" "base_num 10 ?ds = n" using show_base_digits[of 10 n] by auto
  obtain c r where c: "?ds = c # r" using d(1) by (cases ?ds) auto
  then have s: "\<not> isspace c" "c \<noteq> CHR ''-''" "c \<noteq> CHR ''+''" using d(2) digit_no_sign[of 10 c] by auto
  have "(case ?ds @ [CHR 0x0A] of a # b # e # q \<Rightarrow>
      if (10::nat) = 16 \<and> a = CHR ''0'' \<and> (b = CHR ''x'' \<or> b = CHR ''X'') \<and> base_digit 16 e then e # q else ?ds @ [CHR 0x0A]
    | _ \<Rightarrow> ?ds @ [CHR 0x0A]) = ?ds @ [CHR 0x0A]"
    by (auto split: list.split)
  moreover have "dropWhile isspace (?ds @ [CHR 0x0A]) = ?ds @ [CHR 0x0A]" using c s by simp
  ultimately have "strtoul_base 10 (?ds @ [CHR 0x0A]) = (n, [CHR 0x0A], False)"
    using d digits_then_newline[OF d(2)] c s assms by (simp add: strtoul_base_def Let_def)
  then show ?thesis using c s by (simp add: sysfs_devattr_ulong_def)
qed

lemma ulong_hex:
  assumes "n \<le> ULONG_MAX"
  shows "sysfs_devattr_ulong 16 (''0x'' @ show_base 16 n @ [CHR 0x0A]) = (0, n)"
proof -
  let ?ds = "show_base 16 n"
  have d: "?ds \<noteq> []" "\<forall>c\<in>set ?ds. base_digit 16 c" "base_num 16 ?ds = n" using show_base_digits[of 16 n] by auto
  obtain c r where c: "?ds = c # r" using d(1) by (cases ?ds) auto
  then have s: "base_digit 16 c" using d(2) by simp
  have z: "\<not> isspace (CHR ''0'')" by (simp add: isspace_def)
  have "strtoul_base 16 (''0x'' @ ?ds @ [CHR 0x0A]) = (n, [CHR 0x0A], False)"
    using d digits_then_newline[OF d(2)] c s z assms by (simp add: strtoul_base_def Let_def)
  then show ?thesis using z by (simp add: sysfs_devattr_ulong_def)
qed

text \<open>Two digits for each byte, with colons between them.\<close>

definition hex_pair :: "byte \<Rightarrow> string" where
  "hex_pair b = [hex_char (unat b div 16), hex_char (unat b mod 16)]"

fun mac_text :: "byte list \<Rightarrow> string" where
  "mac_text [] = []"
| "mac_text [b] = hex_pair b"
| "mac_text (b # bs) = hex_pair b @ CHR '':'' # mac_text bs"


lemma hex_pair_scan: "scan_hhx (hex_pair b @ r) = Some b"
proof -
  have u: "unat b < 256" using unsigned_less[of b] by simp
  then have h: "hex_val (hex_char (unat b div 16)) = Some (unat b div 16)" "hex_val (hex_char (unat b mod 16)) = Some (unat b mod 16)"
    by (simp_all add: hex_char_cases less_mult_imp_div_less)
  note n = hex_not_space[of "hex_char (unat b div 16)"]
  let ?d = "[hex_char (unat b div 16), hex_char (unat b mod 16)]"
  have "take 2 (dropWhile isspace (hex_pair b @ r)) = ?d" using n h(1) by (simp add: hex_pair_def)
  moreover have "scan_lx ([] @ ?d @ []) = Some (of_nat (min (hex_num ?d) 18446744073709551615), [])"
    using h by (intro scan_lx_field) auto
  moreover have "hex_num ?d = unat b" using h by (simp add: hex_num_def)
  moreover have "ucast (of_nat (unat b) :: 64 word) = b" by (rule bit_word_eqI) (simp add: bit_simps)
  ultimately show ?thesis using u by (simp add: scan_hhx_def min_absorb1)
qed

lemma length_hex_pair [simp]: "length (hex_pair b) = 2"
  by (simp add: hex_pair_def)

lemma char_before:
  assumes "length pre = i * 3" and "i \<noteq> 0 \<Longrightarrow> last pre = CHR '':''"
  shows "(if i = 0 then Some (CHR '':'') else char_at (pre @ r) (i * 3 - 1)) = Some (CHR '':'')"
proof (cases "i = 0")
  case False
  then have "pre \<noteq> []" using assms(1) by auto
  then have "pre ! (i * 3 - 1) = CHR '':''" using last_conv_nth[of pre] assms False by simp
  then show ?thesis using assms(1) False by (simp add: char_at_def nth_append)
qed simp

lemma mac_bytes_text:
  assumes "length pre = i * 3" and "i \<noteq> 0 \<Longrightarrow> last pre = CHR '':''" and "bs \<noteq> []"
  shows "mac_bytes (pre @ mac_text bs @ [CHR 0x0A]) i (length bs) = Ret (Some bs)"
  using assms
proof (induction bs arbitrary: pre i rule: mac_text.induct)
  case (2 b)
  have c: "(if i = 0 then Some (CHR '':'') else char_at (pre @ hex_pair b @ [CHR 0x0A]) (i * 3 - 1)) = Some (CHR '':'')"
    by (rule char_before[OF 2(1,2)])
  have "drop (i * 3) (pre @ hex_pair b @ [CHR 0x0A]) = hex_pair b @ [CHR 0x0A]" using 2(1) by simp
  then show ?case using c by (simp add: hex_pair_scan)
next
  case (3 b b2 bs)
  let ?t = "pre @ mac_text (b # b2 # bs) @ [CHR 0x0A]"
  have c: "(if i = 0 then Some (CHR '':'') else char_at ?t (i * 3 - 1)) = Some (CHR '':'')"
    by (rule char_before[OF 3(2,3)])
  have d: "drop (i * 3) ?t = hex_pair b @ (CHR '':'' # mac_text (b2 # bs) @ [CHR 0x0A])" using 3(2) by simp
  have "mac_bytes ((pre @ hex_pair b @ [CHR '':'']) @ mac_text (b2 # bs) @ [CHR 0x0A]) (i + 1) (length (b2 # bs)) = Ret (Some (b2 # bs))"
    using 3(2) by (intro "3.IH") simp_all
  then have r: "mac_bytes ?t (i + 1) (Suc (length bs)) = Ret (Some (b2 # bs))" by simp
  have "mac_bytes ?t i (Suc (Suc (length bs))) = Ret (Some (b # b2 # bs))"
    by (subst mac_bytes.simps(2)) (simp only: c d hex_pair_scan r option.case result.case option.map if_False simp_thms)
  then show ?case by simp
qed simp

text \<open>A device and its directory.\<close>

record net_device =
  nd_ifindex :: nat
  nd_flags :: nat
  nd_broadcast :: "byte list"

definition device_dir :: "net_device \<Rightarrow> string \<Rightarrow> string option" where
  "device_dir d = [''ifindex'' \<mapsto> show_base 10 (nd_ifindex d) @ [CHR 0x0A], ''flags'' \<mapsto> ''0x'' @ show_base 16 (nd_flags d) @ [CHR 0x0A],
     ''addr_len'' \<mapsto> show_base 10 (length (nd_broadcast d)) @ [CHR 0x0A], ''broadcast'' \<mapsto> mac_text (nd_broadcast d) @ [CHR 0x0A]]"

definition device_values :: "net_device \<Rightarrow> sysfs_devattr_values" where
  "device_values d = \<lparr>sv_ifname = None, sv_ifindex = nd_ifindex d, sv_flags = nd_flags d, sv_addr_len = length (nd_broadcast d),
     sv_broadcast = Some (nd_broadcast d)\<rparr>"

definition wf_device :: "net_device \<Rightarrow> bool" where
  "wf_device d \<longleftrightarrow> 0 < nd_ifindex d \<and> nd_ifindex d < 4294967296 \<and> nd_flags d < 4294967296 \<and> length (nd_broadcast d) < 4294967296"

lemma device_read:
  assumes "wf_device d"
  shows "read_attrs (device_dir d) devattrs no_values = (Ret 0, device_values d)"
proof -
  have "nd_ifindex d \<le> ULONG_MAX" "nd_flags d \<le> ULONG_MAX" "length (nd_broadcast d) \<le> ULONG_MAX"
    using assms by (simp_all add: wf_device_def ULONG_MAX_def)
  note n = ulong_dec[OF this(1)] ulong_hex[OF this(2)] ulong_dec[OF this(3)]
  have "mac_bytes (mac_text (nd_broadcast d) @ [CHR 0x0A]) 0 (length (nd_broadcast d)) = Ret (Some (nd_broadcast d))"
    using mac_bytes_text[of "[]" 0 "nd_broadcast d"] by (cases "nd_broadcast d") auto
  then show ?thesis using n assms
    by (simp add: devattrs_def device_dir_def sysfs_devattr_macaddr_def device_values_def no_values_def wf_device_def)
qed

section \<open>Properties\<close>

text \<open>
  The attributes are read back: from the directory of a device as the kernel prints it (index and length
  in decimal, flags in hexadecimal, the broadcast address with colons), the loop over the attributes
  returns 0 with exactly the values of the device.
\<close>

theorem sysfs_device_roundtrip:
  assumes "wf_device d"
  shows "read_attrs (device_dir d) devattrs no_values = (Ret 0, device_values d)"
  by (rule device_read[OF assms])

definition demo_nd :: net_device where
  "demo_nd = \<lparr>nd_ifindex = 2, nd_flags = 0x1043, nd_broadcast = replicate 6 0xFF\<rparr>"

theorem sysfs_device_roundtrip_witness:
  "read_attrs (device_dir demo_nd) devattrs no_values =
     (Ret 0, \<lparr>sv_ifname = None, sv_ifindex = 2, sv_flags = 0x1043, sv_addr_len = 6, sv_broadcast = Some (replicate 6 0xFF)\<rparr>)"
  using sysfs_device_roundtrip[of demo_nd] by (simp add: wf_device_def demo_nd_def device_values_def)

text \<open>A device suitable for ARP, and a running one.\<close>

definition suitable :: "net_device \<Rightarrow> bool" where
  "suitable d \<longleftrightarrow> and (nd_flags d) IFF_UP \<noteq> 0 \<and> and (nd_flags d) (or IFF_NOARP 8) = 0 \<and> nd_broadcast d \<noteq> []"

definition running :: "net_device \<Rightarrow> bool" where
  "running d \<longleftrightarrow> and (nd_flags d) IFF_RUNNING \<noteq> 0"

definition named_values :: "string \<times> net_device \<Rightarrow> sysfs_devattr_values" where
  "named_values = (\<lambda>(name, d). (device_values d)\<lparr>sv_ifname := Some name\<rparr>)"

abbreviation listing :: "(string \<times> net_device) list \<Rightarrow> (string \<times> (string \<Rightarrow> string option)) list" where
  "listing \<equiv> map (\<lambda>(name, d). (name, device_dir d))"

lemma sysfs_loop_step:
  assumes "dev_name st = None" and "wf_device d"
  shows "sysfs_loop True st ((name, device_dir d) # ds) (sv, cnt) =
    (if \<not> suitable d \<or> sv_ifindex sv \<noteq> 0 \<and> and (sv_flags sv) IFF_RUNNING \<noteq> 0 then sysfs_loop True st ds (sv, cnt)
     else if cnt \<noteq> 0 then Ret (True, named_values (name, d), cnt + 1)
     else sysfs_loop True st ds (named_values (name, d), cnt + 1))"
proof -
  have f: "sv_flags (device_values d) mod 4294967296 = nd_flags d" using assms(2) by (simp add: device_values_def wf_device_def)
  have v: "sv_addr_len (device_values d) = length (nd_broadcast d)" by (simp add: device_values_def)
  show ?thesis using assms(1) device_read[OF assms(2)]
    by (simp add: f v check_ifflags_def suitable_def named_values_def)
qed

lemma loop_running:
  assumes "dev_name st = None" and "\<forall>x\<in>set ds. wf_device (snd x)" and "wf_device d" and "running d"
  shows "sysfs_loop True st (listing ds) (named_values (name, d), cnt) = Ret (True, named_values (name, d), cnt)"
  using assms(2)
proof (induction ds)
  case (Cons x ds)
  obtain m e where x: "x = (m, e)" by (cases x)
  have "sv_ifindex (named_values (name, d)) \<noteq> 0" "and (sv_flags (named_values (name, d))) IFF_RUNNING \<noteq> 0"
    using assms(3,4) by (simp_all add: named_values_def device_values_def wf_device_def running_def)
  then show ?case using Cons x sysfs_loop_step[OF assms(1), of e] by simp
qed simp

lemma loop_second:
  assumes "dev_name st = None" and "\<forall>x\<in>set ds. wf_device (snd x)" and "\<not> running d"
  shows "sysfs_loop True st (listing ds) (named_values (name, d), 1) =
    (case filter (\<lambda>x. suitable (snd x)) ds of [] \<Rightarrow> Ret (True, named_values (name, d), 1) | y # _ \<Rightarrow> Ret (True, named_values y, 2))"
  using assms(2)
proof (induction ds)
  case (Cons x ds)
  obtain m e where x: "x = (m, e)" by (cases x)
  have "and (sv_flags (named_values (name, d))) IFF_RUNNING = 0"
    using assms(3) by (simp add: named_values_def device_values_def running_def)
  then show ?case using Cons x sysfs_loop_step[OF assms(1), of e] by simp
qed simp

lemma loop_first:
  assumes "dev_name st = None" and "\<forall>x\<in>set ds. wf_device (snd x)"
  shows "sysfs_loop True st (listing ds) (no_values, 0) =
    (case filter (\<lambda>x. suitable (snd x)) ds of
       [] \<Rightarrow> Ret (True, no_values, 0)
     | x # r \<Rightarrow> (case r of y # _ \<Rightarrow> if running (snd x) then Ret (True, named_values x, 1) else Ret (True, named_values y, 2)
               | [] \<Rightarrow> Ret (True, named_values x, 1)))"
  using assms(2)
proof (induction ds)
  case (Cons x ds)
  obtain m e where x: "x = (m, e)" by (cases x)
  have n: "sv_ifindex no_values = 0" by (simp add: no_values_def)
  have w: "wf_device e" "\<forall>x\<in>set ds. wf_device (snd x)" using Cons.prems x by simp_all
  note s = sysfs_loop_step[OF assms(1) w(1), of m "listing ds" no_values 0]
  show ?case
  proof (cases "suitable e")
    case False
    then show ?thesis using Cons x s by simp
  next
    case True
    then have "sysfs_loop True st (listing (x # ds)) (no_values, 0) = sysfs_loop True st (listing ds) (named_values (m, e), 1)"
      using x s n by simp
    then show ?thesis using True x loop_running[OF assms(1) w(2,1)] loop_second[OF assms(1) w(2)]
      by (cases "running e") (auto split: list.split)
  qed
qed simp

text \<open>
  C34. The search without a device name: of the devices suitable for ARP (up, with ARP, not the loopback, with
  an address) it takes the first if it is the only one or it is running, and records its index, name and
  broadcast address.  With several suitable devices the first of which is not running it reports that there is
  none, even if a later one is running.
\<close>

theorem sysfs_search_choice:
  assumes "dev_name st = None" and "dev_ifindex st = 0" and "\<forall>x\<in>set ds. wf_device (snd x)"
    and "sysfs_devices env = Some (listing ds)" and "sysfs_strdup env"
  shows "find_device_by_libsysfs env (st, None) =
    (case filter (\<lambda>x. suitable (snd x)) ds of
       [] \<Rightarrow> (Ret 1, (st, Some no_values))
     | x # r \<Rightarrow>
         if r = [] \<or> running (snd x)
         then (Ret 0, (st\<lparr>dev_ifindex := nd_ifindex (snd x), dev_name := Some (fst x)\<rparr>, Some (named_values x)))
         else (Ret 1, (st, Some (named_values (hd r)))))"
proof (cases "filter (\<lambda>x. suitable (snd x)) ds")
  case Nil
  then show ?thesis using assms loop_first[OF assms(1,3)] by (simp add: find_device_by_libsysfs_def)
next
  case (Cons x r)
  obtain m e where x: "x = (m, e)" by (cases x)
  have "x \<in> set (filter (\<lambda>x. suitable (snd x)) ds)" using Cons by simp
  then have w: "wf_device e" using assms(3) x by auto
  then have v: "sv_ifindex (named_values x) mod 4294967296 = nd_ifindex e" "sv_ifname (named_values x) = Some m" "nd_ifindex e \<noteq> 0"
    using x by (simp_all add: named_values_def device_values_def wf_device_def)
  show ?thesis using assms Cons loop_first[OF assms(1,3)] v x
    by (cases r) (simp_all add: find_device_by_libsysfs_def)
qed

theorem sysfs_search_choice_witness:
  "\<exists>st'. find_device_by_libsysfs \<lparr>sysfs_devices = Some (listing [(''lo'', demo_nd\<lparr>nd_flags := 0x49\<rparr>), (''eth0'', demo_nd), (''eth1'', demo_nd)]), sysfs_strdup = True\<rparr>
      (arp_init\<lparr>dev_name := None\<rparr>, None) = (Ret 0, st') \<and> dev_name (fst st') = Some ''eth0'' \<and> dev_ifindex (fst st') = 2"
proof -
  let ?ds = "[(''lo'', demo_nd\<lparr>nd_flags := 0x49\<rparr>), (''eth0'', demo_nd), (''eth1'', demo_nd)]"
  have f: "filter (\<lambda>x. suitable (snd x)) ?ds = [(''eth0'', demo_nd), (''eth1'', demo_nd)]" "running demo_nd"
    by (simp_all add: suitable_def running_def demo_nd_def IFF_UP_def IFF_NOARP_def IFF_RUNNING_def)
  have "\<forall>x\<in>set ?ds. wf_device (snd x)" by (simp add: wf_device_def demo_nd_def)
  then show ?thesis
    using sysfs_search_choice[of "arp_init\<lparr>dev_name := None\<rparr>" ?ds "\<lparr>sysfs_devices = Some (listing ?ds), sysfs_strdup = True\<rparr>"] f
    by (simp add: arp_init_def demo_nd_def)
qed

end
