(* ===== verification/Send_Arp_Privileges.thy ===== *)
theory Send_Arp_Privileges
  imports C_Lib
begin

text \<open>
  The privileges of \<^verbatim>\<open>src/tools/send_arp.linux.c\<close>: the functions that limit, raise and drop them, in the
  version for libcap and in the one without, and the order in which \<open>main\<close> calls them.  The credentials of
  the process are the record \<open>creds\<close>; \<open>setuid\<close> and \<open>cap_set_proc\<close> change them as Linux documents it in
  setuid(2) and capabilities(7).
\<close>

section \<open>Credentials\<close>

definition CAP_NET_RAW :: string where "CAP_NET_RAW = ''cap_net_raw''"
definition CAP_SETUID :: string where "CAP_SETUID = ''cap_setuid''"

record creds =
  ruid :: nat
  euid :: nat
  suid :: nat
  permitted :: "string set"
  effective :: "string set"
  keep_caps :: bool

text \<open>
  New user IDs: when no ID is that of root any more, the capabilities are cleared, the permitted ones
  unless they are kept; the effective ones go and come with the effective user ID.
\<close>

definition set_ids :: "nat \<Rightarrow> nat \<Rightarrow> nat \<Rightarrow> creds \<Rightarrow> creds" where
  "set_ids r e s p =
     (let leaves = (ruid p = 0 \<or> euid p = 0 \<or> suid p = 0) \<and> r \<noteq> 0 \<and> e \<noteq> 0 \<and> s \<noteq> 0;
          pm = (if leaves \<and> \<not> keep_caps p then {} else permitted p)
      in p\<lparr>ruid := r, euid := e, suid := s, permitted := pm,
           effective := (if leaves \<or> euid p = 0 \<and> e \<noteq> 0 then {} else if euid p \<noteq> 0 \<and> e = 0 then pm else effective p)\<rparr>)"

definition setuid :: "nat \<Rightarrow> creds \<Rightarrow> bool \<times> creds" where
  "setuid u p =
     (if CAP_SETUID \<in> effective p then (True, set_ids u u u p)
      else if u = ruid p \<or> u = suid p then (True, set_ids (ruid p) u (suid p) p)
      else (False, p))"

definition cap_set_proc :: "string set \<Rightarrow> string set \<Rightarrow> creds \<Rightarrow> bool \<times> creds" where
  "cap_set_proc pm ef p =
     (if pm \<subseteq> permitted p \<and> ef \<subseteq> pm then (True, p\<lparr>permitted := pm, effective := ef\<rparr>) else (False, p))"

section \<open>Without libcap\<close>

text \<open>The state is the static variable \<open>euid\<close> and the credentials.\<close>

definition limit_capabilities :: "creds \<Rightarrow> nat \<times> creds" where
  "limit_capabilities p = (euid p, p)"

definition modify_capability_raw :: "bool \<Rightarrow> nat \<times> creds \<Rightarrow> int \<times> (nat \<times> creds)" where
  "modify_capability_raw on = (\<lambda>(eu, p). case setuid (if on then eu else ruid p) p of (ok, p') \<Rightarrow> (if ok then 0 else - 1, (eu, p')))"

definition drop_capabilities :: "nat \<times> creds \<Rightarrow> unit result \<times> (nat \<times> creds)" where
  "drop_capabilities = (\<lambda>(eu, p). case setuid (ruid p) p of (ok, p') \<Rightarrow> (if ok then Ret () else Exit (- 1), (eu, p')))"

text \<open>The calls of \<open>main\<close>: around the raw socket, around the probe's option, at the end.  \<open>main\<close> ignores
  what \<open>modify_capability_raw\<close> returns.\<close>

definition arp_privileges :: "bool \<Rightarrow> creds \<Rightarrow> unit result \<times> (nat \<times> creds)" where
  "arp_privileges probe p =
     (let raised = (\<lambda>x. snd (modify_capability_raw True x)); lowered = (\<lambda>x. snd (modify_capability_raw False x));
          s1 = lowered (raised (limit_capabilities p));
          s2 = (if probe then lowered (raised s1) else s1)
      in drop_capabilities s2)"

section \<open>With libcap\<close>

record cap_env =
  cap_get_ok :: bool
  cap_clear_ok :: bool
  cap_init_ok :: bool
  prctl_ok :: bool

text \<open>The state is the static variable \<open>cap_raw\<close>, whether it is \<open>CAP_SET\<close>, and the credentials.\<close>

definition limit_capabilities_cap :: "cap_env \<Rightarrow> creds \<Rightarrow> unit result \<times> (bool \<times> creds)" where
  "limit_capabilities_cap env p =
     (let raw = (CAP_NET_RAW \<in> permitted p);
          p1 = (if raw then snd (cap_set_proc {CAP_NET_RAW} {} p) else p)
      in if \<not> cap_get_ok env then (Exit (- 1), (False, p))
         else if raw \<and> \<not> cap_clear_ok env then (Exit (- 1), (raw, p))
         else if \<not> prctl_ok env then (Exit (- 1), (raw, p1))
         else case setuid (ruid p1) (p1\<lparr>keep_caps := True\<rparr>) of (ok, p2) \<Rightarrow>
           if \<not> ok then (Exit (- 1), (raw, p2)) else (Ret (), (raw, p2\<lparr>keep_caps := False\<rparr>)))"

definition modify_capability_raw_cap :: "cap_env \<Rightarrow> bool \<Rightarrow> bool \<times> creds \<Rightarrow> int \<times> (bool \<times> creds)" where
  "modify_capability_raw_cap env on = (\<lambda>(raw, p).
     if \<not> raw then (if on then - 1 else 0, (raw, p))
     else if \<not> cap_get_ok env then (- 1, (raw, p))
     else case cap_set_proc (permitted p) (if on then insert CAP_NET_RAW (effective p) else effective p - {CAP_NET_RAW}) p of
       (ok, p') \<Rightarrow> (if ok then 0 else - 1, (raw, p')))"

definition drop_capabilities_cap :: "cap_env \<Rightarrow> bool \<times> creds \<Rightarrow> unit result \<times> (bool \<times> creds)" where
  "drop_capabilities_cap env = (\<lambda>(raw, p).
     if \<not> cap_init_ok env then (Exit (- 1), (raw, p))
     else case cap_set_proc {} {} p of (ok, p') \<Rightarrow> (if ok then Ret () else Exit (- 1), (raw, p')))"

section \<open>Properties\<close>

lemma setuid_root:
  assumes "CAP_SETUID \<in> effective p" and "euid p = 0"
  shows "setuid 0 p = (True, p\<lparr>ruid := 0, euid := 0, suid := 0\<rparr>)"
  using assms by (simp add: setuid_def set_ids_def Let_def)

text \<open>
  C33. Without libcap a set-user-ID root program keeps all its privileges: raising them with \<open>setuid(euid)\<close>
  makes the real user ID that of root as well, so that the later \<open>setuid(getuid())\<close> changes nothing.  At the end
  of the set-up all user IDs are 0 and the capabilities are those of the start, with no error
  reported.
\<close>

theorem setuid_root_kept:
  assumes "euid p = 0" and "CAP_SETUID \<in> effective p"
  shows "arp_privileges probe p = (Ret (), (0, p\<lparr>ruid := 0, euid := 0, suid := 0\<rparr>))"
proof -
  let ?q = "p\<lparr>ruid := 0, euid := 0, suid := 0\<rparr>"
  have r: "setuid 0 p = (True, ?q)" "setuid 0 ?q = (True, ?q)"
    using setuid_root[OF assms(2,1)] setuid_root[of ?q] assms(2) by simp_all
  have "snd (modify_capability_raw True (0, p)) = (0, ?q)" "snd (modify_capability_raw True (0, ?q)) = (0, ?q)"
    "snd (modify_capability_raw False (0, ?q)) = (0, ?q)" "drop_capabilities (0, ?q) = (Ret (), (0, ?q))"
    using r by (simp_all add: modify_capability_raw_def drop_capabilities_def)
  then show ?thesis using assms(1) by (simp add: arp_privileges_def limit_capabilities_def Let_def)
qed

theorem setuid_root_kept_witness:
  "arp_privileges True \<lparr>ruid = 1000, euid = 0, suid = 0, permitted = {CAP_NET_RAW, CAP_SETUID}, effective = {CAP_NET_RAW, CAP_SETUID}, keep_caps = False\<rparr>
     = (Ret (), (0, \<lparr>ruid = 0, euid = 0, suid = 0, permitted = {CAP_NET_RAW, CAP_SETUID}, effective = {CAP_NET_RAW, CAP_SETUID}, keep_caps = False\<rparr>))"
  using setuid_root_kept[of "\<lparr>ruid = 1000, euid = 0, suid = 0, permitted = {CAP_NET_RAW, CAP_SETUID}, effective = {CAP_NET_RAW, CAP_SETUID}, keep_caps = False\<rparr>" True]
  by simp

lemma limit_cap_result:
  assumes "cap_get_ok env" and "cap_clear_ok env" and "prctl_ok env" and "CAP_NET_RAW \<in> permitted p" and "euid p = 0 \<or> ruid p \<noteq> 0"
  shows "\<exists>q. limit_capabilities_cap env p = (Ret (), (True, q)) \<and> permitted q = {CAP_NET_RAW} \<and> effective q = {} \<and>
    euid q = ruid p \<and> ruid q = ruid p \<and> suid q = suid p"
  using assms
  by (auto simp: limit_capabilities_cap_def cap_set_proc_def setuid_def set_ids_def Let_def)

text \<open>
  With libcap the program has no more than the capability for raw sockets after the first call, has it
  effective exactly between raising and lowering it, and none at the end; from the first call on its effective user ID is
  the real one.  The saved user ID is never changed.
\<close>

theorem libcap_privileges:
  assumes "cap_get_ok env" and "cap_clear_ok env" and "cap_init_ok env" and "prctl_ok env"
    and "CAP_NET_RAW \<in> permitted p" and "euid p = 0 \<or> ruid p \<noteq> 0"
  shows "\<exists>q. limit_capabilities_cap env p = (Ret (), (True, q)) \<and> permitted q = {CAP_NET_RAW} \<and> effective q = {} \<and>
    euid q = ruid p \<and> suid q = suid p \<and>
    modify_capability_raw_cap env True (True, q) = (0, (True, q\<lparr>effective := {CAP_NET_RAW}\<rparr>)) \<and>
    modify_capability_raw_cap env False (True, q\<lparr>effective := {CAP_NET_RAW}\<rparr>) = (0, (True, q)) \<and>
    drop_capabilities_cap env (True, q) = (Ret (), (True, q\<lparr>permitted := {}, effective := {}\<rparr>))"
proof -
  obtain q where q: "limit_capabilities_cap env p = (Ret (), (True, q))" "permitted q = {CAP_NET_RAW}" "effective q = {}"
    "euid q = ruid p" "suid q = suid p"
    using limit_cap_result[OF assms(1,2,4-6)] by blast
  have "modify_capability_raw_cap env True (True, q) = (0, (True, q\<lparr>effective := {CAP_NET_RAW}\<rparr>))"
    using q(2,3) assms(1) by (cases q) (simp add: modify_capability_raw_cap_def cap_set_proc_def)
  moreover have "modify_capability_raw_cap env False (True, q\<lparr>effective := {CAP_NET_RAW}\<rparr>) = (0, (True, q))"
    using q(2,3) assms(1) by (cases q) (simp add: modify_capability_raw_cap_def cap_set_proc_def)
  moreover have "drop_capabilities_cap env (True, q) = (Ret (), (True, q\<lparr>permitted := {}, effective := {}\<rparr>))"
    using assms(3) by (simp add: drop_capabilities_cap_def cap_set_proc_def)
  ultimately show ?thesis using q by blast
qed

theorem libcap_privileges_witness:
  "\<exists>q. limit_capabilities_cap \<lparr>cap_get_ok = True, cap_clear_ok = True, cap_init_ok = True, prctl_ok = True\<rparr>
      \<lparr>ruid = 1000, euid = 0, suid = 0, permitted = {CAP_NET_RAW, CAP_SETUID}, effective = {CAP_NET_RAW, CAP_SETUID}, keep_caps = False\<rparr> = (Ret (), (True, q)) \<and>
     permitted q = {CAP_NET_RAW} \<and> euid q = 1000"
  using libcap_privileges[of "\<lparr>cap_get_ok = True, cap_clear_ok = True, cap_init_ok = True, prctl_ok = True\<rparr>"
      "\<lparr>ruid = 1000, euid = 0, suid = 0, permitted = {CAP_NET_RAW, CAP_SETUID}, effective = {CAP_NET_RAW, CAP_SETUID}, keep_caps = False\<rparr>"]
  by auto

end
