(* ===== verification/Spec2Isabelle.thy ===== *)
theory Spec2Isabelle
  imports Sfex_Tools Sfex_Sigterm Storage_Mon_Loop Findif Tickle_Tcp Send_Ua Send_Arp_Libnet10 Send_Arp_Sysfs Send_Arp_Privileges
begin

text \<open>
  Verification of the C programs of the resource-agents repository: the shared disk lock tools
  (\<^verbatim>\<open>src/tools/sfex_*.c\<close>), the storage monitor (\<^verbatim>\<open>src/tools/storage_mon.c\<close>), the
  interface finder (\<^verbatim>\<open>src/tools/findif.c\<close>), the TCP tickle tool
  (\<^verbatim>\<open>src/tools/tickle_tcp.c\<close>), the ARP tools (\<^verbatim>\<open>src/tools/send_arp.linux.c\<close>, \<^verbatim>\<open>send_arp.libnet.c\<close>) and the IPv6 address agent (\<^verbatim>\<open>src/heartbeat/IPv6addr.c\<close>,
  \<^verbatim>\<open>IPv6addr_utils.c\<close>, \<^verbatim>\<open>send_ua.c\<close>).

  \<^bold>\<open>The parts and how they interact.\<close>  The sfex programs share a library: \<^verbatim>\<open>sfex_init\<close> formats a
  device with a control block and lock blocks, the daemon acquires one lock, keeps it alive by
  advancing its counter and releases it, and \<^verbatim>\<open>sfex_stat\<close> reports it.  Nodes meet only on the
  device.  The storage monitor forks a test per device and turns their results into a score, once in
  the foreground or in rounds as a daemon that answers clients.  \<^verbatim>\<open>findif\<close> chooses an interface for
  an IPv4 address, \<^verbatim>\<open>tickle_tcp\<close> sends acknowledgement packets for connections given on its input,
  \<^verbatim>\<open>send_arp\<close> announces an IPv4 address or tests whether another host has it, \<^verbatim>\<open>IPv6addr\<close> assigns and
  removes an IPv6 address and announces it, \<^verbatim>\<open>send_ua\<close> only announces it.

  \<^bold>\<open>The theories.\<close>
  \<^item> \<open>C_Lib\<close>: the part of C and its library used throughout: outcomes of a call (\<open>Ret\<close>, \<open>Exit\<close>, and \<open>Fault\<close>
    for an access outside a buffer), buffers and strings, decimal and hexadecimal conversion, reading
    lines, \<open>getopt\<close> and \<open>getopt_long\<close>; the rules for invariants of sequential code (\<open>keeps\<close>) and the
    locale \<open>step_invariant\<close> for step relations.
  \<^item> \<open>Sfex_Device\<close>: the device, a sequence of bytes with a position, and the system calls on it; a
    script gives the outcome of each call and what other nodes write before it.
  \<^item> \<open>Sfex_Lib\<close>: \<^verbatim>\<open>sfex.h\<close> and \<^verbatim>\<open>sfex_lib.c\<close>, one definition per function; the on-disk format round
    trips, by the interface \<open>field_codec\<close> of a fixed-width field interpreted for its numbers and names;
    the isolation of lock blocks, by the interface \<open>block_array\<close>; safety of all buffer accesses.
  \<^item> \<open>Sfex_Daemon\<close>: \<^verbatim>\<open>sfex_daemon.c\<close>; its static variables are the record \<open>sfex_daemon\<close>.  Acquisition on
    a quiet device and in every environment, live and stale holders, the updates, keeping and handing
    over the lock, memory safety of the whole program.
  \<^item> \<open>Sfex_Protocol\<close>: the lock protocol between any number of nodes as a timed step relation, with the
    invariant that makes its owner unique.
  \<^item> \<open>Sfex_Cluster\<close>: daemons on one disk.  The functions of \<open>Sfex_Daemon\<close> are cut into segments with one disk
    access each (\<open>segment\<close>), which compose to them again; \<open>cluster_step\<close> interleaves the segments of all nodes
    on the shared bytes, and simulates the protocol.  Mutual exclusion, and that a node
    alone takes the lock in every run of it.
  \<^item> \<open>Sfex_Sigterm\<close>: the cluster with the SIGTERM handler at every place (\<open>signal_step\<close>), and a run of four nodes,
    computed on pictures that have of a record only what the protocol reads, at whose end two hold the lock.
  \<^item> \<open>Sfex_Tools\<close>: \<^verbatim>\<open>sfex_init.c\<close> and \<^verbatim>\<open>sfex_stat.c\<close>.
  \<^item> \<open>Storage_Mon\<close>, \<open>Storage_Mon_Main\<close>: \<^verbatim>\<open>storage_mon.c\<close>; its globals are the record \<open>storage_mon\<close>, its
    handlers functions on it, and a round is a sequence of handler events.  The score of a round is
    exactly the sum over the failed devices; bounds, the client protocol, the foreground program.
  \<^item> \<open>Storage_Mon_Loop\<close>: the daemon in its event loop.  The state \<open>mon_loop\<close> adds the pending timers, \<open>loop_step\<close> has
    one rule per callback, and the requests a handler made are served after it.  One invariant carries the types of
    the state, the score and what clients are told in every order of events; SIGTERM ends the loop.
  \<^item> \<open>Inet\<close>: byte order, words in memory, the text forms of IPv4 and IPv6 addresses.
  \<^item> \<open>Findif\<close>: \<^verbatim>\<open>findif.c\<close>; longest prefix search, netmask conversions, the output line, memory safety; every copy into a
    character buffer is made with the size of the buffer (\<open>strncpy_z\<close>, \<open>strncpy_r\<close>) and faults outside it.
  \<^item> \<open>Tickle_Tcp\<close>: \<^verbatim>\<open>tickle_tcp.c\<close>; the checksums agree with the one's complement reference sum, the
    input loop sends for IPv4 and IPv6 connections, byte by byte, the packets it should, addresses are parsed back.
  \<^item> \<open>Pid_File\<close>, \<open>IPv6addr\<close>, \<open>Send_Ua\<close>: the pid file, the agent and the announcement program.  In \<open>Pid_File\<close> other
    processes create, delete and fill the file before any call, and any call may fail; what a process that succeeds can rely
    on.  The table search refines a list search with prefix equality, all ends of start and stop, the life cycle of an
    address on a kernel that keeps its table, and that a neighbour accepts an advertisement by the checks of RFC 4861 (\<open>na_accept\<close>).
  \<^item> \<open>Send_Arp\<close>, \<open>Send_Arp_Run\<close>: \<^verbatim>\<open>send_arp.linux.c\<close>; its globals are the record \<open>arp\<close>, its handlers the
    functions \<open>catcher\<close> and \<open>recv_pack\<close> on it, a run is a sequence of alarms, packets and signals.  The receive
    filter is exact with respect to ARP frames, an announcement sends the number of frames asked for,
    duplicate address detection refines its specification, and the two meet on two hosts.
  \<^item> \<open>Send_Arp_Libnet\<close>: \<^verbatim>\<open>send_arp.libnet.c\<close>, the tool for other systems, with the code for libnet 1.1; what it
    sends, what its success means, its pid file (of \<open>Pid_File\<close>), and how its packets end the test of the Linux
    tool, given the packet layout libnet documents (\<open>libnet_layout\<close>).
  \<^item> \<open>Send_Arp_Libnet10\<close>: its code for libnet 1.0; the two versions agree as long as names resolve.
  \<^item> \<open>Send_Arp_Sysfs\<close>, \<open>Send_Arp_Privileges\<close>: of \<^verbatim>\<open>send_arp.linux.c\<close> the search with libsysfs, which device
    it takes and that it reads the attributes as the kernel prints them; and the privileges of the builds
    without and with libcap, over the rules Linux documents for \<open>setuid\<close> and \<open>cap_set_proc\<close>.
  This theory has the properties that span the sfex programs.

  \<^bold>\<open>Correspondence.\<close>  A structure is a record with the members of the source, a function a definition
  of the same name; a function that calls \<open>exit\<close> or may leave a buffer returns a \<open>result\<close>.  Machine
  integers are words, or integers with the conversion written out.  A \<open>return\<close> of \<open>main\<close> is its value.
  Log messages and texts on the standard error are left out.  Everything the programs learn from the
  system is an argument the theorems quantify over: the script of the device calls, the answers to
  \<open>fork\<close>, \<open>wait\<close>, sockets and requests, file contents, environment variables.  The kernel behind
  \<^verbatim>\<open>/proc/net/if_inet6\<close> is a function of the requests made, printed with real indices and flags (\<open>entry_line\<close>); only the life
  cycle assumes (\<open>kernel_table\<close>) that it grants an assignment exactly when the address is not there, records assignments and
  removals, in any order, and that nobody else changes the addresses meanwhile.  The handlers of \<open>SIGTERM\<close> in \<^verbatim>\<open>IPv6addr.c\<close>, \<^verbatim>\<open>send_ua.c\<close> and
  \<^verbatim>\<open>send_arp.libnet.c\<close> end the process with 0 at any point and are left out: theorems on these programs are about runs that the
  signal does not end.

  \<^bold>\<open>Loops and bounds.\<close>  Retry loops, scanning loops and the pid file loop are total functions with a
  measure: each retry uses up an element of the script, each scan shortens the text.  The pid file
  loop of the code is endless when another process makes the file anew before every attempt; its model runs with a
  script of finitely many interferences and failures, of any length, and each round uses up a part of the script or the file.  Endless loops run for a given number of
  rounds: the daemon's \<open>monitor_loop k\<close>; the theorems hold for every number.  The event loop of the storage monitor
  is a step relation, and its theorems are about every reachable state; they ask for a timeout shorter than the
  interval, without which a timer of one round meets the children of the next, and for forks that succeed.  The foreground wait of the storage monitor runs over the list of polls up to
  its deadline.

  \<^bold>\<open>Several nodes.\<close>  In \<open>Sfex_Daemon\<close> the other nodes are arbitrary writes in the script; in
  \<open>Sfex_Cluster\<close> they run the same code.  There an access to the lock record is one step, a failing access is a node that
  stops, and so is SIGTERM while a node acquires the lock: a release in that phase, of a lock an earlier
  run left in the own name, is outside, and has to be: \<open>Sfex_Sigterm\<close> shows that it breaks mutual exclusion.  A sleep lasts at least its time; the next access
  follows within \<open>slack\<close>, a node that stops stays away longer than that, and during the wait
  of a node there are fewer than 1000 writes, the period of the counter.  \<open>timing_ok\<close> says what the
  timeouts need: the collision timeout is more than the slack, and the lock timeout more than the
  collision timeout and the monitor interval by four and three times the slack.

  \<^bold>\<open>Not modelled.\<close>  Of \<^verbatim>\<open>send_arp.linux.c\<close> the conversion of international names by libidn, which another build
  uses, and the standard output.  The usage texts, the XML description \<^verbatim>\<open>IPv6addr\<close> prints and the callbacks
  \<^verbatim>\<open>storage_mon\<close> only passes to libqb are left out.  The agents in shell and Perl,
  the rgmanager scripts, the tester and the build files are not C programs.  libqb, libnet, the kernel and
  the file system are only met through the answers above.
\<close>

section \<open>A lock from formatting to holding\<close>

lemma fresh_initialised:
  assumes "region 0 b d = control_block b (init_controldata cd0 bs (int n))" and "unat bs = b"
    and "\<forall>i \<in> {1..n}. region (b * i) b d = lock_block b free_lockdata"
    and "1 \<le> i" "i \<le> n" "n \<le> 999" "261 \<le> b" "b \<le> 9999999" "b * (n + 1) \<le> length d"
  shows "initialised (init_controldata cd0 bs (int n)) i free_lockdata d"
proof -
  have "b * (i + 1) \<le> b * (n + 1)" using assms(5) by (intro mult_le_mono2) simp
  then have "b * (i + 1) \<le> length d" using assms(9) by linarith
  with assms show ?thesis
    by (auto simp: initialised_def init_controldata_def wf_controldata_def sfex_consts)
qed

lemma daemon_main_index:
  assumes "1 \<le> i" "i \<le> 999" "hd device \<noteq> CHR ''-''"
    and "get_nodename (uname_node env) (strdup_ok env) = Ret name"
    and "daemon_start env [device] ((initial_daemon env name)\<lparr>lock_index := int i\<rparr>) = and_then f (\<lambda>_. Pair (Ret ())) st"
  shows "sfex_daemon_main env [''-i'', show_nat i, device] k = and_then f (\<lambda>_. monitor_loop k) st"
proof -
  have "daemon_options [(CHR ''i'', show_nat i)] (initial_daemon env name)
      = (Ret (), (initial_daemon env name)\<lparr>lock_index := int i\<rparr>)"
    using assms(1,2) by (simp add: daemon_option_def ULONG_MAX_def sfex_consts and_then_def)
  then show ?thesis
    using assms(3-5) getopt_number[of "''hi:c:t:m:n:r:''" "CHR ''i''" device i]
    by (simp add: sfex_daemon_main_def and_then_def split: prod.splits result.splits)
qed

text \<open>
  C5. The life of a lock across the programs, on a device nobody else uses: \<open>sfex_init -n n\<close>
  formats it; then for every lock \<open>i\<close> from 1 to \<open>n\<close> the daemon started with \<open>-i i\<close> takes the
  lock after its collision timeout of one second and runs any number \<open>k\<close> of monitor rounds without
  ending; the record on the disk is then locked with its name and the counter \<open>2 + k\<close> modulo 1000.
\<close>

theorem lock_life_cycle:
  fixes env :: sfex_env
  defines "b \<equiv> unat (scast (dev_sector env) :: 64 word)"
  assumes "1 \<le> i" "i \<le> n" "n \<le> 999" "hd device \<noteq> CHR ''-''"
    and "get_nodename (uname_node env) (strdup_ok env) = Ret name" and "c_string name"
    and "dev_script env = []" and "261 \<le> b" and "b \<le> 9999999" and "b * (n + 1) \<le> length (dev_contents env)"
    and "length (nodename ld0) = 256" and "sysrq_opens env" "sigaction_ok env" "daemonizes env"
  shows "\<exists>dv st' l. sfex_init_main env cd0 ld0 [''-n'', show_nat n, device] = (Exit 0, dv) \<and>
    sfex_daemon_main (env\<lparr>dev_contents := disk dv\<rparr>) [''-i'', show_nat i, device] k = (Ret (), st') \<and>
    lock_area st' = lock_block b l \<and> status l = SFEX_STATUS_LOCK \<and> cstr (nodename l) = name \<and>
    count l = int (2 + k) mod 1000 \<and> clock st' = 1 + 10 * k"
proof -
  let ?bs = "scast (dev_sector env) :: 64 word"
  let ?c = "init_controldata cd0 ?bs (int n)"
  obtain dv where i1: "sfex_init_main env cd0 ld0 [''-n'', show_nat n, device] = (Exit 0, dv)"
    and r: "region 0 b (disk dv) = control_block b ?c"
      "\<forall>i \<in> {1..n}. region (b * i) b (disk dv) = lock_block b free_lockdata"
      "length (disk dv) = length (dev_contents env)"
    using init_formats[OF _ assms(4-6,8), of ld0 cd0] assms(2,3,9-12) unfolding b_def by fastforce
  have n: "length name \<le> SFEX_MAX_NODENAME" using assms(6) by (auto simp: get_nodename_def split: option.splits if_splits)
  let ?env = "env\<lparr>dev_contents := disk dv\<rparr>"
  let ?st = "(initial_daemon ?env name)\<lparr>lock_index := int i\<rparr>"
  have "initialised ?c i free_lockdata (dev_contents ?env)"
    using fresh_initialised[OF r(1) _ r(2) assms(2-4,9,10)] r(3) assms(11) by (simp add: b_def)
  from quiet_start[OF this, of ?st device]
  obtain d where d: "daemon_start ?env [device] ?st = and_then acquire_lock (\<lambda>_. Pair (Ret ())) (?st\<lparr>cdata := ?c, io := d\<rparr>)"
    and q: "quiet_with free_lockdata (?st\<lparr>cdata := ?c, io := d\<rparr>)"
    using assms(8,13-15) by (auto simp: init_controldata_def)
  have m: "sfex_daemon_main ?env [''-i'', show_nat i, device] k
      = and_then acquire_lock (\<lambda>_. monitor_loop k) (?st\<lparr>cdata := ?c, io := d\<rparr>)"
    using daemon_main_index[OF assms(2) _ assms(5) _ d] assms(3,4,6) by simp
  obtain st' l where l: "and_then acquire_lock (\<lambda>_. monitor_loop k) (?st\<lparr>cdata := ?c, io := d\<rparr>) = (Ret (), st')"
    "quiet_with l st'" "status l = SFEX_STATUS_LOCK" "cstr (nodename l) = name"
    "count l = (0 + 2 + int k) mod 1000" "clock st' = 0 + 0 + 1 + k * 10" "cdata st' = ?c"
    using quiet_acquire_monitor[OF q wf_free_lockdata, of k] n assms(7)
    by (auto simp: valid_name_def initial_daemon_def free_lockdata_def zero_lockdata_def other_holds_def sfex_consts)
  have "bsize ?c = b" by (simp add: init_controldata_def b_def)
  with l i1 m show ?thesis by (intro exI[of _ dv] exI[of _ st'] exI[of _ l]) (simp add: quiet_with_def)
qed

theorem lock_life_cycle_witness:
  "\<exists>dv st' l. sfex_init_main blank_env zero_controldata zero_lockdata [''-n'', show_nat 2, ''/dev/sdb1''] = (Exit 0, dv) \<and>
    sfex_daemon_main (blank_env\<lparr>dev_contents := disk dv\<rparr>) [''-i'', show_nat 2, ''/dev/sdb1''] 3 = (Ret (), st') \<and>
    lock_area st' = lock_block 512 l \<and> cstr (nodename l) = ''node2'' \<and> count l = 5 \<and> clock st' = 31"
proof -
  have "sysrq_opens blank_env" "sigaction_ok blank_env" "daemonizes blank_env"
    by (simp_all add: blank_env_def demo_env_def)
  then obtain dv st' l where
    "sfex_init_main blank_env zero_controldata zero_lockdata [''-n'', show_nat 2, ''/dev/sdb1''] = (Exit 0, dv)"
    "sfex_daemon_main (blank_env\<lparr>dev_contents := disk dv\<rparr>) [''-i'', show_nat 2, ''/dev/sdb1''] 3 = (Ret (), st')"
    "lock_area st' = lock_block 512 l" "cstr (nodename l) = ''node2''" "count l = 5" "clock st' = 31"
    using lock_life_cycle[OF _ _ _ _ blank_env_facts(1) _ blank_env_facts(2), of 2 2 "''/dev/sdb1''" zero_lockdata
        zero_controldata 3] demo_stat_env(4)
    by (auto simp: blank_env_facts zero_lockdata_def)
  then show ?thesis by blast
qed

end
